(* ===== verification/Prelude.thy ===== *)
theory Prelude
  imports Main "HOL-Library.Word"
begin

text \<open>
  Shared vocabulary of the development: the machine-word types of the kernel, the outcome of a
  piece of kernel code (a value, or the reason why control never comes back), the reading of a
  32-bit address as page-directory index, page-table index and offset, and chains of records
  linked through a next pointer.
\<close>

unbundle bit_operations_syntax

named_theorems outcome_simps "how sequenced outcomes reduce"
named_theorems addr_simps "arithmetic of addresses, page indices and masks"

type_synonym u8 = "8 word"
type_synonym u16 = "16 word"
type_synonym u32 = "32 word"
type_synonym u64 = "64 word"

text \<open>A pointer is a 32-bit virtual address and the null pointer is 0.\<close>

type_synonym ptr = "32 word"

abbreviation (input) NULL :: ptr where
  "NULL \<equiv> 0"

section \<open>Outcomes\<close>

text \<open>
  Kernel code either returns or stops the machine for good: \<open>debug_panic\<close> halts,
  a dereference of the null pointer or of an unmapped page faults in ring 0 and
  panics, an index outside of an array or a shift by the width of a word is undefined in C, and a
  loop over a cyclic list spins.
\<close>

datatype halt =
    Panic string
  | NullDeref
  | PageFault u32
  | OutOfBounds
  | Undefined
  | Diverge

datatype 'a outcome = Ok 'a | Stop halt

primrec and_then :: "'a outcome \<Rightarrow> ('a \<Rightarrow> 'b outcome) \<Rightarrow> 'b outcome" where
  "and_then (Ok x) f = f x"
| "and_then (Stop h) f = Stop h"

primrec is_ok :: "'a outcome \<Rightarrow> bool" where
  "is_ok (Ok x) = True"
| "is_ok (Stop h) = False"

lemma and_then_cong [fundef_cong]:
  "m = m' \<Longrightarrow> (\<And>x. m' = Ok x \<Longrightarrow> f x = g x) \<Longrightarrow> and_then m f = and_then m' g"
  by (cases m') auto

lemma and_then_eq_Ok [outcome_simps]:
  "and_then m f = Ok y \<longleftrightarrow> (\<exists>x. m = Ok x \<and> f x = Ok y)"
  by (cases m) auto

lemma and_thenE: "and_then m f = Ok y \<Longrightarrow> (\<And>x. m = Ok x \<Longrightarrow> f x = Ok y \<Longrightarrow> thesis) \<Longrightarrow> thesis"
  by (cases m) auto

lemma and_then_eq_Stop [outcome_simps]:
  "and_then m f = Stop h \<longleftrightarrow> m = Stop h \<or> (\<exists>x. m = Ok x \<and> f x = Stop h)"
  by (cases m) auto

lemma and_then_assoc [simp]: "and_then (and_then m f) g = and_then m (\<lambda>x. and_then (f x) g)"
  by (cases m) auto

lemma and_then_Ok_right [simp]: "and_then m Ok = m"
  by (cases m) auto

lemma and_then_if: "and_then (if c then m else m') f = (if c then and_then m f else and_then m' f)"
  by simp

lemma is_ok_iff: "is_ok m \<longleftrightarrow> (\<exists>x. m = Ok x)"
  by (cases m) auto

text \<open>The state after a call whose result is not used; the state before it if the call does not return.\<close>

primrec ok_state :: "'s \<Rightarrow> ('r \<times> 's) outcome \<Rightarrow> 's" where
  "ok_state s (Ok r) = snd r"
| "ok_state s (Stop h) = s"

section \<open>Words\<close>

lemma unat_less_u32: "unat (w :: u32) < 4294967296"
  using unsigned_less [of w] by simp

lemma unat_less_idx: "unat (w :: 10 word) < 1024"
  using unsigned_less [of w] by simp

lemma unat_drop_bit [addr_simps]: "unat (drop_bit n w) = unat w div 2 ^ n"
  by (simp only: unsigned_drop_bit_eq) (simp add: drop_bit_eq_div take_bit_eq_mod)

lemma unat_add_no_wrap: "unat a + unat b < 4294967296 \<Longrightarrow> unat (a + b :: u32) = unat a + unat b"
  by (simp add: unat_word_ariths)

lemma and_one_zero_iff: "(w :: u32) AND 1 = 0 \<longleftrightarrow> \<not> bit w 0"
  by (simp add: and_one_eq mod_2_eq_odd bit_0)

lemma unat_shift_one: "i < 32 \<Longrightarrow> unat (push_bit i 1 :: u32) = 2 ^ i"
proof -
  assume "i < 32"
  then have "(2 :: nat) ^ i < 2 ^ 32" by (rule power_strict_increasing) simp
  then show ?thesis
    by (simp only: unsigned_push_bit_eq) (simp add: push_bit_eq_mult take_bit_eq_mod)
qed

lemma sint_u32: "sint (w :: u32) = (if uint w < 2147483648 then uint w else uint w - 4294967296)"
proof -
  have s: "sint w = (uint w + 2147483648) mod 4294967296 - 2147483648"
    by (simp add: sint_uint signed_take_bit_eq_take_bit_shift take_bit_eq_mod)
  have b: "0 \<le> uint w" "uint w < 4294967296" using uint_bounded [of w] by simp_all
  show ?thesis
  proof (cases "uint w < 2147483648")
    case True
    then have "(uint w + 2147483648) mod 4294967296 = uint w + 2147483648" using b by (intro mod_pos_pos_trivial) auto
    with s True show ?thesis by simp
  next
    case False
    have "(uint w + 2147483648) mod 4294967296 = uint w + 2147483648 - 4294967296"
      using b False by (subst mod_pos_geq) (auto intro!: mod_pos_pos_trivial)
    with s False show ?thesis by simp
  qed
qed

text \<open>The signed bounds check of an index accepts exactly the numbers below the bound.\<close>

lemma index_out_of_range:
  assumes "n \<le> 2147483648"
  shows "sint (w :: u32) < 0 \<or> int n \<le> sint w \<longleftrightarrow> n \<le> unat w"
proof -
  have "int (unat w) = uint w" by simp
  then have "n \<le> unat w \<longleftrightarrow> int n \<le> uint w" by linarith
  moreover have "0 \<le> uint w" "uint w < 4294967296" using uint_bounded [of w] by simp_all
  ultimately show ?thesis using assms by (simp add: sint_u32)
qed

lemma index_out_of_range_numeral:
  "sint (w :: u32) < 0 \<or> 1024 \<le> sint w \<longleftrightarrow> 1024 \<le> unat w"
  "sint (w :: u32) < 0 \<or> 256 \<le> sint w \<longleftrightarrow> 256 \<le> unat w"
  using index_out_of_range [of 1024 w] index_out_of_range [of 256 w] by simp_all

lemma sint_small: "unat (w :: u32) < 2147483648 \<Longrightarrow> sint w = int (unat w)"
proof -
  assume "unat w < 2147483648"
  then have "int (unat w) < 2147483648" by linarith
  then show ?thesis by (simp add: sint_u32)
qed

text \<open>Clearing the low bits of a word rounds it down.\<close>

lemma and_not_mask: "(w :: u32) AND NOT (mask n) = push_bit n (drop_bit n w)"
  by (rule bit_word_eqI) (auto simp: bit_simps simp del: push_bit_minus_one_eq_not_mask)

lemma unat_round_down: "unat (push_bit n (drop_bit n (w :: u32))) = unat w div 2 ^ n * 2 ^ n"
proof -
  have "unat w div 2 ^ n * 2 ^ n \<le> unat w" by (rule div_times_less_eq_dividend)
  also have "unat w < 2 ^ 32" using unat_less_u32 [of w] by simp
  finally have "unat w div 2 ^ n * 2 ^ n < 2 ^ 32" .
  then show ?thesis
    by (simp only: unsigned_push_bit_eq unat_drop_bit) (simp add: take_bit_eq_mod push_bit_eq_mult)
qed

lemma unat_and_not_mask: "unat ((w :: u32) AND NOT (mask n)) = unat w div 2 ^ n * 2 ^ n"
  by (simp only: and_not_mask unat_round_down)

lemma high_masks: "(- 0x400000 :: u32) = NOT (mask 22)" "(- 0x1000 :: u32) = NOT (mask 12)"
  by (simp_all flip: minus_exp_eq_not_mask)

section \<open>Virtual addresses\<close>

text \<open>
  The two-level page tables of the x86 split a virtual address into ten bits of directory index,
  ten bits of table index and twelve bits of offset. Memory is kept in 32-bit units, so the
  offset is read as ten bits of word index and two bits of byte.
\<close>

definition frame_of :: "u32 \<Rightarrow> 20 word" where
  "frame_of w = ucast (drop_bit 12 w)"

definition pdx :: "u32 \<Rightarrow> 10 word" where
  "pdx va = ucast (drop_bit 22 va)"

definition ptx :: "u32 \<Rightarrow> 10 word" where
  "ptx va = ucast (drop_bit 12 va)"

definition widx :: "u32 \<Rightarrow> 10 word" where
  "widx va = ucast (drop_bit 2 va)"

lemma unat_frame_of [addr_simps]: "unat (frame_of w) = unat w div 4096"
  using unat_less_u32 [of w]
  by (simp add: frame_of_def unsigned_ucast_eq take_bit_eq_mod unat_drop_bit)

lemma unat_pdx [addr_simps]: "unat (pdx va) = unat va div 4194304"
  using unat_less_u32 [of va]
  by (simp add: pdx_def unsigned_ucast_eq take_bit_eq_mod unat_drop_bit)

lemma unat_ptx [addr_simps]: "unat (ptx va) = unat va div 4096 mod 1024"
  by (simp add: ptx_def unsigned_ucast_eq take_bit_eq_mod unat_drop_bit)

lemma unat_widx [addr_simps]: "unat (widx va) = unat va div 4 mod 1024"
  by (simp add: widx_def unsigned_ucast_eq take_bit_eq_mod unat_drop_bit)

text \<open>Two addresses with the same indices lie on the same page.\<close>

lemma page_index_inj: "pdx a = pdx b \<Longrightarrow> ptx a = ptx b \<Longrightarrow> frame_of a = frame_of b"
proof -
  assume "pdx a = pdx b" and "ptx a = ptx b"
  then have d: "unat a div 4096 div 1024 = unat b div 4096 div 1024"
    and m: "unat a div 4096 mod 1024 = unat b div 4096 mod 1024"
    by (simp_all add: word_unat_eq_iff unat_pdx unat_ptx flip: div_mult2_eq)
  have "unat a div 4096 = unat b div 4096"
    using d m by (metis div_mult_mod_eq)
  then show ?thesis
    by (simp add: word_unat_eq_iff unat_frame_of)
qed

lemma high_mask: "(0xFFFFF000 :: u32) = push_bit 12 (mask 20)"
  by (simp add: mask_eq_exp_minus_1)

lemma low_bits_of_flags: "\<not> bit (0xE7F :: u32) (12 + n)"
proof -
  have "take_bit 12 (0xE7F :: u32) = 0xE7F" by simp
  then show ?thesis by (metis bit_take_bit_iff not_add_less1)
qed

lemma frame_of_high_mask [simp]: "frame_of (w AND 0xFFFFF000) = frame_of w"
  unfolding high_mask
  by (rule bit_word_eqI) (simp add: frame_of_def bit_simps)

lemma frame_of_entry [simp]: "frame_of ((w AND 0xFFFFF000) OR (v AND 0xE7F)) = frame_of w"
  unfolding high_mask
  by (rule bit_word_eqI)
    (simp add: frame_of_def bit_simps low_bits_of_flags del: bit_numeral_simps)

lemma find_Some_in: "find P xs = Some x \<Longrightarrow> x \<in> set xs \<and> P x"
  by (induction xs) (auto split: if_splits)

section \<open>Linked chains\<close>

text \<open>
  \<open>lseg nx p xs q\<close>: following \<open>nx\<close> from \<open>p\<close> visits the records \<open>xs\<close> and arrives at \<open>q\<close>.
  \<open>fifo nx h t xs\<close>: a queue with a pointer \<open>h\<close> to its first and \<open>t\<close> to its last record.
\<close>

fun lseg :: "(ptr \<Rightarrow> ptr) \<Rightarrow> ptr \<Rightarrow> ptr list \<Rightarrow> ptr \<Rightarrow> bool" where
  "lseg nx p [] q = (p = q)"
| "lseg nx p (x # xs) q = (p = x \<and> x \<noteq> NULL \<and> lseg nx (nx x) xs q)"

definition chain :: "(ptr \<Rightarrow> ptr) \<Rightarrow> ptr \<Rightarrow> ptr list \<Rightarrow> bool" where
  "chain nx p xs = lseg nx p xs NULL"

definition fifo :: "(ptr \<Rightarrow> ptr) \<Rightarrow> ptr \<Rightarrow> ptr \<Rightarrow> ptr list \<Rightarrow> bool" where
  "fifo nx h t xs \<longleftrightarrow> chain nx h xs \<and> t = (if xs = [] then NULL else last xs)"

lemma chain_Nil [simp]: "chain nx p [] \<longleftrightarrow> p = NULL"
  by (simp add: chain_def)

lemma chain_Cons [simp]: "chain nx p (x # xs) \<longleftrightarrow> p = x \<and> x \<noteq> NULL \<and> chain nx (nx x) xs"
  by (simp add: chain_def)

lemma chain_NULL [simp]: "chain nx NULL xs \<longleftrightarrow> xs = []"
  by (cases xs) auto

lemma chain_non_null: "p \<noteq> NULL \<Longrightarrow> chain nx p xs \<longleftrightarrow> (\<exists>ys. xs = p # ys \<and> chain nx (nx p) ys)"
  by (cases xs) auto

lemma lseg_append: "lseg nx p (xs @ ys) q \<longleftrightarrow> (\<exists>r. lseg nx p xs r \<and> lseg nx r ys q)"
  by (induction xs arbitrary: p) auto

lemma chain_append: "chain nx p (xs @ ys) \<longleftrightarrow> (\<exists>r. lseg nx p xs r \<and> chain nx r ys)"
  by (simp add: chain_def lseg_append)

lemma lseg_upd_other [simp]: "a \<notin> set xs \<Longrightarrow> lseg (nx(a := v)) p xs q = lseg nx p xs q"
  by (induction xs arbitrary: p) auto

lemma lseg_cong: "(\<And>x. x \<in> set xs \<Longrightarrow> nx x = nx' x) \<Longrightarrow> lseg nx p xs q = lseg nx' p xs q"
  by (induction xs arbitrary: p) auto

lemma chain_cong: "(\<And>x. x \<in> set xs \<Longrightarrow> nx x = nx' x) \<Longrightarrow> chain nx p xs = chain nx' p xs"
  unfolding chain_def by (rule lseg_cong)

lemma chain_upd_other [simp]: "a \<notin> set xs \<Longrightarrow> chain (nx(a := v)) p xs = chain nx p xs"
  by (simp add: chain_def)

lemma chain_in_not_null: "chain nx p xs \<Longrightarrow> x \<in> set xs \<Longrightarrow> x \<noteq> NULL"
  by (induction xs arbitrary: p) auto

lemma chain_unique: "chain nx p xs \<Longrightarrow> chain nx p ys \<Longrightarrow> xs = ys"
proof (induction xs arbitrary: p ys)
  case (Cons x xs)
  then show ?case by (cases ys) auto
qed auto

text \<open>A chain that ends in the null pointer never visits a record twice.\<close>

lemma chain_distinct: "chain nx p xs \<Longrightarrow> distinct xs"
proof (induction xs arbitrary: p)
  case (Cons x xs)
  then have tail: "chain nx (nx x) xs" by simp
  have "x \<notin> set xs"
  proof
    assume "x \<in> set xs"
    then obtain us vs where split: "xs = us @ x # vs" by (meson split_list)
    then have "chain nx (nx x) vs" using tail by (auto simp: chain_append)
    then have "vs = xs" using tail by (rule chain_unique)
    then show False using split by (metis append_self_conv2 length_append length_Cons
          less_add_Suc2 not_less_iff_gr_or_eq add_Suc_right)
  qed
  with Cons.IH [OF tail] show ?case by simp
qed simp

lemma chain_snoc: "chain nx p xs \<Longrightarrow> xs \<noteq> [] \<Longrightarrow> a \<noteq> NULL \<Longrightarrow> a \<notin> set xs \<Longrightarrow>
    chain ((nx(last xs := a))(a := NULL)) p (xs @ [a])"
proof (induction xs arbitrary: p)
  case (Cons x xs)
  show ?case
  proof (cases "xs = []")
    case True
    with Cons.prems show ?thesis by auto
  next
    case False
    from Cons.prems have "distinct (x # xs)" by (blast dest: chain_distinct)
    moreover from False have "last xs \<in> set xs" by simp
    ultimately have "x \<noteq> last xs" by auto
    with Cons False show ?thesis by auto
  qed
qed simp

lemma fifo_empty [simp]: "fifo nx h t [] \<longleftrightarrow> h = NULL \<and> t = NULL"
  by (auto simp: fifo_def)

lemma fifo_head_null: "fifo nx h t xs \<Longrightarrow> h = NULL \<longleftrightarrow> xs = []"
  by (cases xs) (auto simp: fifo_def)

lemma fifo_tail_null: "fifo nx h t xs \<Longrightarrow> t = NULL \<longleftrightarrow> xs = []"
  using chain_in_not_null [of nx h xs "last xs"] by (auto simp: fifo_def)

lemma fifo_cong: "(\<And>x. x \<in> set xs \<Longrightarrow> nx x = nx' x) \<Longrightarrow> fifo nx h t xs = fifo nx' h t xs"
  using chain_cong [of xs nx nx' h] by (simp add: fifo_def)

lemma fifo_distinct: "fifo nx h t xs \<Longrightarrow> distinct xs"
  by (auto simp: fifo_def dest: chain_distinct)

lemma fifo_unique: "fifo nx h t xs \<Longrightarrow> fifo nx h t ys \<Longrightarrow> xs = ys"
  by (auto simp: fifo_def dest: chain_unique)

lemma fifo_single [simp]: "fifo nx h t [a] \<longleftrightarrow> h = a \<and> t = a \<and> a \<noteq> NULL \<and> nx a = NULL"
  by (auto simp: fifo_def)

lemma fifo_push:
  assumes "fifo nx h t xs" and "t \<noteq> NULL" and "a \<noteq> NULL" and "a \<notin> set xs"
  shows "fifo ((nx(t := a))(a := NULL)) h a (xs @ [a])"
  using assms chain_snoc [of nx h xs a] by (auto simp: fifo_def)

lemma fifo_pop: "fifo nx h t (x # xs) \<Longrightarrow> h = x \<and> fifo nx (nx x) (if nx x = NULL then NULL else t) xs"
  by (auto simp: fifo_def)

lemma fifo_front: "fifo nx h t (x # xs) \<Longrightarrow> h = x"
  by (simp add: fifo_def)

text \<open>
  The search loop of the kernel's queues: walk to the record whose successor is \<open>y\<close>. The walk
  is a partial function because it does not end on a cyclic list; the null result means that the
  end of the list was reached.
\<close>

partial_function (option) find_prev :: "(ptr \<Rightarrow> ptr) \<Rightarrow> ptr \<Rightarrow> ptr \<Rightarrow> ptr option" where
  "find_prev nx y t =
     (if nx t = NULL then Some NULL
      else if nx t = y then Some t
      else find_prev nx y (nx t))"

lemma find_prev_absent: "chain nx p (x # xs) \<Longrightarrow> y \<notin> set xs \<Longrightarrow> find_prev nx y p = Some NULL"
proof (induction xs arbitrary: p x)
  case Nil
  then show ?case by (subst find_prev.simps) simp
next
  case (Cons z xs)
  then have "find_prev nx y (nx p) = Some NULL" by auto
  with Cons.prems show ?case by (subst find_prev.simps) auto
qed

lemma find_prev_found: "chain nx p (us @ a # y # vs) \<Longrightarrow> find_prev nx y p = Some a"
proof (induction us arbitrary: p)
  case Nil
  then show ?case by (subst find_prev.simps) simp
next
  case (Cons u us)
  then have rest: "chain nx (nx p) (us @ a # y # vs)" and p: "p = u" by auto
  from rest have "nx p \<noteq> NULL" by (cases us) auto
  moreover have "nx p \<noteq> y"
    using rest chain_distinct [OF rest] by (cases us) auto
  ultimately show ?case
    using Cons.IH [OF rest] by (subst find_prev.simps) simp
qed

lemma chain_unlink:
  assumes "chain nx p (us @ a # y # vs)"
  shows "chain (nx(a := nx y)) p (us @ a # vs)"
proof -
  from assms have d: "distinct (us @ a # y # vs)" by (rule chain_distinct)
  then have "a \<notin> set us" and "a \<notin> set vs" by auto
  with assms show ?thesis by (auto simp: chain_append)
qed

lemma fifo_unlink:
  assumes "fifo nx h t (us @ a # y # vs)"
  shows "fifo (nx(a := nx y)) h (if t = y then a else t) (us @ a # vs)"
proof -
  from assms have "distinct (us @ a # y # vs)" by (rule fifo_distinct)
  then have "last vs \<noteq> y" if "vs \<noteq> []" using that last_in_set by auto
  with assms chain_unlink [of nx h us a y vs] show ?thesis
    by (auto simp: fifo_def)
qed

lemma fifo_unlink_front:
  assumes "fifo nx h t (y # vs)"
  shows "fifo nx (nx y) (if nx y = NULL then NULL else t) vs"
  using fifo_pop [OF assms] by simp

text \<open>Every member of a list but its first has a predecessor in it.\<close>

lemma split_at_pred: "y \<in> set xs \<Longrightarrow> y \<noteq> hd xs \<Longrightarrow> \<exists>us a vs. xs = us @ a # y # vs"
proof -
  assume "y \<in> set xs" and "y \<noteq> hd xs"
  then obtain us vs where xs: "xs = us @ y # vs" by (meson split_list)
  with \<open>y \<noteq> hd xs\<close> have "us \<noteq> []" by auto
  then have "us = butlast us @ [last us]" by simp
  with xs show ?thesis by (metis append_Cons append_Nil append_assoc)
qed

end
