(* ===== verification/Machine.thy ===== *)
theory Machine
  imports Prelude
begin

text \<open>
  The hardware under the kernel (\<open>src/kernel/cpu.s\<close>, \<open>cpu.h\<close>, \<open>ports.h\<close>): physical memory, the
  control registers that the C code reads and writes, the translation of virtual addresses by the
  memory management unit, and the I/O ports.

  Physical memory is indexed by frame number and by word within the frame. Translation walks the
  tables from CR3 on every access: a translation is never cached, so the flushes of the TLB are
  no-ops here. The kernel runs in ring 0 with CR0.WP clear (\<open>boot.s\<close> sets only the paging bit),
  so of the bits of an entry only the present bit decides an access of the kernel.
\<close>

record machine =
  pmem :: "20 word \<Rightarrow> 10 word \<Rightarrow> u32"
  cr2 :: u32
  cr3 :: u32
  out_log :: "(u16 \<times> u8) list"
  in_ports :: "u16 \<Rightarrow> nat \<Rightarrow> u8"
  in_pos :: "u16 \<Rightarrow> nat"

section \<open>Ports\<close>

text \<open>Writes to ports are recorded in order; the values a device supplies are a stream per port.\<close>

definition outb :: "u16 \<Rightarrow> u8 \<Rightarrow> 'a machine_scheme \<Rightarrow> 'a machine_scheme" where
  "outb port v s = s\<lparr>out_log := out_log s @ [(port, v)]\<rparr>"

definition inb :: "u16 \<Rightarrow> 'a machine_scheme \<Rightarrow> u8 \<times> 'a machine_scheme" where
  "inb port s = (in_ports s port (in_pos s port), s\<lparr>in_pos := (in_pos s)(port := Suc (in_pos s port))\<rparr>)"

section \<open>Control registers and the TLB\<close>

definition cpu_get_cr2 :: "'a machine_scheme \<Rightarrow> u32" where
  "cpu_get_cr2 s = cr2 s"

definition cpu_set_cr3 :: "u32 \<Rightarrow> 'a machine_scheme \<Rightarrow> 'a machine_scheme" where
  "cpu_set_cr3 v s = s\<lparr>cr3 := v\<rparr>"

definition cpu_flush_tlb_full :: "'a machine_scheme \<Rightarrow> 'a machine_scheme" where
  "cpu_flush_tlb_full s = s\<lparr>cr3 := cr3 s\<rparr>"

definition cpu_flush_tlb_part :: "u32 \<Rightarrow> 'a machine_scheme \<Rightarrow> 'a machine_scheme" where
  "cpu_flush_tlb_part page s = s"

lemma cpu_flush_tlb_full_id [simp]: "cpu_flush_tlb_full s = s"
  by (simp add: cpu_flush_tlb_full_def)

lemma cpu_flush_tlb_part_id [simp]: "cpu_flush_tlb_part page s = s"
  by (simp add: cpu_flush_tlb_part_def)

section \<open>Virtual memory\<close>

definition pde_of :: "'a machine_scheme \<Rightarrow> u32 \<Rightarrow> u32" where
  "pde_of s va = pmem s (frame_of (cr3 s)) (pdx va)"

definition pte_of :: "'a machine_scheme \<Rightarrow> u32 \<Rightarrow> u32" where
  "pte_of s va = pmem s (frame_of (pde_of s va)) (ptx va)"

definition mmu_walk :: "'a machine_scheme \<Rightarrow> u32 \<Rightarrow> (20 word \<times> 10 word) outcome" where
  "mmu_walk s va =
     (if pde_of s va AND 1 = 0 then Stop (PageFault va)
      else if pte_of s va AND 1 = 0 then Stop (PageFault va)
      else Ok (frame_of (pte_of s va), widx va))"

definition pmem_upd :: "20 word \<Rightarrow> 10 word \<Rightarrow> u32 \<Rightarrow> 'a machine_scheme \<Rightarrow> 'a machine_scheme" where
  "pmem_upd f i v s = s\<lparr>pmem := (pmem s)(f := (pmem s f)(i := v))\<rparr>"

text \<open>Aligned 32-bit accesses.\<close>

definition vread :: "u32 \<Rightarrow> 'a machine_scheme \<Rightarrow> u32 outcome" where
  "vread va s = and_then (mmu_walk s va) (\<lambda>(f, i). Ok (pmem s f i))"

definition vwrite :: "u32 \<Rightarrow> u32 \<Rightarrow> 'a machine_scheme \<Rightarrow> 'a machine_scheme outcome" where
  "vwrite va v s = and_then (mmu_walk s va) (\<lambda>(f, i). Ok (pmem_upd f i v s))"

text \<open>Byte accesses: byte \<open>k\<close> of a word is its bits \<open>8 k\<close> to \<open>8 k + 7\<close> (little endian).\<close>

definition byte_lane :: "u32 \<Rightarrow> nat" where
  "byte_lane va = 8 * (unat va mod 4)"

definition get_lane :: "nat \<Rightarrow> u32 \<Rightarrow> u8" where
  "get_lane k w = ucast (drop_bit k w)"

definition set_lane :: "nat \<Rightarrow> u8 \<Rightarrow> u32 \<Rightarrow> u32" where
  "set_lane k b w = (w AND NOT (push_bit k (mask 8))) OR push_bit k (ucast b)"

definition vread8 :: "u32 \<Rightarrow> 'a machine_scheme \<Rightarrow> u8 outcome" where
  "vread8 va s = and_then (mmu_walk s va) (\<lambda>(f, i). Ok (get_lane (byte_lane va) (pmem s f i)))"

definition vwrite8 :: "u32 \<Rightarrow> u8 \<Rightarrow> 'a machine_scheme \<Rightarrow> 'a machine_scheme outcome" where
  "vwrite8 va b s =
     and_then (mmu_walk s va) (\<lambda>(f, i). Ok (pmem_upd f i (set_lane (byte_lane va) b (pmem s f i)) s))"

text \<open>
  Accesses at any alignment, byte by byte: a run of bytes, and a 32-bit word as four bytes from
  the least significant one on.
\<close>

primrec load_bytes :: "u32 \<Rightarrow> nat \<Rightarrow> 'a machine_scheme \<Rightarrow> u8 list outcome" where
  "load_bytes p 0 s = Ok []"
| "load_bytes p (Suc n) s =
     and_then (vread8 p s) (\<lambda>b. and_then (load_bytes (p + 1) n s) (\<lambda>bs. Ok (b # bs)))"

primrec store_bytes :: "u32 \<Rightarrow> u8 list \<Rightarrow> 'a machine_scheme \<Rightarrow> 'a machine_scheme outcome" where
  "store_bytes p [] s = Ok s"
| "store_bytes p (b # bs) s = and_then (vwrite8 p b s) (store_bytes (p + 1) bs)"

definition word_bytes :: "u32 \<Rightarrow> u8 list" where
  "word_bytes w = [get_lane 0 w, get_lane 8 w, get_lane 16 w, get_lane 24 w]"

definition bytes_word :: "u8 list \<Rightarrow> u32" where
  "bytes_word bs = set_lane 24 (bs ! 3) (set_lane 16 (bs ! 2) (set_lane 8 (bs ! 1) (set_lane 0 (bs ! 0) 0)))"

definition load32 :: "u32 \<Rightarrow> 'a machine_scheme \<Rightarrow> u32 outcome" where
  "load32 p s = and_then (load_bytes p 4 s) (\<lambda>bs. Ok (bytes_word bs))"

definition load16 :: "u32 \<Rightarrow> 'a machine_scheme \<Rightarrow> u16 outcome" where
  "load16 p s = and_then (load_bytes p 2 s) (\<lambda>bs. Ok (ucast (bs ! 0) OR push_bit 8 (ucast (bs ! 1))))"

definition store32 :: "u32 \<Rightarrow> u32 \<Rightarrow> 'a machine_scheme \<Rightarrow> 'a machine_scheme outcome" where
  "store32 p w s = store_bytes p (word_bytes w) s"

lemma pmem_upd_pmem [simp]: "pmem (pmem_upd f i v s) = (pmem s)(f := (pmem s f)(i := v))"
  by (simp add: pmem_upd_def)

lemma pmem_upd_cr3 [simp]: "cr3 (pmem_upd f i v s) = cr3 s"
  by (simp add: pmem_upd_def)

lemma byte_lane_cases: "byte_lane va = 0 \<or> byte_lane va = 8 \<or> byte_lane va = 16 \<or> byte_lane va = 24"
proof -
  have "unat va mod 4 = 0 \<or> unat va mod 4 = 1 \<or> unat va mod 4 = 2 \<or> unat va mod 4 = 3" by arith
  then show ?thesis by (auto simp: byte_lane_def)
qed

lemma bit_u8_beyond: "bit (b :: u8) n \<Longrightarrow> n < 8"
  by (drule bit_imp_le_length) simp

lemma bit_set_lane:
  "bit (set_lane k b w) n \<longleftrightarrow> n < 32 \<and> (if k \<le> n \<and> n < k + 8 then bit b (n - k) else bit w n)"
  by (auto simp: set_lane_def bit_simps simp del: mask_numeral dest: bit_u8_beyond bit_imp_le_length)

lemma bit_get_lane: "bit (get_lane k w) n \<longleftrightarrow> n < 8 \<and> bit w (k + n)"
  by (auto simp: get_lane_def bit_simps)

lemma byte_lane_bound: "byte_lane va + 8 \<le> 32"
  using byte_lane_cases [of va] by auto

lemma get_set_lane [simp]: "get_lane (byte_lane va) (set_lane (byte_lane va) b w) = b"
  using byte_lane_bound [of va]
  by (intro bit_word_eqI) (simp add: bit_get_lane bit_set_lane)

lemma get_set_lane_other:
  assumes "byte_lane va \<noteq> byte_lane vb"
  shows "get_lane (byte_lane va) (set_lane (byte_lane vb) b w) = get_lane (byte_lane va) w"
proof (rule bit_word_eqI)
  fix n assume n: "n < LENGTH(8)"
  have "\<not> (byte_lane vb \<le> byte_lane va + n \<and> byte_lane va + n < byte_lane vb + 8)"
    using n byte_lane_cases [of va] byte_lane_cases [of vb] assms by auto
  then show "bit (get_lane (byte_lane va) (set_lane (byte_lane vb) b w)) n = bit (get_lane (byte_lane va) w) n"
    using n byte_lane_bound [of va] by (auto simp: bit_get_lane bit_set_lane)
qed

lemma set_lane_all: "set_lane 24 0 (set_lane 16 0 (set_lane 8 0 (set_lane 0 0 w))) = 0"
  by (rule bit_word_eqI) (auto simp: bit_set_lane)

text \<open>Stores change physical memory and nothing else.\<close>

lemma vwrite8_only: "vwrite8 p b s = Ok s' \<Longrightarrow> \<exists>m. s' = s\<lparr>pmem := m\<rparr>"
  by (auto simp: vwrite8_def pmem_upd_def outcome_simps)

lemma vwrite_only: "vwrite p v s = Ok s' \<Longrightarrow> \<exists>m. s' = s\<lparr>pmem := m\<rparr>"
  by (auto simp: vwrite_def pmem_upd_def outcome_simps)

lemma store_bytes_only: "store_bytes p bs s = Ok s' \<Longrightarrow> \<exists>m. s' = s\<lparr>pmem := m\<rparr>"
proof (induction bs arbitrary: p s)
  case Nil
  then show ?case by (auto intro: exI [of _ "pmem s"])
next
  case (Cons b bs)
  then show ?case by (fastforce simp: outcome_simps dest: vwrite8_only)
qed

end
