(* ===== verification/Debug.thy ===== *)
theory Debug
  imports Machine
begin

text \<open>
  The kernel's debugging output (\<open>src/kernel/debug.c\<close>): number formatting, the small
  \<open>printf\<close>, and the serial port. The lemmas show that \<open>__itoa\<close> writes the usual positional
  notation, most significant digit first, and that \<open>debug_printf\<close> sends the formatted text.
\<close>

section \<open>Number formatting\<close>

text \<open>The digit string \<open>d\<close> and the loop that fills the buffer least significant digit first.\<close>

definition itoa_digit :: "nat \<Rightarrow> char" where
  "itoa_digit k = ''0123456789ABCDEF'' ! k"

fun itoa_loop :: "nat \<Rightarrow> nat \<Rightarrow> string" where
  "itoa_loop n base =
     (if n = 0 \<or> base < 2 then [] else itoa_digit (n mod base) # itoa_loop (n div base) base)"

declare itoa_loop.simps [simp del]

text \<open>
  The second loop reverses the buffer in place: step \<open>i\<close> exchanges the characters at
  \<open>size - i - 1\<close> and \<open>i\<close>, for \<open>i < size / 2\<close>.
\<close>

function itoa_reverse :: "nat \<Rightarrow> string \<Rightarrow> string" where
  "itoa_reverse i buf =
     (if i < length buf div 2
      then itoa_reverse (Suc i)
             (buf[length buf - i - 1 := buf ! i, i := buf ! (length buf - i - 1)])
      else buf)"
  by pat_completeness auto
termination
  by (relation "measure (\<lambda>(i, buf). length buf - i)") auto

declare itoa_reverse.simps [simp del]

text \<open>
  \<open>__itoa\<close>: base 0 divides by zero, and in base 1 the loop does not make the number smaller, so
  that it runs off the buffer.
\<close>

definition itoa :: "u32 \<Rightarrow> u32 \<Rightarrow> string outcome" where
  "itoa n base =
     (if n = 0 then Ok ''0''
      else if base > 16 then Ok []
      else if base = 0 then Stop Undefined
      else if base = 1 then Stop OutOfBounds
      else Ok (itoa_reverse 0 (itoa_loop (unat n) (unat base))))"

section \<open>Serial output\<close>

text \<open>\<open>debug_char\<close> polls the line status register until the transmitter is empty.\<close>

partial_function (option) uart_wait :: "'a machine_scheme \<Rightarrow> 'a machine_scheme option" where
  "uart_wait s =
     (let (v, s') = inb 0x3FD s in if v AND 0x20 \<noteq> 0 then Some s' else uart_wait s')"

definition debug_putc :: "char \<Rightarrow> 'a machine_scheme \<Rightarrow> 'a machine_scheme outcome" where
  "debug_putc c s =
     (case uart_wait s of None \<Rightarrow> Stop Diverge | Some s' \<Rightarrow> Ok (outb 0x3F8 (of_char c) s'))"

definition newline :: char where
  "newline = char_of (10 :: nat)"

definition debug_char :: "char \<Rightarrow> 'a machine_scheme \<Rightarrow> 'a machine_scheme outcome" where
  "debug_char c s =
     and_then (debug_putc c s)
       (\<lambda>s. if c = newline then debug_putc (char_of (13 :: nat)) s else Ok s)"

fun debug_string :: "string \<Rightarrow> 'a machine_scheme \<Rightarrow> 'a machine_scheme outcome" where
  "debug_string [] s = Ok s"
| "debug_string (c # cs) s = and_then (debug_char c s) (debug_string cs)"

definition debug_init :: "'a machine_scheme \<Rightarrow> 'a machine_scheme" where
  "debug_init s =
     outb 0x3FC 0x0B (outb 0x3FA 0xC7 (outb 0x3FB 0x03 (outb 0x3F9 0x00
       (outb 0x3F8 0x03 (outb 0x3FB 0x80 (outb 0x3F9 0x00 s))))))"

text \<open>The variable arguments: integers, and strings of which \<open>None\<close> is the null pointer.\<close>

datatype va_arg = VInt u32 | VStr "string option"

text \<open>
  \<open>debug_printf\<close>: plain characters are collected in \<open>fmtbuffer\<close>, which has room for 100
  characters with the terminator, and written out before each directive. An unknown directive is
  skipped; a percent sign at the end makes the loop step over the terminator.
\<close>

fun printf_loop :: "string \<Rightarrow> va_arg list \<Rightarrow> string \<Rightarrow> 'a machine_scheme \<Rightarrow> 'a machine_scheme outcome" where
  "printf_loop [] ap fmtbuffer s =
     (if length fmtbuffer < 100 then debug_string fmtbuffer s else Stop OutOfBounds)"
| "printf_loop (f # fs) ap fmtbuffer s =
     (if f = CHR ''%'' then
        if length fmtbuffer \<ge> 100 then Stop OutOfBounds
        else and_then (debug_string fmtbuffer s) (\<lambda>s.
          case fs of
            [] \<Rightarrow> Stop OutOfBounds
          | d # rest \<Rightarrow>
              if d = CHR ''x'' \<or> d = CHR ''X'' then
                (case ap of
                   VInt n # ap' \<Rightarrow> and_then (itoa n 16) (\<lambda>str. and_then (debug_string str s) (printf_loop rest ap' []))
                 | _ \<Rightarrow> Stop Undefined)
              else if d = CHR ''d'' \<or> d = CHR ''i'' then
                (case ap of
                   VInt n # ap' \<Rightarrow> and_then (itoa n 10) (\<lambda>str. and_then (debug_string str s) (printf_loop rest ap' []))
                 | _ \<Rightarrow> Stop Undefined)
              else if d = CHR ''s'' then
                (case ap of
                   VStr (Some str) # ap' \<Rightarrow> and_then (debug_string str s) (printf_loop rest ap' [])
                 | VStr None # ap' \<Rightarrow> and_then (debug_string ''(null)'' s) (printf_loop rest ap' [])
                 | _ \<Rightarrow> Stop Undefined)
              else if d = CHR ''c'' then
                (case ap of
                   VInt n # ap' \<Rightarrow> and_then (debug_char (char_of (unat n)) s) (printf_loop rest ap' [])
                 | _ \<Rightarrow> Stop Undefined)
              else if d = CHR ''%'' then and_then (debug_char CHR ''%'' s) (printf_loop rest ap [])
              else printf_loop rest ap [] s)
      else if length fmtbuffer \<ge> 100 then Stop OutOfBounds
      else printf_loop fs ap (fmtbuffer @ [f]) s)"

definition debug_printf :: "string \<Rightarrow> va_arg list \<Rightarrow> 'a machine_scheme \<Rightarrow> 'a machine_scheme outcome" where
  "debug_printf format ap s = printf_loop format ap [] s"

text \<open>\<open>debug_panic\<close> prints its message and halts the processor: it never returns.\<close>

definition debug_panic :: "string \<Rightarrow> 'a machine_scheme \<Rightarrow> 'b outcome" where
  "debug_panic message s =
     and_then (debug_printf (''Kernel panic: %s'' @ [newline]) [VStr (Some message)] s)
       (\<lambda>_. Stop (Panic message))"

section \<open>Positional notation\<close>

text \<open>The value of a digit, and of a string of digits with the most significant one first.\<close>

definition digit_value :: "char \<Rightarrow> nat" where
  "digit_value c = (let k = of_char c in if k < 58 then k - 48 else k - 55)"

definition string_value :: "nat \<Rightarrow> string \<Rightarrow> nat" where
  "string_value base str = foldl (\<lambda>v c. base * v + digit_value c) 0 str"

lemma string_value_Nil [simp]: "string_value base [] = 0"
  by (simp add: string_value_def)

lemma string_value_snoc [simp]: "string_value base (str @ [c]) = base * string_value base str + digit_value c"
  by (simp add: string_value_def)

lemma digit_value_itoa [simp]: "k < 16 \<Longrightarrow> digit_value (itoa_digit k) = k"
  by (auto simp: less_Suc_eq eval_nat_numeral itoa_digit_def digit_value_def)

lemma itoa_loop_unfold:
  "2 \<le> base \<Longrightarrow> itoa_loop n base = (if n = 0 then [] else itoa_digit (n mod base) # itoa_loop (n div base) base)"
  by (subst itoa_loop.simps) simp

lemma itoa_loop_value: "2 \<le> base \<Longrightarrow> base \<le> 16 \<Longrightarrow> string_value base (rev (itoa_loop n base)) = n"
proof (induction n base rule: itoa_loop.induct)
  case (1 n base)
  then show ?case
    using mod_less_divisor [of base n] by (subst itoa_loop_unfold) (simp_all add: less_le_trans [of _ base 16])
qed

text \<open>A number takes as many digits as it has places, so the first digit is not zero.\<close>

lemma itoa_loop_length:
  assumes "2 \<le> base" and "0 < n"
  shows "itoa_loop n base \<noteq> []" and "base ^ (length (itoa_loop n base) - 1) \<le> n" and "n < base ^ length (itoa_loop n base)"
proof -
  have "itoa_loop n base \<noteq> [] \<and> base ^ (length (itoa_loop n base) - 1) \<le> n \<and> n < base ^ length (itoa_loop n base)"
    using assms
  proof (induction n base rule: itoa_loop.induct)
    case (1 n base)
    let ?q = "n div base"
    have u: "itoa_loop n base = itoa_digit (n mod base) # itoa_loop ?q base" using 1 by (subst itoa_loop_unfold) auto
    show ?case
    proof (cases "?q = 0")
      case True
      then have "n < base" using 1 by (simp add: div_eq_0_iff)
      then show ?thesis using 1 True u by (simp add: itoa_loop_unfold [of base 0])
    next
      case False
      with 1 have IH: "itoa_loop ?q base \<noteq> []" "base ^ (length (itoa_loop ?q base) - 1) \<le> ?q" "?q < base ^ length (itoa_loop ?q base)"
        by auto
      then obtain k where k: "length (itoa_loop ?q base) = Suc k" by (cases "itoa_loop ?q base") auto
      have "base ^ Suc k \<le> base * ?q" using IH(2) k by simp
      also have "\<dots> \<le> n" by simp
      finally have "base ^ Suc k \<le> n" .
      moreover have "n < base * base ^ Suc k"
        using IH(3) k "1.prems"(1) by (simp add: div_less_iff_less_mult mult.commute)
      ultimately show ?thesis using u k by simp
    qed
  qed
  then show "itoa_loop n base \<noteq> []" "base ^ (length (itoa_loop n base) - 1) \<le> n" "n < base ^ length (itoa_loop n base)"
    by auto
qed

text \<open>The exchanges of the second loop reverse the buffer.\<close>

lemma itoa_reverse_nth:
  "i \<le> length buf \<Longrightarrow> length (itoa_reverse i buf) = length buf \<and>
     (\<forall>j < length buf. itoa_reverse i buf ! j = (if i \<le> j \<and> j < length buf - i then buf ! (length buf - 1 - j) else buf ! j))"
proof (induction i buf rule: itoa_reverse.induct)
  case (1 i buf)
  let ?n = "length buf" and ?b = "buf[length buf - i - 1 := buf ! i, i := buf ! (length buf - i - 1)]"
  show ?case
  proof (cases "i < ?n div 2")
    case True
    then have r: "itoa_reverse i buf = itoa_reverse (Suc i) ?b" by (subst itoa_reverse.simps) simp
    have IH: "length (itoa_reverse (Suc i) ?b) = ?n"
      "\<And>j. j < ?n \<Longrightarrow> itoa_reverse (Suc i) ?b ! j =
        (if Suc i \<le> j \<and> j < ?n - Suc i then ?b ! (?n - 1 - j) else ?b ! j)"
      using "1.IH" [OF True] True by auto
    show ?thesis
    proof (intro conjI allI impI)
      fix j assume j: "j < ?n"
      consider "j < i" | "j = i" | "i < j \<and> j < ?n - Suc i" | "j = ?n - Suc i" | "?n - Suc i < j" by linarith
      then show "itoa_reverse i buf ! j = (if i \<le> j \<and> j < ?n - i then buf ! (?n - 1 - j) else buf ! j)"
        unfolding r IH(2) [OF j] using True j by cases (auto simp: nth_list_update)
    qed (use IH r in simp)
  next
    case False
    then have "itoa_reverse i buf = buf" by (subst itoa_reverse.simps) simp
    moreover have "?n - 1 - j = j" if "i \<le> j" "j < ?n - i" for j
      using that False by linarith
    ultimately show ?thesis by auto
  qed
qed

lemma itoa_reverse_rev: "itoa_reverse 0 buf = rev buf"
  using itoa_reverse_nth [of 0 buf] by (intro nth_equalityI) (auto simp: rev_nth)

lemma itoa_digits:
  assumes "2 \<le> base" and "base \<le> 16" and "n \<noteq> 0"
  shows "itoa n base = Ok (rev (itoa_loop (unat n) (unat base)))"
proof -
  have "2 \<le> unat base" "unat base \<le> 16" using assms by (simp_all add: word_le_nat_alt)
  then have "\<not> base > 16" "base \<noteq> 0" "base \<noteq> 1" by (auto simp: word_less_nat_alt)
  then show ?thesis using assms(3) by (simp add: itoa_def itoa_reverse_rev)
qed

text \<open>
  C38: \<open>__itoa\<close> in the bases 2 to 16 writes the positional notation of the number: the string has the value of the
  number and no leading zero, and in the bases 10 and above it fits, with its terminator, into the buffer of
  13 characters that \<open>debug_printf\<close> passes.
\<close>

theorem itoa_positional:
  assumes "2 \<le> base" and "base \<le> 16"
  shows "\<exists>str. itoa n base = Ok str \<and> string_value (unat base) str = unat n \<and> str \<noteq> [] \<and>
    (n \<noteq> 0 \<longrightarrow> unat base ^ (length str - 1) \<le> unat n) \<and> (10 \<le> base \<longrightarrow> length str < 13)"
proof (cases "n = 0")
  case True
  then show ?thesis by (simp add: itoa_def string_value_def digit_value_def)
next
  case False
  let ?str = "rev (itoa_loop (unat n) (unat base))"
  have b: "2 \<le> unat base" "unat base \<le> 16" using assms by (simp_all add: word_le_nat_alt)
  have n: "0 < unat n" using False by (simp add: unat_gt_0)
  note len = itoa_loop_length [OF b(1) n]
  have "length ?str < 13" if "10 \<le> base"
  proof -
    have "10 \<le> unat base" using that by (simp add: word_le_nat_alt)
    then have "10 ^ (length ?str - 1) \<le> unat base ^ (length ?str - 1)" by (rule power_mono) simp
    also have "\<dots> \<le> unat n" using len(2) by simp
    also have "unat n < 10 ^ 10" using unat_less_u32 [of n] by simp
    finally have "length ?str - 1 < 10" by (rule power_less_imp_less_exp [rotated]) simp
    then show ?thesis by simp
  qed
  then show ?thesis
    using itoa_digits [OF assms False] itoa_loop_value [OF b, of "unat n"] len by simp
qed

theorem itoa_positional_witness:
  "\<exists>str. itoa 0x1234ABCD 16 = Ok str \<and> string_value 16 str = 0x1234ABCD \<and> length str < 13"
  using itoa_positional [of 16 "0x1234ABCD"] by auto

section \<open>What is sent to the serial port\<close>

text \<open>The transmitter becomes empty again and again.\<close>

definition uart_live :: "'a machine_scheme \<Rightarrow> bool" where
  "uart_live s \<longleftrightarrow> (\<forall>n. \<exists>k. in_ports s 0x3FD (n + k) AND 0x20 \<noteq> 0)"

text \<open>\<open>emits cs s s'\<close>: from \<open>s\<close> to \<open>s'\<close> the characters \<open>cs\<close> went out, and only ports were accessed.\<close>

definition emits :: "string \<Rightarrow> 'a machine_scheme \<Rightarrow> 'a machine_scheme \<Rightarrow> bool" where
  "emits cs s s' \<longleftrightarrow>
     (\<exists>f. s' = s\<lparr>out_log := out_log s @ map (\<lambda>c. (0x3F8, of_char c)) cs, in_pos := f\<rparr>)"

lemma emits_Nil [simp]: "emits [] s s"
  unfolding emits_def by (rule exI [of _ "in_pos s"]) simp

lemma emits_out_log: "emits cs s s' \<Longrightarrow> out_log s' = out_log s @ map (\<lambda>c. (0x3F8, of_char c)) cs"
  by (auto simp: emits_def)

lemma emits_trans: "emits cs s s' \<Longrightarrow> emits ds s' t \<Longrightarrow> emits (cs @ ds) s t"
  by (auto simp: emits_def)

lemma emits_live: "emits cs s s' \<Longrightarrow> uart_live s' = uart_live s"
  by (auto simp: emits_def uart_live_def)

lemma uart_wait_only:
  assumes "uart_wait s = Some s'"
  shows "emits [] s s'"
proof (rule uart_wait.raw_induct [OF _ assms])
  fix w and s s' :: "'a machine_scheme"
  assume IH: "\<And>s s'. w s = Some s' \<Longrightarrow> emits [] s s'"
    and step: "(let (v, s') = inb 0x3FD s in if v AND 0x20 \<noteq> 0 then Some s' else w s') = Some s'"
  let ?s = "s\<lparr>in_pos := (in_pos s)(0x3FD := Suc (in_pos s 0x3FD))\<rparr>"
  have e: "emits [] s ?s" unfolding emits_def by (rule exI [of _ "(in_pos s)(0x3FD := Suc (in_pos s 0x3FD))"]) simp
  have r: "(if in_ports s 0x3FD (in_pos s 0x3FD) AND 0x20 \<noteq> 0 then Some ?s else w ?s) = Some s'"
    using step by (simp add: inb_def)
  show "emits [] s s'"
  proof (cases "in_ports s 0x3FD (in_pos s 0x3FD) AND 0x20 \<noteq> 0")
    case True
    then show ?thesis using r e by simp
  next
    case False
    then have "w ?s = Some s'" using r by simp
    then have "emits [] ?s s'" by (rule IH)
    with emits_trans [OF e] show ?thesis by simp
  qed
qed

lemma uart_wait_returns: "uart_live s \<Longrightarrow> \<exists>s'. uart_wait s = Some s'"
proof -
  have "\<exists>s'. uart_wait s = Some s'" if "in_ports s 0x3FD (in_pos s 0x3FD + k) AND 0x20 \<noteq> 0"
    for k and s :: "'a machine_scheme"
    using that
  proof (induction k arbitrary: s)
    case 0
    then show ?case by (subst uart_wait.simps) (simp add: inb_def)
  next
    case (Suc k)
    let ?s = "s\<lparr>in_pos := (in_pos s)(0x3FD := Suc (in_pos s 0x3FD))\<rparr>"
    have "\<exists>s'. uart_wait ?s = Some s'" by (rule Suc.IH) (use Suc.prems in simp)
    then show ?case by (subst uart_wait.simps) (simp add: inb_def)
  qed
  then show "uart_live s \<Longrightarrow> \<exists>s'. uart_wait s = Some s'" by (auto simp: uart_live_def)
qed

lemma debug_putc_emits: "debug_putc c s = Ok s' \<Longrightarrow> emits [c] s s'"
proof -
  assume "debug_putc c s = Ok s'"
  then obtain s1 where s1: "uart_wait s = Some s1" and s': "s' = outb 0x3F8 (of_char c) s1"
    by (auto simp: debug_putc_def split: option.splits)
  from uart_wait_only [OF s1] obtain f where "s1 = s\<lparr>in_pos := f\<rparr>" by (auto simp: emits_def)
  with s' have "s' = s\<lparr>out_log := out_log s @ map (\<lambda>c. (0x3F8, of_char c)) [c], in_pos := f\<rparr>"
    by (simp add: outb_def)
  then show ?thesis unfolding emits_def by blast
qed

lemma debug_putc_returns: "uart_live s \<Longrightarrow> \<exists>s'. debug_putc c s = Ok s'"
  using uart_wait_returns [of s] by (auto simp: debug_putc_def)

text \<open>A newline is followed by a carriage return.\<close>

definition serial :: "string \<Rightarrow> string" where
  "serial out = concat (map (\<lambda>c. if c = newline then [c, char_of (13 :: nat)] else [c]) out)"

lemma serial_simps [simp]:
  "serial [] = []" "serial (c # cs) = (if c = newline then [c, char_of (13 :: nat)] else [c]) @ serial cs"
  "serial (as @ bs) = serial as @ serial bs"
  by (simp_all add: serial_def)

lemma debug_char_emits: "debug_char c s = Ok s' \<Longrightarrow> emits (serial [c]) s s'"
  by (auto simp: debug_char_def outcome_simps dest!: debug_putc_emits dest: emits_trans split: if_splits)

lemma debug_char_returns: "uart_live s \<Longrightarrow> \<exists>s'. debug_char c s = Ok s'"
proof -
  assume a: "uart_live s"
  then obtain s1 where s1: "debug_putc c s = Ok s1" using debug_putc_returns by blast
  then have "uart_live s1" using a emits_live [OF debug_putc_emits] by blast
  then show ?thesis using s1 debug_putc_returns [of s1] by (simp add: debug_char_def)
qed

lemma debug_string_emits: "debug_string cs s = Ok s' \<Longrightarrow> emits (serial cs) s s'"
proof (induction cs arbitrary: s)
  case (Cons c cs)
  then obtain s1 where s1: "debug_char c s = Ok s1" "debug_string cs s1 = Ok s'" by (auto simp: outcome_simps)
  show ?case using emits_trans [OF debug_char_emits [OF s1(1)] Cons.IH [OF s1(2)]] by simp
qed simp

lemma debug_string_returns: "uart_live s \<Longrightarrow> \<exists>s'. debug_string cs s = Ok s'"
proof (induction cs arbitrary: s)
  case (Cons c cs)
  then obtain s1 where s1: "debug_char c s = Ok s1" using debug_char_returns by blast
  then have "uart_live s1" using Cons.prems emits_live [OF debug_char_emits] by blast
  then show ?case using s1 Cons.IH by simp
qed simp

text \<open>The text that a format describes; \<open>None\<close> where \<open>debug_printf\<close> has no defined behaviour.\<close>

fun printf_text :: "string \<Rightarrow> va_arg list \<Rightarrow> string option" where
  "printf_text [] ap = Some []"
| "printf_text (f # fs) ap =
     (if f = CHR ''%'' then
        (case fs of
           [] \<Rightarrow> None
         | d # rest \<Rightarrow>
             if d \<in> {CHR ''x'', CHR ''X'', CHR ''d'', CHR ''i''} then
               (case ap of
                  VInt n # ap' \<Rightarrow>
                    (case itoa n (if d \<in> {CHR ''x'', CHR ''X''} then 16 else 10) of
                       Ok str \<Rightarrow> map_option ((@) str) (printf_text rest ap') | Stop h \<Rightarrow> None)
                | _ \<Rightarrow> None)
             else if d = CHR ''s'' then
               (case ap of
                  VStr t # ap' \<Rightarrow> map_option ((@) (case t of None \<Rightarrow> ''(null)'' | Some str \<Rightarrow> str)) (printf_text rest ap')
                | _ \<Rightarrow> None)
             else if d = CHR ''c'' then
               (case ap of VInt n # ap' \<Rightarrow> map_option ((#) (char_of (unat n))) (printf_text rest ap') | _ \<Rightarrow> None)
             else if d = CHR ''%'' then map_option ((#) CHR ''%'') (printf_text rest ap)
             else printf_text rest ap)
      else map_option ((#) f) (printf_text fs ap))"

text \<open>Writing out the buffer and then one more piece.\<close>

lemma flush_then:
  assumes "uart_live s" and "\<And>s1. uart_live s1 \<Longrightarrow> \<exists>s'. k s1 = Ok s' \<and> emits (serial out) s1 s'"
  shows "\<exists>s'. and_then (debug_string buf s) k = Ok s' \<and> emits (serial (buf @ out)) s s'"
proof -
  obtain s1 where s1: "debug_string buf s = Ok s1" using debug_string_returns [OF assms(1)] by blast
  note e1 = debug_string_emits [OF s1]
  have "uart_live s1" using emits_live [OF e1] assms(1) by simp
  then obtain s' where "k s1 = Ok s'" "emits (serial out) s1 s'" using assms(2) by blast
  then show ?thesis using s1 emits_trans [OF e1] by auto
qed

lemma char_then:
  assumes "uart_live s" and "\<And>s1. uart_live s1 \<Longrightarrow> \<exists>s'. k s1 = Ok s' \<and> emits (serial out) s1 s'"
  shows "\<exists>s'. and_then (debug_char c s) k = Ok s' \<and> emits (serial (c # out)) s s'"
  using flush_then [of s k out "[c]", OF assms] by simp

lemma directive_emits:
  assumes shown: "printf_text (CHR ''%'' # d # rest) ap = Some out" and live: "uart_live (s :: 'a machine_scheme)" and room: "length buf < 100"
    and rest: "\<And>ap (s :: 'a machine_scheme) out. printf_text rest ap = Some out \<Longrightarrow> uart_live s \<Longrightarrow>
      \<exists>s'. printf_loop rest ap [] s = Ok s' \<and> emits (serial out) s s'"
  shows "\<exists>s'. printf_loop (CHR ''%'' # d # rest) ap buf s = Ok s' \<and> emits (serial (buf @ out)) s s'"
proof -
  consider (num) n ap' str out' where "d \<in> {CHR ''x'', CHR ''X'', CHR ''d'', CHR ''i''}" "ap = VInt n # ap'"
      "itoa n (if d \<in> {CHR ''x'', CHR ''X''} then 16 else 10) = Ok str" "printf_text rest ap' = Some out'" "out = str @ out'"
    | (str) t ap' out' where "d = CHR ''s''" "ap = VStr t # ap'" "printf_text rest ap' = Some out'"
      "out = (case t of None \<Rightarrow> ''(null)'' | Some str \<Rightarrow> str) @ out'"
    | (chr) n ap' out' where "d = CHR ''c''" "ap = VInt n # ap'" "printf_text rest ap' = Some out'" "out = char_of (unat n) # out'"
    | (pct) out' where "d = CHR ''%''" "printf_text rest ap = Some out'" "out = CHR ''%'' # out'"
    | (skip) "d \<notin> {CHR ''x'', CHR ''X'', CHR ''d'', CHR ''i'', CHR ''s'', CHR ''c'', CHR ''%''}" "printf_text rest ap = Some out"
    using shown by (auto split: if_splits list.splits va_arg.splits outcome.splits)
  then show ?thesis
  proof cases
    case num
    have eq: "printf_loop (CHR ''%'' # d # rest) ap buf s =
        and_then (debug_string buf s) (\<lambda>s. and_then (debug_string str s) (printf_loop rest ap' []))"
      using num(1-3) room by auto
    have more: "\<exists>s'. and_then (debug_string str s1) (printf_loop rest ap' []) = Ok s' \<and> emits (serial (str @ out')) s1 s'"
      if "uart_live s1" for s1 :: "'a machine_scheme" by (rule flush_then [OF that]) (rule rest [OF num(4)])
    show ?thesis unfolding eq num(5) by (rule flush_then [OF live more])
  next
    case str
    let ?str = "case t of None \<Rightarrow> ''(null)'' | Some str \<Rightarrow> str"
    have eq: "printf_loop (CHR ''%'' # d # rest) ap buf s =
        and_then (debug_string buf s) (\<lambda>s. and_then (debug_string ?str s) (printf_loop rest ap' []))"
      using str(1,2) room by (auto split: option.splits)
    have more: "\<exists>s'. and_then (debug_string ?str s1) (printf_loop rest ap' []) = Ok s' \<and> emits (serial (?str @ out')) s1 s'"
      if "uart_live s1" for s1 :: "'a machine_scheme" by (rule flush_then [OF that]) (rule rest [OF str(3)])
    show ?thesis unfolding eq str(4) by (rule flush_then [OF live more])
  next
    case chr
    have eq: "printf_loop (CHR ''%'' # d # rest) ap buf s =
        and_then (debug_string buf s) (\<lambda>s. and_then (debug_char (char_of (unat n)) s) (printf_loop rest ap' []))"
      using chr(1,2) room by simp
    have more: "\<exists>s'. and_then (debug_char (char_of (unat n)) s1) (printf_loop rest ap' []) = Ok s' \<and> emits (serial (char_of (unat n) # out')) s1 s'"
      if "uart_live s1" for s1 :: "'a machine_scheme" by (rule char_then [OF that]) (rule rest [OF chr(3)])
    show ?thesis unfolding eq chr(4) by (rule flush_then [OF live more])
  next
    case pct
    have eq: "printf_loop (CHR ''%'' # d # rest) ap buf s =
        and_then (debug_string buf s) (\<lambda>s. and_then (debug_char CHR ''%'' s) (printf_loop rest ap []))"
      using pct(1) room by simp
    have more: "\<exists>s'. and_then (debug_char CHR ''%'' s1) (printf_loop rest ap []) = Ok s' \<and> emits (serial (CHR ''%'' # out')) s1 s'"
      if "uart_live s1" for s1 :: "'a machine_scheme" by (rule char_then [OF that]) (rule rest [OF pct(2)])
    show ?thesis unfolding eq pct(3) by (rule flush_then [OF live more])
  next
    case skip
    have eq: "printf_loop (CHR ''%'' # d # rest) ap buf s = and_then (debug_string buf s) (printf_loop rest ap [])"
      using skip(1) room by auto
    show ?thesis unfolding eq by (rule flush_then [OF live]) (rule rest [OF skip(2)])
  qed
qed

lemma printf_loop_emits:
  assumes "printf_text fmt ap = Some out" and "uart_live s" and "length buf + length fmt < 100"
  shows "\<exists>s'. printf_loop fmt ap buf s = Ok s' \<and> emits (serial (buf @ out)) s s'"
  using assms
proof (induction "length fmt" arbitrary: fmt ap buf s out rule: less_induct)
  case less
  show ?case
  proof (cases fmt)
    case Nil
    then show ?thesis
      using less.prems debug_string_returns [of s buf] debug_string_emits [of buf s] by auto
  next
    case (Cons f fs)
    show ?thesis
    proof (cases "f = CHR ''%''")
      case False
      then obtain out' where t: "printf_text fs ap = Some out'" "out = f # out'" using less.prems(1) Cons by auto
      have "\<exists>s'. printf_loop fs ap (buf @ [f]) s = Ok s' \<and> emits (serial ((buf @ [f]) @ out')) s s'"
        using less.prems t(1) Cons by (intro less.hyps) auto
      then show ?thesis using False less.prems(3) t(2) Cons by simp
    next
      case True
      then obtain d rest where fs: "fs = d # rest" using less.prems(1) Cons by (cases fs) auto
      have R: "\<exists>s'. printf_loop rest ap [] s = Ok s' \<and> emits (serial out) s s'"
        if "printf_text rest ap = Some out" "uart_live s" for ap and s :: "'a machine_scheme" and out
        using less.hyps [of rest ap out s "[]"] that less.prems(3) Cons fs by simp
      have p: "printf_text (CHR ''%'' # d # rest) ap = Some out" "length buf < 100"
        using less.prems(1,3) Cons fs True by (simp_all only: list.size)
      show ?thesis unfolding Cons fs True by (rule directive_emits [OF p(1) less.prems(2) p(2) R])
    qed
  qed
qed

text \<open>
  C39: \<open>debug_printf\<close> sends exactly the formatted text to the serial port, with a carriage return after each newline, and
  does return: provided the format is shorter than its buffer, the arguments fit the format, and the transmitter
  becomes empty again and again. The text is that of the format read from left to right, without the buffering.
\<close>

theorem debug_printf_text:
  assumes "printf_text fmt ap = Some out" and "uart_live s" and "length fmt < 100"
  shows "\<exists>s'. debug_printf fmt ap s = Ok s' \<and>
    out_log s' = out_log s @ map (\<lambda>c. (0x3F8, of_char c)) (serial out)"
  using printf_loop_emits [OF assms(1,2), of "[]"] assms(3)
  by (auto simp: debug_printf_def emits_def)

theorem debug_printf_text_witness:
  "\<exists>s'. debug_printf (''n=%d'' @ [newline]) [VInt 42]
       \<lparr>pmem = (\<lambda>_ _. 0), cr2 = 0, cr3 = 0, out_log = [], in_ports = (\<lambda>_ n. if even n then 0 else 0x60), in_pos = (\<lambda>_. 0)\<rparr> = Ok s' \<and>
     out_log s' = map (\<lambda>c. (0x3F8, of_char c)) (''n=42'' @ [newline, char_of (13 :: nat)])"
proof -
  let ?s = "\<lparr>pmem = (\<lambda>_ _. 0), cr2 = 0, cr3 = 0, out_log = [], in_ports = (\<lambda>_ n. if even n then 0 else 0x60), in_pos = (\<lambda>_. 0)\<rparr> :: machine"
  have "itoa 42 10 = Ok ''42''" by (simp add: itoa_digits itoa_loop.simps itoa_digit_def)
  then have t: "printf_text (''n=%d'' @ [newline]) [VInt 42] = Some (''n=42'' @ [newline])"
    by (simp add: newline_def char_of_def)
  have "uart_live ?s"
  proof -
    have "\<exists>k. odd (n + k)" for n :: nat by (rule exI [of _ "Suc n"]) simp
    then show ?thesis by (auto simp: uart_live_def)
  qed
  then have "\<exists>s'. debug_printf (''n=%d'' @ [newline]) [VInt 42] ?s = Ok s' \<and>
    out_log s' = out_log ?s @ map (\<lambda>c. (0x3F8, of_char c)) (serial (''n=42'' @ [newline]))"
    by (rule debug_printf_text [OF t]) simp
  moreover have ser: "serial (''n=42'' @ [newline]) = ''n=42'' @ [newline, char_of (13 :: nat)]"
    by (simp add: serial_def newline_def char_of_def)
  ultimately show ?thesis unfolding ser by simp
qed

section \<open>Printing returns\<close>

lemma debug_printf_returns:
  "printf_text fmt ap = Some out \<Longrightarrow> uart_live s \<Longrightarrow> length fmt < 100 \<Longrightarrow>
   \<exists>s'. debug_printf fmt ap s = Ok s' \<and> emits (serial out) s s'"
  using printf_loop_emits [of fmt ap out s "[]"] by (simp add: debug_printf_def)

section \<open>What printing changes\<close>

text \<open>Whatever is printed, only ports are accessed.\<close>

definition ports_only :: "'a machine_scheme \<Rightarrow> 'a machine_scheme \<Rightarrow> bool" where
  "ports_only s s' \<longleftrightarrow> (\<exists>l f. s' = s\<lparr>out_log := l, in_pos := f\<rparr>)"

lemma emits_ports: "emits cs s s' \<Longrightarrow> ports_only s s'"
  by (auto simp: emits_def ports_only_def)

lemma ports_only_trans: "ports_only s s' \<Longrightarrow> ports_only s' t \<Longrightarrow> ports_only s t"
  unfolding ports_only_def by (elim exE, simp, blast)

lemma ports_only_refl: "ports_only s s"
  using emits_ports [OF emits_Nil] .

lemma ports_only_steps:
  "and_then (debug_string buf s) k = Ok s' \<Longrightarrow> (\<And>s1. k s1 = Ok s' \<Longrightarrow> ports_only s1 s') \<Longrightarrow> ports_only s s'"
  "and_then (debug_char c s) k = Ok s' \<Longrightarrow> (\<And>s1. k s1 = Ok s' \<Longrightarrow> ports_only s1 s') \<Longrightarrow> ports_only s s'"
  by (auto simp: and_then_eq_Ok dest!: debug_string_emits debug_char_emits emits_ports intro: ports_only_trans)

lemma printf_loop_ports: "printf_loop fmt ap buf s = Ok s' \<Longrightarrow> ports_only s s'"
proof (induction "length fmt" arbitrary: fmt ap buf s rule: less_induct)
  case less
  show ?case
  proof (cases fmt)
    case Nil
    then show ?thesis using less.prems by (auto split: if_splits dest: debug_string_emits emits_ports)
  next
    case (Cons f fs)
    show ?thesis
    proof (cases "f = CHR ''%''")
      case False
      then show ?thesis using less Cons by (auto split: if_splits)
    next
      case True
      have IH: "printf_loop r ap [] s = Ok s' \<Longrightarrow> ports_only s s'" if "fs = d # r" for d r ap and s :: "'a machine_scheme"
        using less.hyps [of r] that Cons by simp
      show ?thesis
        using less.prems unfolding Cons True
        by (simp split: if_splits) (erule ports_only_steps,
          auto split: list.splits if_splits va_arg.splits option.splits simp: and_then_eq_Ok simp del: debug_string.simps
          dest!: IH debug_string_emits debug_char_emits emits_ports intro: ports_only_trans)
    qed
  qed
qed

lemma debug_printf_ports: "debug_printf fmt ap s = Ok s' \<Longrightarrow> ports_only s s'"
  unfolding debug_printf_def by (rule printf_loop_ports)

lemma debug_panic_stops: "debug_panic m s \<noteq> Ok r"
  by (simp add: debug_panic_def and_then_eq_Ok)

text \<open>With a serial port that works, a panic gets to its end.\<close>

lemma debug_panic_says:
  assumes "uart_live s"
  shows "debug_panic m s = Stop (Panic m)"
proof -
  have "printf_text (''Kernel panic: %s'' @ [newline]) [VStr (Some m)] = Some (''Kernel panic: '' @ m @ [newline])"
    by (simp add: newline_def char_of_def)
  then show ?thesis
    using debug_printf_returns [OF _ assms(1)] by (fastforce simp: debug_panic_def newline_def)
qed

end
