(* ===== verification/Frame.thy ===== *)
theory Frame
  imports Debug
begin

text \<open>
  The physical frame allocator (\<open>src/kernel/frame.c\<close>): a list of free frames, a hash table of the
  frames in use with their reference counts, and the emergency pool below the boot limit.

  The C structures are kept as they are: \<open>frame_struct\<close> records in a store indexed by their
  address, linked by \<open>next\<close> and \<open>prev\<close>. The abstract allocator \<open>(F, R)\<close> is a list of free frame
  numbers and a map of reference counts; every operation is shown to implement its abstract
  counterpart.
\<close>

abbreviation (input) PAGESZ :: u32 where
  "PAGESZ \<equiv> 0x1000"

abbreviation (input) KERNEL_ADDR_BASE :: u32 where
  "KERNEL_ADDR_BASE \<equiv> 0xF0000000"

abbreviation (input) KERNEL_ADDR_SIZE :: u32 where
  "KERNEL_ADDR_SIZE \<equiv> 0x10000000"

abbreviation (input) SYSTEM_ADDR_BASE :: u32 where
  "SYSTEM_ADDR_BASE \<equiv> 0xC0000000"

abbreviation (input) SYSTEM_ADDR_SIZE :: u32 where
  "SYSTEM_ADDR_SIZE \<equiv> 0x30000000"

abbreviation (input) KERNEL_BOOT_SIZE :: u32 where
  "KERNEL_BOOT_SIZE \<equiv> 0x800000"

record frame_struct =
  fs_next :: ptr
  fs_prev :: ptr
  fs_refc :: u32
  fs_addr :: u32

text \<open>\<open>kernel_end\<close> is the address of the linker symbol \<open>_end\<close>.\<close>

record frame_state = machine +
  frame_heap :: "ptr \<Rightarrow> frame_struct"
  out_of_memory :: bool
  frame_list :: ptr
  frame_hash :: "8 word \<Rightarrow> ptr"
  oom_pool :: u32
  kernel_end :: u32

definition fs_upd :: "ptr \<Rightarrow> (frame_struct \<Rightarrow> frame_struct) \<Rightarrow> 'a frame_state_scheme \<Rightarrow> 'a frame_state_scheme" where
  "fs_upd p g s = s\<lparr>frame_heap := (frame_heap s)(p := g (frame_heap s p))\<rparr>"

section \<open>Operations\<close>

partial_function (option) frame_find_loop :: "(ptr \<Rightarrow> frame_struct) \<Rightarrow> u32 \<Rightarrow> ptr \<Rightarrow> ptr option" where
  "frame_find_loop h a list =
     (if list = NULL then Some NULL
      else if fs_addr (h list) = a then Some list
      else frame_find_loop h a (fs_next (h list)))"

definition frame_find :: "u32 \<Rightarrow> 'a frame_state_scheme \<Rightarrow> ptr outcome" where
  "frame_find frame s =
     (case frame_find_loop (frame_heap s) (frame div PAGESZ) (frame_hash s (ucast (frame div PAGESZ))) of
        None \<Rightarrow> Stop Diverge
      | Some p \<Rightarrow> Ok p)"

definition frame_pull :: "ptr \<Rightarrow> 'a frame_state_scheme \<Rightarrow> 'a frame_state_scheme" where
  "frame_pull fs s =
     (let s = (if fs_prev (frame_heap s fs) \<noteq> NULL
               then fs_upd (fs_prev (frame_heap s fs)) (fs_next_update (\<lambda>_. fs_next (frame_heap s fs))) s
               else s\<lparr>frame_hash := (frame_hash s)(ucast (fs_addr (frame_heap s fs)) := fs_next (frame_heap s fs))\<rparr>)
      in if fs_next (frame_heap s fs) \<noteq> NULL
         then fs_upd (fs_next (frame_heap s fs)) (fs_prev_update (\<lambda>_. fs_prev (frame_heap s fs))) s
         else s)"

definition frame_free :: "u32 \<Rightarrow> 'a frame_state_scheme \<Rightarrow> 'a frame_state_scheme outcome" where
  "frame_free frame s =
     and_then (frame_find frame s) (\<lambda>fs.
       if fs = NULL then Ok s
       else if fs_refc (frame_heap s fs) = 1 then
         (let s = frame_pull fs s;
              s = fs_upd fs (fs_prev_update (\<lambda>_. NULL)) s;
              s = fs_upd fs (fs_next_update (\<lambda>_. frame_list s)) s;
              s = (if fs_next (frame_heap s fs) \<noteq> NULL
                   then fs_upd (fs_next (frame_heap s fs)) (fs_prev_update (\<lambda>_. fs)) s else s)
          in Ok (s\<lparr>frame_list := fs, out_of_memory := False\<rparr>))
       else Ok (fs_upd fs (fs_refc_update (\<lambda>n. n - 1)) s))"

text \<open>The recursive call of \<open>frame_new\<close> is made with \<open>out_of_memory\<close> set, so it recurs only once.\<close>

function frame_new :: "'a frame_state_scheme \<Rightarrow> (u32 \<times> 'a frame_state_scheme) outcome" where
  "frame_new s =
     (if out_of_memory s then
        (let s = s\<lparr>oom_pool := oom_pool s - PAGESZ\<rparr>
         in if oom_pool s \<le> kernel_end s - KERNEL_ADDR_BASE
            then debug_panic ''out of memory'' s
            else Ok (oom_pool s, s))
      else if frame_list s = NULL then frame_new (s\<lparr>out_of_memory := True\<rparr>)
      else
        (let fs = frame_list s;
             s = s\<lparr>frame_list := fs_next (frame_heap s fs)\<rparr>;
             s = (if frame_list s \<noteq> NULL then fs_upd fs (fs_prev_update (\<lambda>_. NULL)) s else s);
             s = fs_upd fs (fs_next_update (\<lambda>_. frame_hash s (ucast (fs_addr (frame_heap s fs))))) s;
             s = fs_upd fs (fs_prev_update (\<lambda>_. NULL)) s;
             s = (if fs_next (frame_heap s fs) \<noteq> NULL
                  then fs_upd (fs_next (frame_heap s fs)) (fs_prev_update (\<lambda>_. fs)) s else s);
             s = s\<lparr>frame_hash := (frame_hash s)(ucast (fs_addr (frame_heap s fs)) := fs)\<rparr>;
             s = fs_upd fs (fs_refc_update (\<lambda>_. 1)) s
         in Ok (fs_addr (frame_heap s fs) * PAGESZ, s)))"
  by pat_completeness auto
termination
  by (relation "measure (\<lambda>s. if out_of_memory s then 0 else 1)") auto

declare frame_new.simps [simp del]

definition frame_ref :: "u32 \<Rightarrow> 'a frame_state_scheme \<Rightarrow> 'a frame_state_scheme outcome" where
  "frame_ref frame s =
     and_then (frame_find frame s) (\<lambda>fs.
       if fs = NULL then Ok s else Ok (fs_upd fs (fs_refc_update (\<lambda>n. n + 1)) s))"

definition frame_refc :: "u32 \<Rightarrow> 'a frame_state_scheme \<Rightarrow> u32 outcome" where
  "frame_refc frame s =
     and_then (frame_find frame s) (\<lambda>fs.
       if fs \<noteq> NULL then Ok (fs_refc (frame_heap s fs)) else Ok 0)"

text \<open>
  \<open>frame_add\<close> without its allocation: it links the record that \<open>heap_alloc\<close> returned (the call
  itself is part of the boot code, which supplies the pointer).
\<close>

definition frame_link :: "ptr \<Rightarrow> u32 \<Rightarrow> 'a frame_state_scheme \<Rightarrow> 'a frame_state_scheme" where
  "frame_link fs frame s =
     (let s = fs_upd fs (fs_prev_update (\<lambda>_. NULL)) s;
          s = fs_upd fs (fs_refc_update (\<lambda>_. 0)) s;
          s = fs_upd fs (fs_addr_update (\<lambda>_. frame div PAGESZ)) s;
          s = fs_upd fs (fs_next_update (\<lambda>_. frame_list s)) s;
          s = s\<lparr>frame_list := fs\<rparr>;
          s = (if fs_next (frame_heap s fs) \<noteq> NULL
               then fs_upd (fs_next (frame_heap s fs)) (fs_prev_update (\<lambda>_. fs)) s else s)
      in s\<lparr>out_of_memory := False\<rparr>)"

section \<open>Well-formed allocator states\<close>

text \<open>
  \<open>dseg h p pr xs q\<close>: following \<open>next\<close> from \<open>p\<close> visits \<open>xs\<close> and arrives at \<open>q\<close>, and each record's
  \<open>prev\<close> points to the one before it, the first one's to \<open>pr\<close>.
\<close>

fun dseg :: "(ptr \<Rightarrow> frame_struct) \<Rightarrow> ptr \<Rightarrow> ptr \<Rightarrow> ptr list \<Rightarrow> ptr \<Rightarrow> bool" where
  "dseg h p pr [] q = (p = q)"
| "dseg h p pr (x # xs) q = (p = x \<and> x \<noteq> NULL \<and> fs_prev (h x) = pr \<and> dseg h (fs_next (h x)) x xs q)"

definition frame_wf :: "'a frame_state_scheme \<Rightarrow> ptr list \<Rightarrow> (8 word \<Rightarrow> ptr list) \<Rightarrow> bool" where
  "frame_wf s fl hl \<longleftrightarrow>
     chain (\<lambda>p. fs_next (frame_heap s p)) (frame_list s) fl \<and>
     (\<forall>b. dseg (frame_heap s) (frame_hash s b) NULL (hl b) NULL) \<and>
     (\<forall>b. \<forall>p \<in> set (hl b). ucast (fs_addr (frame_heap s p)) = b \<and> fs_refc (frame_heap s p) \<noteq> 0) \<and>
     (\<forall>b. set fl \<inter> set (hl b) = {}) \<and>
     inj_on (\<lambda>p. fs_addr (frame_heap s p)) (set fl \<union> (\<Union>b. set (hl b))) \<and>
     (\<forall>p \<in> set fl \<union> (\<Union>b. set (hl b)). unat (fs_addr (frame_heap s p)) < 1048576)"

definition refs_of :: "(ptr \<Rightarrow> frame_struct) \<Rightarrow> (8 word \<Rightarrow> ptr list) \<Rightarrow> u32 \<rightharpoonup> u32" where
  "refs_of h hl a =
     (case find (\<lambda>p. fs_addr (h p) = a) (hl (ucast a)) of
        None \<Rightarrow> None | Some p \<Rightarrow> Some (fs_refc (h p)))"

text \<open>The abstraction: free frame numbers in allocation order, and the counts of those in use.\<close>

definition frame_rel :: "'a frame_state_scheme \<Rightarrow> u32 list \<Rightarrow> (u32 \<rightharpoonup> u32) \<Rightarrow> bool" where
  "frame_rel s F R \<longleftrightarrow>
     (\<exists>fl hl. frame_wf s fl hl \<and> F = map (\<lambda>p. fs_addr (frame_heap s p)) fl \<and> R = refs_of (frame_heap s) hl)"

subsection \<open>Doubly linked segments\<close>

lemma dseg_chain: "dseg h p pr xs NULL \<Longrightarrow> chain (\<lambda>p. fs_next (h p)) p xs"
  by (induction xs arbitrary: p pr) auto

lemma dseg_distinct: "dseg h p pr xs NULL \<Longrightarrow> distinct xs"
  by (blast dest: dseg_chain chain_distinct)

lemma dseg_in_not_null: "dseg h p pr xs q \<Longrightarrow> x \<in> set xs \<Longrightarrow> x \<noteq> NULL"
  by (induction xs arbitrary: p pr) auto

lemma dseg_append: "dseg h p pr (us @ vs) q \<longleftrightarrow> (\<exists>r. dseg h p pr us r \<and> dseg h r (last (pr # us)) vs q)"
  by (induction us arbitrary: p pr) auto

lemma dseg_cong:
  "(\<And>x. x \<in> set xs \<Longrightarrow> fs_next (h x) = fs_next (h' x) \<and> fs_prev (h x) = fs_prev (h' x)) \<Longrightarrow>
     dseg h p pr xs q = dseg h' p pr xs q"
  by (induction xs arbitrary: p pr) auto

lemma dseg_upd_other [simp]: "a \<notin> set xs \<Longrightarrow> dseg (h(a := v)) p pr xs q = dseg h p pr xs q"
  by (rule dseg_cong) auto

lemma dseg_upd_refc [simp]: "dseg (h(a := fs_refc_update g (h a))) p pr xs q = dseg h p pr xs q"
  by (rule dseg_cong) auto

lemma dseg_new_prev:
  "dseg h p pr (x # xs) q \<Longrightarrow> x \<notin> set xs \<Longrightarrow> dseg (h(x := fs_prev_update (\<lambda>_. pr') (h x))) p pr' (x # xs) q"
  by simp

subsection \<open>Searching\<close>

lemma frame_find_loop_chain:
  "chain (\<lambda>p. fs_next (h p)) p xs \<Longrightarrow>
     frame_find_loop h a p = Some (case find (\<lambda>x. fs_addr (h x) = a) xs of None \<Rightarrow> NULL | Some x \<Rightarrow> x)"
proof (induction xs arbitrary: p)
  case Nil
  then show ?case by (subst frame_find_loop.simps) simp
next
  case (Cons x xs)
  then show ?case by (subst frame_find_loop.simps) auto
qed

lemma frame_wf_dseg: "frame_wf s fl hl \<Longrightarrow> dseg (frame_heap s) (frame_hash s b) NULL (hl b) NULL"
  by (simp add: frame_wf_def)

lemma frame_wf_key: "frame_wf s fl hl \<Longrightarrow> p \<in> set (hl b) \<Longrightarrow> ucast (fs_addr (frame_heap s p)) = b"
  by (simp add: frame_wf_def)

lemma frame_find_wf:
  assumes "frame_wf s fl hl"
  shows "frame_find frame s =
       Ok (case find (\<lambda>x. fs_addr (frame_heap s x) = frame div PAGESZ) (hl (ucast (frame div PAGESZ))) of
             None \<Rightarrow> NULL | Some x \<Rightarrow> x)"
  unfolding frame_find_def frame_find_loop_chain [OF dseg_chain [OF frame_wf_dseg [OF assms]]]
  by simp

subsection \<open>Unlinking from a bucket\<close>

lemma frame_pull_same [simp]:
  "fs_addr (frame_heap (frame_pull x s) p) = fs_addr (frame_heap s p)"
  "fs_refc (frame_heap (frame_pull x s) p) = fs_refc (frame_heap s p)"
  "frame_list (frame_pull x s) = frame_list s"
  "out_of_memory (frame_pull x s) = out_of_memory s"
  "oom_pool (frame_pull x s) = oom_pool s"
  "kernel_end (frame_pull x s) = kernel_end s"
  by (simp_all add: frame_pull_def fs_upd_def Let_def)

lemma frame_pull_hash_other:
  "c \<noteq> ucast (fs_addr (frame_heap s x)) \<Longrightarrow> frame_hash (frame_pull x s) c = frame_hash s c"
  by (simp add: frame_pull_def fs_upd_def Let_def)

lemma frame_pull_bucket:
  assumes seg: "dseg (frame_heap s) (frame_hash s b) NULL (us @ x # vs) NULL"
    and b: "b = ucast (fs_addr (frame_heap s x))"
  shows "dseg (frame_heap (frame_pull x s)) (frame_hash (frame_pull x s) b) NULL (us @ vs) NULL"
    and "p \<notin> set (us @ vs) \<Longrightarrow> frame_heap (frame_pull x s) p = frame_heap s p"
proof -
  let ?h = "frame_heap s"
  from seg have d: "distinct (us @ x # vs)" by (rule dseg_distinct)
  have goal: "dseg (frame_heap (frame_pull x s)) (frame_hash (frame_pull x s) b) NULL (us @ vs) NULL \<and>
    (p \<notin> set (us @ vs) \<longrightarrow> frame_heap (frame_pull x s) p = ?h p)"
  proof (cases us rule: rev_cases)
    case Nil
    with seg b d show ?thesis
      by (cases vs) (auto simp: frame_pull_def fs_upd_def Let_def)
  next
    case (snoc us' a)
    with seg obtain r where us': "dseg ?h (frame_hash s b) NULL us' a" and a: "a \<noteq> NULL"
        "fs_prev (?h a) = last (NULL # us')" "fs_next (?h a) = x"
      and x: "x \<noteq> NULL" "fs_prev (?h x) = a" "dseg ?h (fs_next (?h x)) x vs NULL"
      by (auto simp: dseg_append)
    from snoc d us' a x show ?thesis
      by (cases vs) (auto simp: frame_pull_def fs_upd_def Let_def dseg_append)
  qed
  from goal show "dseg (frame_heap (frame_pull x s)) (frame_hash (frame_pull x s) b) NULL (us @ vs) NULL"
    by blast
  from goal show "p \<notin> set (us @ vs) \<Longrightarrow> frame_heap (frame_pull x s) p = ?h p" by blast
qed

subsection \<open>Reading the abstraction\<close>

lemma frame_wf_inj:
  "frame_wf s fl hl \<Longrightarrow> p \<in> set fl \<or> p \<in> set (hl b) \<Longrightarrow> q \<in> set fl \<or> q \<in> set (hl c) \<Longrightarrow>
     fs_addr (frame_heap s p) = fs_addr (frame_heap s q) \<Longrightarrow> p = q"
  unfolding frame_wf_def inj_on_def by blast

lemma frame_wf_sep: "frame_wf s fl hl \<Longrightarrow> p \<in> set fl \<Longrightarrow> p \<notin> set (hl b)"
  unfolding frame_wf_def by blast

lemma frame_wf_bound:
  "frame_wf s fl hl \<Longrightarrow> p \<in> set fl \<or> p \<in> set (hl b) \<Longrightarrow> unat (fs_addr (frame_heap s p)) < 1048576"
  unfolding frame_wf_def by blast

lemma frame_wf_refc: "frame_wf s fl hl \<Longrightarrow> p \<in> set (hl b) \<Longrightarrow> fs_refc (frame_heap s p) \<noteq> 0"
  unfolding frame_wf_def by blast

lemma frame_wf_find:
  assumes wf: "frame_wf s fl hl" and p: "p \<in> set (hl (ucast a))" "fs_addr (frame_heap s p) = a"
  shows "find (\<lambda>x. fs_addr (frame_heap s x) = a) (hl (ucast a)) = Some p"
proof -
  have "find (\<lambda>x. fs_addr (frame_heap s x) = a) (hl (ucast a)) \<noteq> None"
    using p by (auto simp: find_None_iff)
  then obtain q where q: "find (\<lambda>x. fs_addr (frame_heap s x) = a) (hl (ucast a)) = Some q" by auto
  then have "q \<in> set (hl (ucast a))" "fs_addr (frame_heap s q) = a"
    by (auto dest: find_Some_in)
  with p have "q = p" by (metis frame_wf_inj [OF wf])
  with q show ?thesis by simp
qed

definition used_records :: "(8 word \<Rightarrow> ptr list) \<Rightarrow> ptr set" where
  "used_records hl = (\<Union>b. set (hl b))"

lemma used_records_split:
  "used_records hl = set (hl b) \<union> (\<Union>c \<in> - {b}. set (hl c))"
  "used_records (hl(b := xs)) = set xs \<union> (\<Union>c \<in> - {b}. set (hl c))"
  by (auto simp: used_records_def split: if_splits)

lemma refs_of_Some:
  assumes wf: "frame_wf s fl hl"
  shows "refs_of (frame_heap s) hl a = Some n \<longleftrightarrow>
    (\<exists>p \<in> used_records hl. fs_addr (frame_heap s p) = a \<and> fs_refc (frame_heap s p) = n)"
    (is "?l = ?r")
proof
  assume ?l
  then show ?r by (auto simp: refs_of_def used_records_def dest!: find_Some_in split: option.splits)
next
  assume ?r
  then obtain p b where p: "p \<in> set (hl b)" "fs_addr (frame_heap s p) = a" "fs_refc (frame_heap s p) = n"
    by (auto simp: used_records_def)
  then have "p \<in> set (hl (ucast a))" using frame_wf_key [OF wf p(1)] by auto
  with p show ?l using frame_wf_find [OF wf] by (auto simp: refs_of_def)
qed

lemma refs_of_None:
  "refs_of h hl a = None \<longleftrightarrow> (\<forall>p \<in> set (hl (ucast a)). fs_addr (h p) \<noteq> a)"
  using find_None_iff [of "\<lambda>p. fs_addr (h p) = a" "hl (ucast a)"]
  by (auto simp: refs_of_def split: option.splits)

lemma refs_of_eqI:
  assumes "frame_wf s fl hl"
    and "\<And>a n. R a = Some n \<longleftrightarrow>
      (\<exists>p \<in> used_records hl. fs_addr (frame_heap s p) = a \<and> fs_refc (frame_heap s p) = n)"
  shows "refs_of (frame_heap s) hl = R"
proof
  fix a
  show "refs_of (frame_heap s) hl a = R a"
    using refs_of_Some [OF assms(1), of a] assms(2) [of a]
    by (metis not_None_eq)
qed

lemma used_record_inj:
  "frame_wf s fl hl \<Longrightarrow> p \<in> used_records hl \<Longrightarrow> q \<in> used_records hl \<Longrightarrow>
     fs_addr (frame_heap s p) = fs_addr (frame_heap s q) \<Longrightarrow> p = q"
  unfolding used_records_def by (metis UN_E frame_wf_inj)

lemma used_record_not_free:
  "frame_wf s fl hl \<Longrightarrow> p \<in> used_records hl \<Longrightarrow> q \<in> set fl \<Longrightarrow>
     fs_addr (frame_heap s p) \<noteq> fs_addr (frame_heap s q)"
  unfolding used_records_def by (metis UN_E frame_wf_inj frame_wf_sep)

text \<open>The abstract state is determined by the concrete one, and keeps free and used frames apart.\<close>

lemma frame_rel_unique:
  assumes "frame_rel s F R" and "frame_rel s F' R'"
  shows "F = F'" and "R = R'"
proof -
  obtain fl hl where w: "frame_wf s fl hl" "F = map (\<lambda>p. fs_addr (frame_heap s p)) fl"
    "R = refs_of (frame_heap s) hl" using assms(1) by (auto simp: frame_rel_def)
  obtain fl' hl' where w': "frame_wf s fl' hl'" "F' = map (\<lambda>p. fs_addr (frame_heap s p)) fl'"
    "R' = refs_of (frame_heap s) hl'" using assms(2) by (auto simp: frame_rel_def)
  have "fl = fl'" using w(1) w'(1) by (auto simp: frame_wf_def dest: chain_unique)
  moreover have "hl = hl'"
    using dseg_chain [OF frame_wf_dseg [OF w(1)]] dseg_chain [OF frame_wf_dseg [OF w'(1)]]
    by (blast intro: chain_unique)
  ultimately show "F = F'" and "R = R'" using w w' by auto
qed

lemma frame_rel_free_unused:
  assumes "frame_rel s F R"
  shows "distinct F" and "set F \<inter> dom R = {}" and "a \<in> set F \<union> dom R \<Longrightarrow> unat a < 1048576"
    and "R a \<noteq> Some 0"
proof -
  obtain fl hl where w: "frame_wf s fl hl" and F: "F = map (\<lambda>p. fs_addr (frame_heap s p)) fl"
    and R: "R = refs_of (frame_heap s) hl" using assms by (auto simp: frame_rel_def)
  have "distinct fl" using w by (auto simp: frame_wf_def dest: chain_distinct)
  moreover have "inj_on (\<lambda>p. fs_addr (frame_heap s p)) (set fl)"
    using frame_wf_inj [OF w] by (auto intro: inj_onI)
  ultimately show "distinct F" by (simp add: F distinct_map)
  have used: "\<exists>b. \<exists>p \<in> set (hl b). fs_addr (frame_heap s p) = a" if "a \<in> dom R" for a
    using that refs_of_Some [OF w] unfolding R used_records_def by blast
  show "set F \<inter> dom R = {}"
  proof (rule ccontr)
    assume "set F \<inter> dom R \<noteq> {}"
    then obtain a where "a \<in> set F" and "a \<in> dom R" by blast
    then obtain p q b where p: "p \<in> set fl" and q: "q \<in> set (hl b)"
      and "fs_addr (frame_heap s p) = fs_addr (frame_heap s q)"
      using used [of a] unfolding F by auto
    then have "p = q" by (metis frame_wf_inj [OF w])
    with p q frame_wf_sep [OF w] show False by blast
  qed
  show "unat a < 1048576" if "a \<in> set F \<union> dom R"
    using that used [of a] frame_wf_bound [OF w] unfolding F by auto
  show "R a \<noteq> Some 0"
    using frame_wf_refc [OF w] unfolding R refs_of_Some [OF w] used_records_def by auto
qed

section \<open>The operations implement the abstract allocator\<close>

text \<open>
  An operation moves records between the free list and the buckets and keeps their addresses: it
  is enough to look at the links, the keys and the counts.
\<close>

lemma frame_wf_step:
  assumes wf: "frame_wf s fl hl"
    and addr: "\<And>p. fs_addr (frame_heap s' p) = fs_addr (frame_heap s p)"
    and moved: "set fl' \<union> (\<Union>b. set (hl' b)) \<subseteq> set fl \<union> (\<Union>b. set (hl b))"
    and "chain (\<lambda>p. fs_next (frame_heap s' p)) (frame_list s') fl'"
    and "\<And>b. dseg (frame_heap s') (frame_hash s' b) NULL (hl' b) NULL"
    and "\<And>b p. p \<in> set (hl' b) \<Longrightarrow> ucast (fs_addr (frame_heap s p)) = b"
    and "\<And>b p. p \<in> set (hl' b) \<Longrightarrow> fs_refc (frame_heap s' p) \<noteq> 0"
    and "\<And>b p. p \<in> set fl' \<Longrightarrow> p \<notin> set (hl' b)"
  shows "frame_wf s' fl' hl'"
proof -
  have "inj_on (\<lambda>p. fs_addr (frame_heap s p)) (set fl \<union> (\<Union>b. set (hl b)))"
    using wf by (simp add: frame_wf_def)
  from inj_on_subset [OF this moved]
  have "inj_on (\<lambda>p. fs_addr (frame_heap s' p)) (set fl' \<union> (\<Union>b. set (hl' b)))"
    by (simp add: addr)
  moreover have "unat (fs_addr (frame_heap s' p)) < 1048576"
    if "p \<in> set fl' \<union> (\<Union>b. set (hl' b))" for p
    using subsetD [OF moved that] frame_wf_bound [OF wf] by (auto simp: addr)
  ultimately show ?thesis
    unfolding frame_wf_def using assms(4-8) by (auto simp: addr)
qed

lemma frame_wf_buckets_disjoint:
  "frame_wf s fl hl \<Longrightarrow> p \<in> set (hl b) \<Longrightarrow> p \<in> set (hl c) \<Longrightarrow> b = c"
  using frame_wf_key by metis

lemma dseg_push_front:
  assumes seg: "dseg h H NULL ys NULL" and x: "x \<noteq> NULL" "x \<notin> set ys"
    and h': "h' = (let h1 = h(x := f) in if H \<noteq> NULL then h1(H := (h1 H)\<lparr>fs_prev := x\<rparr>) else h1)"
    and f: "fs_next f = H" "fs_prev f = NULL"
  shows "dseg h' x NULL (x # ys) NULL"
proof (cases ys)
  case Nil
  then show ?thesis using assms by simp
next
  case (Cons y zs)
  then have "H = y" "y \<noteq> NULL" "y \<notin> set zs" using seg dseg_distinct [OF seg] by auto
  then show ?thesis using assms Cons by (auto simp: Let_def)
qed

lemma frame_new_wf:
  assumes wf: "frame_wf s (x # fl) hl" and live: "\<not> out_of_memory s"
  defines "b \<equiv> ucast (fs_addr (frame_heap s x)) :: 8 word"
  obtains s' where "frame_new s = Ok (fs_addr (frame_heap s x) * PAGESZ, s')"
    and "frame_wf s' fl (hl(b := x # hl b))"
    and "\<And>p. fs_addr (frame_heap s' p) = fs_addr (frame_heap s p)"
    and "\<And>p. fs_refc (frame_heap s' p) = (if p = x then 1 else fs_refc (frame_heap s p))"
    and "out_of_memory s' = out_of_memory s"
proof -
  let ?h = "frame_heap s"
  define H where "H = frame_hash s b"
  define h' where "h' = (let h = ?h(x := (?h x)\<lparr>fs_next := H, fs_prev := NULL, fs_refc := 1\<rparr>)
    in if H \<noteq> NULL then h(H := (h H)\<lparr>fs_prev := x\<rparr>) else h)"
  define s' where "s' = s\<lparr>frame_heap := h', frame_list := fs_next (?h x),
    frame_hash := (frame_hash s)(b := x)\<rparr>"
  have chain: "chain (\<lambda>p. fs_next (?h p)) (frame_list s) (x # fl)" using wf by (simp add: frame_wf_def)
  then have x: "x \<noteq> NULL" "frame_list s = x" "x \<notin> set fl"
    and rest: "chain (\<lambda>p. fs_next (?h p)) (fs_next (?h x)) fl"
    using chain_distinct [OF chain] by auto
  have xb: "x \<notin> set (hl c)" for c using frame_wf_sep [OF wf] by simp
  have segb: "dseg ?h H NULL (hl b) NULL" unfolding H_def by (rule frame_wf_dseg [OF wf])
  have H: "H = NULL \<or> H \<in> set (hl b)" using segb by (cases "hl b") auto
  have Hx: "H \<noteq> x" using H xb x by auto
  have new: "frame_new s = Ok (fs_addr (?h x) * PAGESZ, s')"
    using live x Hx
    by (subst frame_new.simps)
      (auto simp: Let_def fs_upd_def s'_def h'_def H_def b_def fun_eq_iff)
  have heap: "fs_addr (h' p) = fs_addr (?h p)"
    "fs_refc (h' p) = (if p = x then 1 else fs_refc (?h p))"
    "p \<noteq> x \<Longrightarrow> fs_next (h' p) = fs_next (?h p)"
    "p \<noteq> x \<Longrightarrow> p \<noteq> H \<Longrightarrow> h' p = ?h p" for p
    by (auto simp: h'_def Let_def)
  have other: "dseg h' (frame_hash s c) NULL (hl c) NULL" if "c \<noteq> b" for c
  proof -
    have "H \<notin> set (hl c)"
      using that H frame_wf_buckets_disjoint [OF wf] dseg_in_not_null [OF frame_wf_dseg [OF wf]] by blast
    then have "dseg h' (frame_hash s c) NULL (hl c) NULL = dseg ?h (frame_hash s c) NULL (hl c) NULL"
      using xb [of c] by (intro dseg_cong) (metis heap(4))
    then show ?thesis using frame_wf_dseg [OF wf] by simp
  qed
  have wf': "frame_wf s' fl (hl(b := x # hl b))"
  proof (rule frame_wf_step [OF wf])
    show "chain (\<lambda>p. fs_next (frame_heap s' p)) (frame_list s') fl"
      using rest chain_cong [of fl "\<lambda>p. fs_next (h' p)" "\<lambda>p. fs_next (?h p)" "fs_next (?h x)"]
        x(3) heap(3) by (simp add: s'_def) metis
    show "dseg (frame_heap s') (frame_hash s' c) NULL ((hl(b := x # hl b)) c) NULL" for c
      using dseg_push_front [OF segb x(1) xb h'_def] other by (simp add: s'_def)
    show "fs_refc (frame_heap s' p) \<noteq> 0" if "p \<in> set ((hl(b := x # hl b)) c)" for c p
      using that frame_wf_refc [OF wf] by (auto simp: s'_def heap split: if_splits)
  qed (use x frame_wf_key [OF wf] frame_wf_sep [OF wf] in
      \<open>auto simp: s'_def heap b_def split: if_splits\<close>)
  show thesis
    by (rule that [OF new wf']) (simp_all add: s'_def heap)
qed

lemma frame_pull_wf:
  assumes wf: "frame_wf s fl hl" and hl: "hl b = us @ x # vs"
  defines "h1 \<equiv> frame_heap (frame_pull x s)"
  shows "dseg h1 (frame_hash (frame_pull x s) c) NULL ((hl(b := us @ vs)) c) NULL"
    and "p \<notin> set (us @ vs) \<Longrightarrow> h1 p = frame_heap s p"
    and "x \<noteq> NULL" and "x \<notin> set ((hl(b := us @ vs)) c)"
proof -
  have xin: "x \<in> set (hl b)" by (simp add: hl)
  have seg: "dseg (frame_heap s) (frame_hash s b) NULL (us @ x # vs) NULL"
    using frame_wf_dseg [OF wf, of b] hl by simp
  have bx: "b = ucast (fs_addr (frame_heap s x))" using frame_wf_key [OF wf xin] by simp
  note pull = frame_pull_bucket [OF seg bx]
  show "x \<noteq> NULL" using dseg_in_not_null [OF seg] by simp
  show "x \<notin> set ((hl(b := us @ vs)) c)"
    using dseg_distinct [OF seg] frame_wf_buckets_disjoint [OF wf xin, of c] by auto
  show "p \<notin> set (us @ vs) \<Longrightarrow> h1 p = frame_heap s p" unfolding h1_def by (rule pull(2))
  show "dseg h1 (frame_hash (frame_pull x s) c) NULL ((hl(b := us @ vs)) c) NULL"
  proof (cases "c = b")
    case True then show ?thesis using pull(1) by (simp add: h1_def)
  next
    case False
    have "h1 p = frame_heap s p" if "p \<in> set (hl c)" for p
      using False that frame_wf_buckets_disjoint [OF wf] hl unfolding h1_def by (intro pull(2)) force
    then have "dseg h1 (frame_hash s c) NULL (hl c) NULL"
      using frame_wf_dseg [OF wf, of c] dseg_cong [of "hl c" h1 "frame_heap s"] by metis
    then show ?thesis using False frame_pull_hash_other [of c s x] bx by simp
  qed
qed

lemma frame_free_wf:
  assumes wf: "frame_wf s fl hl" and hl: "hl b = us @ x # vs" and b: "b = ucast (frame div PAGESZ)"
    and x: "fs_addr (frame_heap s x) = frame div PAGESZ" and one: "fs_refc (frame_heap s x) = 1"
  obtains s' where "frame_free frame s = Ok s'"
    and "frame_wf s' (x # fl) (hl(b := us @ vs))"
    and "\<And>p. fs_addr (frame_heap s' p) = fs_addr (frame_heap s p)"
    and "\<And>p. fs_refc (frame_heap s' p) = fs_refc (frame_heap s p)"
    and "\<not> out_of_memory s'"
proof -
  define h1 where "h1 = frame_heap (frame_pull x s)"
  define L where "L = frame_list s"
  define h' where "h' = (let h = h1(x := (h1 x)\<lparr>fs_next := L, fs_prev := NULL\<rparr>)
    in if L \<noteq> NULL then h(L := (h L)\<lparr>fs_prev := x\<rparr>) else h)"
  define s' where "s' = (frame_pull x s)\<lparr>frame_heap := h', frame_list := x, out_of_memory := False\<rparr>"
  have xin: "x \<in> set (hl b)" by (simp add: hl)
  note pull = frame_pull_wf [OF wf hl]
  note xn = pull(3)
  have ch: "chain (\<lambda>p. fs_next (frame_heap s p)) L fl" using wf by (simp add: frame_wf_def L_def)
  have L: "L = NULL \<or> L \<in> set fl" using ch by (cases fl) auto
  have sep: "p \<notin> set (hl c)" if "p \<in> set fl" for p c using frame_wf_sep [OF wf that] .
  have xfl: "x \<notin> set fl" using xin sep by blast
  have Lx: "L \<noteq> x" using L xn xfl by auto
  have "find (\<lambda>x. fs_addr (frame_heap s x) = frame div PAGESZ) (hl (ucast (frame div PAGESZ))) = Some x"
    using xin b x by (intro frame_wf_find [OF wf]) auto
  then have free: "frame_free frame s = Ok s'"
    using xn one Lx
    by (auto simp: frame_free_def frame_find_wf [OF wf] Let_def fs_upd_def s'_def h'_def h1_def L_def fun_eq_iff)
  have heap: "fs_addr (h' p) = fs_addr (frame_heap s p)" "fs_refc (h' p) = fs_refc (frame_heap s p)"
    "p \<noteq> x \<Longrightarrow> p \<noteq> L \<Longrightarrow> h' p = h1 p" "p \<noteq> x \<Longrightarrow> fs_next (h' p) = fs_next (h1 p)"
    "fs_next (h' x) = L" for p
    using Lx by (auto simp: h'_def h1_def Let_def)
  have in_fl: "h1 p = frame_heap s p" if "p \<in> set fl" for p
    using sep [OF that, of b] hl unfolding h1_def by (intro pull(2)) auto
  have sub: "set ((hl(b := us @ vs)) c) \<subseteq> set (hl c)" for c using hl by auto
  have buckets: "dseg h' (frame_hash (frame_pull x s) c) NULL ((hl(b := us @ vs)) c) NULL" for c
  proof -
    have "L \<notin> set ((hl(b := us @ vs)) c)"
      using L sep sub dseg_in_not_null [OF frame_wf_dseg [OF wf]] by blast
    then show ?thesis
      using pull(1,4) [of c] dseg_cong [of "(hl(b := us @ vs)) c" h' h1] heap(3)
      unfolding h1_def by metis
  qed
  have wf': "frame_wf s' (x # fl) (hl(b := us @ vs))"
  proof (rule frame_wf_step [OF wf])
    have "chain (\<lambda>p. fs_next (h' p)) L fl = chain (\<lambda>p. fs_next (frame_heap s p)) L fl"
      using xfl heap(4) in_fl by (intro chain_cong) metis
    then show "chain (\<lambda>p. fs_next (frame_heap s' p)) (frame_list s') (x # fl)"
      using ch xn heap(5) by (simp add: s'_def)
    show "dseg (frame_heap s') (frame_hash s' c) NULL ((hl(b := us @ vs)) c) NULL" for c
      using buckets by (simp add: s'_def)
    show "p \<notin> set ((hl(b := us @ vs)) c)" if "p \<in> set (x # fl)" for p c
      using that pull(4) [of c] sep [of p c] sub [of c] by (auto simp del: fun_upd_apply)
    show "set (x # fl) \<union> (\<Union>c. set ((hl(b := us @ vs)) c)) \<subseteq> set fl \<union> (\<Union>c. set (hl c))"
      using sub xin by fastforce
    show "fs_refc (frame_heap s' p) \<noteq> 0" if "p \<in> set ((hl(b := us @ vs)) c)" for c p
      using subsetD [OF sub that] frame_wf_refc [OF wf] by (simp add: s'_def heap)
    show "ucast (fs_addr (frame_heap s p)) = c" if "p \<in> set ((hl(b := us @ vs)) c)" for c p
      using subsetD [OF sub that] frame_wf_key [OF wf] by simp
  qed (simp add: s'_def heap)
  show thesis
    by (rule that [OF free wf'])
      (simp_all add: s'_def heap)
qed

text \<open>The abstract operations on the free list \<open>F\<close> and the counts \<open>R\<close>, by frame number.\<close>

definition spec_free :: "u32 \<Rightarrow> u32 list \<Rightarrow> (u32 \<rightharpoonup> u32) \<Rightarrow> u32 list \<times> (u32 \<rightharpoonup> u32)" where
  "spec_free a F R =
     (case R a of
        None \<Rightarrow> (F, R)
      | Some n \<Rightarrow> if n = 1 then (a # F, R(a := None)) else (F, R(a \<mapsto> n - 1)))"

definition spec_ref :: "u32 \<Rightarrow> (u32 \<rightharpoonup> u32) \<Rightarrow> (u32 \<rightharpoonup> u32)" where
  "spec_ref a R = (case R a of None \<Rightarrow> R | Some n \<Rightarrow> R(a \<mapsto> n + 1))"

definition spec_refc :: "u32 \<Rightarrow> (u32 \<rightharpoonup> u32) \<Rightarrow> u32" where
  "spec_refc a R = (case R a of None \<Rightarrow> 0 | Some n \<Rightarrow> n)"

lemma frame_new_implements:
  assumes "frame_rel s (a # F) R" and live: "\<not> out_of_memory s"
  shows "\<exists>s'. frame_new s = Ok (a * PAGESZ, s') \<and> frame_rel s' F (R(a \<mapsto> 1)) \<and> \<not> out_of_memory s'"
proof -
  obtain fl' hl where wf: "frame_wf s fl' hl" and F: "a # F = map (\<lambda>p. fs_addr (frame_heap s p)) fl'"
    and R: "R = refs_of (frame_heap s) hl" using assms by (auto simp: frame_rel_def)
  then obtain x fl where fl': "fl' = x # fl" and a: "fs_addr (frame_heap s x) = a" by (cases fl') auto
  obtain s' where s': "frame_new s = Ok (fs_addr (frame_heap s x) * PAGESZ, s')"
    "frame_wf s' fl (hl(ucast a := x # hl (ucast a)))"
    "\<And>p. fs_addr (frame_heap s' p) = fs_addr (frame_heap s p)"
    "\<And>p. fs_refc (frame_heap s' p) = (if p = x then 1 else fs_refc (frame_heap s p))"
    "out_of_memory s' = out_of_memory s"
    using frame_new_wf [OF wf [unfolded fl'] live] a by metis
  have U: "used_records (hl(ucast a := x # hl (ucast a))) = insert x (used_records hl)"
    by (auto simp: used_records_def split: if_splits)
  have other: "fs_addr (frame_heap s p) \<noteq> a" "p \<noteq> x" if "p \<in> used_records hl" for p
    using used_record_not_free [OF wf that, of x] a fl' by auto
  have "refs_of (frame_heap s') (hl(ucast a := x # hl (ucast a))) = R(a \<mapsto> 1)"
  proof (rule refs_of_eqI [OF s'(2)])
    fix c n
    show "(R(a \<mapsto> 1)) c = Some n \<longleftrightarrow> (\<exists>p \<in> used_records (hl(ucast a := x # hl (ucast a))).
        fs_addr (frame_heap s' p) = c \<and> fs_refc (frame_heap s' p) = n)"
      using other a by (cases "c = a") (auto simp: U R s'(3,4) refs_of_Some [OF wf])
  qed
  moreover have "F = map (\<lambda>p. fs_addr (frame_heap s' p)) fl" using F fl' by (simp add: s'(3))
  ultimately have "frame_rel s' F (R(a \<mapsto> 1))" using s'(2) unfolding frame_rel_def by metis
  then show ?thesis using s'(1,5) a live by blast
qed

lemma frame_count_update:
  assumes wf: "frame_wf s fl hl" and x: "x \<in> used_records hl" "fs_addr (frame_heap s x) = a"
    and n: "g (fs_refc (frame_heap s x)) \<noteq> 0"
  defines "s' \<equiv> fs_upd x (fs_refc_update g) s"
  shows "frame_wf s' fl hl"
    and "refs_of (frame_heap s') hl = (refs_of (frame_heap s) hl)(a \<mapsto> g (fs_refc (frame_heap s x)))"
proof -
  have same: "fs_addr (frame_heap s' p) = fs_addr (frame_heap s p)"
    "fs_next (frame_heap s' p) = fs_next (frame_heap s p)"
    "fs_refc (frame_heap s' p) = (if p = x then g (fs_refc (frame_heap s x)) else fs_refc (frame_heap s p))"
    "frame_list s' = frame_list s" "frame_hash s' = frame_hash s" for p
    by (auto simp: s'_def fs_upd_def)
  show wf': "frame_wf s' fl hl"
  proof (rule frame_wf_step [OF wf])
    show "dseg (frame_heap s') (frame_hash s' b) NULL (hl b) NULL" for b
      using frame_wf_dseg [OF wf] by (simp add: s'_def fs_upd_def)
    show "chain (\<lambda>p. fs_next (frame_heap s' p)) (frame_list s') fl"
      using wf by (simp add: same frame_wf_def)
    show "fs_refc (frame_heap s' p) \<noteq> 0" if "p \<in> set (hl b)" for b p
      using frame_wf_refc [OF wf that] n by (simp add: same)
  qed (use frame_wf_key [OF wf] frame_wf_sep [OF wf] in \<open>simp_all add: same\<close>)
  have other: "fs_addr (frame_heap s p) \<noteq> a" if "p \<in> used_records hl" "p \<noteq> x" for p
    using used_record_inj [OF wf that(1) x(1)] x(2) that(2) by metis
  show "refs_of (frame_heap s') hl = (refs_of (frame_heap s) hl)(a \<mapsto> g (fs_refc (frame_heap s x)))"
  proof (rule refs_of_eqI [OF wf'])
    fix c n
    show "((refs_of (frame_heap s) hl)(a \<mapsto> g (fs_refc (frame_heap s x)))) c = Some n \<longleftrightarrow>
        (\<exists>p \<in> used_records hl. fs_addr (frame_heap s' p) = c \<and> fs_refc (frame_heap s' p) = n)"
    proof (cases "c = a")
      case True then show ?thesis using other x by (auto simp: same)
    next
      case False then show ?thesis using x(2) by (simp add: same refs_of_Some [OF wf]) metis
    qed
  qed
qed

text \<open>What the search of the bucket finds, in terms of the counts.\<close>

lemma frame_find_cases:
  assumes wf: "frame_wf s fl hl"
  obtains "frame_find frame s = Ok NULL" and "refs_of (frame_heap s) hl (frame div PAGESZ) = None"
  | x where "frame_find frame s = Ok x" and "x \<noteq> NULL" and "x \<in> set (hl (ucast (frame div PAGESZ)))"
    and "fs_addr (frame_heap s x) = frame div PAGESZ"
    and "refs_of (frame_heap s) hl (frame div PAGESZ) = Some (fs_refc (frame_heap s x))"
proof (cases "find (\<lambda>x. fs_addr (frame_heap s x) = frame div PAGESZ) (hl (ucast (frame div PAGESZ)))")
  case None
  then show ?thesis using that(1) by (simp add: frame_find_wf [OF wf] refs_of_def)
next
  case (Some x)
  then have x: "x \<in> set (hl (ucast (frame div PAGESZ)))" "fs_addr (frame_heap s x) = frame div PAGESZ"
    by (auto dest: find_Some_in)
  moreover from x have "x \<noteq> NULL" by (blast dest: dseg_in_not_null [OF frame_wf_dseg [OF wf]])
  ultimately show ?thesis using that(2) Some by (simp add: frame_find_wf [OF wf] refs_of_def)
qed

lemma frame_free_last_implements:
  assumes wf: "frame_wf s fl hl" and x: "x \<in> set (hl (ucast (frame div PAGESZ)))"
    and a: "fs_addr (frame_heap s x) = frame div PAGESZ" and one: "fs_refc (frame_heap s x) = 1"
  shows "\<exists>s'. frame_free frame s = Ok s' \<and> \<not> out_of_memory s' \<and>
    frame_rel s' (frame div PAGESZ # map (\<lambda>p. fs_addr (frame_heap s p)) fl)
      ((refs_of (frame_heap s) hl)(frame div PAGESZ := None))"
proof -
  define b :: "8 word" where "b = ucast (frame div PAGESZ)"
  from x obtain us vs where hl: "hl b = us @ x # vs" unfolding b_def by (meson split_list)
  obtain s' where s': "frame_free frame s = Ok s'" "frame_wf s' (x # fl) (hl(b := us @ vs))"
    "\<And>p. fs_addr (frame_heap s' p) = fs_addr (frame_heap s p)"
    "\<And>p. fs_refc (frame_heap s' p) = fs_refc (frame_heap s p)" "\<not> out_of_memory s'"
    using frame_free_wf [OF wf hl b_def a one] by metis
  have U: "used_records hl = insert x (used_records (hl(b := us @ vs)))"
    using hl used_records_split [of hl b] by (auto simp: used_records_split(2))
  have nx: "x \<notin> used_records (hl(b := us @ vs))"
    using frame_wf_sep [OF s'(2)] by (simp add: used_records_def)
  have other: "fs_addr (frame_heap s p) \<noteq> frame div PAGESZ" if "p \<in> used_records (hl(b := us @ vs))" for p
    using used_record_inj [OF wf, of p x] that nx U a by (metis insert_iff)
  have "refs_of (frame_heap s') (hl(b := us @ vs)) = (refs_of (frame_heap s) hl)(frame div PAGESZ := None)"
  proof (rule refs_of_eqI [OF s'(2)])
    fix c n
    show "((refs_of (frame_heap s) hl)(frame div PAGESZ := None)) c = Some n \<longleftrightarrow>
        (\<exists>p \<in> used_records (hl(b := us @ vs)). fs_addr (frame_heap s' p) = c \<and> fs_refc (frame_heap s' p) = n)"
      using other a by (cases "c = frame div PAGESZ") (auto simp: U s'(3,4) refs_of_Some [OF wf])
  qed
  moreover have "frame div PAGESZ # map (\<lambda>p. fs_addr (frame_heap s p)) fl =
      map (\<lambda>p. fs_addr (frame_heap s' p)) (x # fl)" by (simp add: s'(3) a)
  ultimately show ?thesis using s'(1,2,5) unfolding frame_rel_def by metis
qed

lemma frame_free_implements:
  assumes "frame_rel s F R"
  shows "\<exists>s'. frame_free frame s = Ok s' \<and>
    frame_rel s' (fst (spec_free (frame div PAGESZ) F R)) (snd (spec_free (frame div PAGESZ) F R)) \<and>
    (out_of_memory s' \<longrightarrow> out_of_memory s)"
proof -
  obtain fl hl where wf: "frame_wf s fl hl" and F: "F = map (\<lambda>p. fs_addr (frame_heap s p)) fl"
    and R: "R = refs_of (frame_heap s) hl" using assms by (auto simp: frame_rel_def)
  show ?thesis
  proof (cases rule: frame_find_cases [OF wf, of frame])
    case 1
    then show ?thesis using assms by (simp add: frame_free_def spec_free_def R)
  next
    case (2 x)
    show ?thesis
    proof (cases "fs_refc (frame_heap s x) = 1")
      case True
      then show ?thesis
        using frame_free_last_implements [OF wf 2(3,4) True] 2(5)
        by (auto simp: spec_free_def R F)
    next
      case False
      let ?s' = "fs_upd x (fs_refc_update (\<lambda>n. n - 1)) s"
      have U: "x \<in> used_records hl" using 2(3) by (auto simp: used_records_def)
      have n: "fs_refc (frame_heap s x) - 1 \<noteq> 0" using False by simp
      note upd = frame_count_update [OF wf U 2(4), where g = "\<lambda>n. n - 1", OF n]
      have "F = map (\<lambda>p. fs_addr (frame_heap ?s' p)) fl" by (simp add: F fs_upd_def)
      then have "frame_rel ?s' F (R(frame div PAGESZ \<mapsto> fs_refc (frame_heap s x) - 1))"
        using upd unfolding frame_rel_def R by metis
      then show ?thesis
        using 2 False by (simp add: frame_free_def spec_free_def R) (simp add: fs_upd_def)
    qed
  qed
qed

lemma frame_ref_implements:
  assumes "frame_rel s F R" and no_wrap: "R (frame div PAGESZ) \<noteq> Some (- 1)"
  shows "\<exists>s'. frame_ref frame s = Ok s' \<and> frame_rel s' F (spec_ref (frame div PAGESZ) R) \<and>
    out_of_memory s' = out_of_memory s"
proof -
  obtain fl hl where wf: "frame_wf s fl hl" and F: "F = map (\<lambda>p. fs_addr (frame_heap s p)) fl"
    and R: "R = refs_of (frame_heap s) hl" using assms by (auto simp: frame_rel_def)
  show ?thesis
  proof (cases rule: frame_find_cases [OF wf, of frame])
    case 1
    then show ?thesis using assms by (simp add: frame_ref_def spec_ref_def R)
  next
    case (2 x)
    let ?s' = "fs_upd x (fs_refc_update (\<lambda>n. n + 1)) s"
    have U: "x \<in> used_records hl" using 2(3) by (auto simp: used_records_def)
    have n: "fs_refc (frame_heap s x) + 1 \<noteq> 0"
      using no_wrap 2(5) R by (auto simp: eq_neg_iff_add_eq_0)
    note upd = frame_count_update [OF wf U 2(4), where g = "\<lambda>n. n + 1", OF n]
    have "F = map (\<lambda>p. fs_addr (frame_heap ?s' p)) fl" by (simp add: F fs_upd_def)
    then have "frame_rel ?s' F (R(frame div PAGESZ \<mapsto> fs_refc (frame_heap s x) + 1))"
      using upd unfolding frame_rel_def R by metis
    then show ?thesis
      using 2 by (simp add: frame_ref_def spec_ref_def R) (simp add: fs_upd_def)
  qed
qed

lemma frame_refc_implements:
  assumes "frame_rel s F R"
  shows "frame_refc frame s = Ok (spec_refc (frame div PAGESZ) R)"
proof -
  obtain fl hl where wf: "frame_wf s fl hl" and R: "R = refs_of (frame_heap s) hl"
    using assms by (auto simp: frame_rel_def)
  show ?thesis
    by (cases rule: frame_find_cases [OF wf, of frame]) (simp_all add: frame_refc_def spec_refc_def R)
qed

section \<open>The interface of the allocator\<close>

text \<open>
  What the rest of the kernel relies on. \<open>ready\<close> says that frames come from the free list and not
  from the emergency pool.
\<close>

locale frame_allocator =
  fixes rel :: "'s \<Rightarrow> u32 list \<Rightarrow> (u32 \<rightharpoonup> u32) \<Rightarrow> bool"
    and ready :: "'s \<Rightarrow> bool"
    and new :: "'s \<Rightarrow> (u32 \<times> 's) outcome"
    and free :: "u32 \<Rightarrow> 's \<Rightarrow> 's outcome"
    and ref :: "u32 \<Rightarrow> 's \<Rightarrow> 's outcome"
    and refc :: "u32 \<Rightarrow> 's \<Rightarrow> u32 outcome"
  assumes apart: "rel s F R \<Longrightarrow> set F \<inter> dom R = {}"
    and numbers: "rel s F R \<Longrightarrow> a \<in> set F \<union> dom R \<Longrightarrow> unat a < 1048576"
    and counted: "rel s F R \<Longrightarrow> R a \<noteq> Some 0"
    and new: "rel s (a # F) R \<Longrightarrow> ready s \<Longrightarrow>
      \<exists>s'. new s = Ok (a * PAGESZ, s') \<and> rel s' F (R(a \<mapsto> 1)) \<and> ready s'"
    and free: "rel s F R \<Longrightarrow>
      \<exists>s'. free f s = Ok s' \<and> rel s' (fst (spec_free (f div PAGESZ) F R)) (snd (spec_free (f div PAGESZ) F R))
        \<and> (ready s \<longrightarrow> ready s')"
    and ref: "rel s F R \<Longrightarrow> R (f div PAGESZ) \<noteq> Some (- 1) \<Longrightarrow>
      \<exists>s'. ref f s = Ok s' \<and> rel s' F (spec_ref (f div PAGESZ) R) \<and> (ready s \<longrightarrow> ready s')"
    and refc: "rel s F R \<Longrightarrow> refc f s = Ok (spec_refc (f div PAGESZ) R)"
begin

lemma number_of_frame:
  assumes "rel s F R" and "a \<in> set F \<union> dom R"
  shows "(a * PAGESZ) div PAGESZ = a"
  using numbers [OF assms]
  by (simp add: word_unat_eq_iff unat_div_distrib unat_word_ariths)

lemma new_then_free:
  assumes rel: "rel s (a # F) R" and ready: "ready s"
  shows "\<exists>s1 s2. new s = Ok (a * PAGESZ, s1) \<and> refc (a * PAGESZ) s1 = Ok 1 \<and>
    free (a * PAGESZ) s1 = Ok s2 \<and> rel s2 (a # F) R \<and> ready s2"
proof -
  obtain s1 where s1: "new s = Ok (a * PAGESZ, s1)" "rel s1 F (R(a \<mapsto> 1))" "ready s1"
    using new [OF rel ready] by blast
  have a: "(a * PAGESZ) div PAGESZ = a" by (rule number_of_frame [OF rel]) simp
  have "a \<notin> dom R" using apart [OF rel] by auto
  then have "R(a := None) = R" by (auto simp: fun_eq_iff)
  moreover obtain s2 where "free (a * PAGESZ) s1 = Ok s2" "ready s2"
    "rel s2 (fst (spec_free a F (R(a \<mapsto> 1)))) (snd (spec_free a F (R(a \<mapsto> 1))))"
    using free [OF s1(2), of "a * PAGESZ"] s1(3) a by auto
  ultimately show ?thesis
    using s1(1) refc [OF s1(2), of "a * PAGESZ"] a by (auto simp: spec_free_def spec_refc_def)
qed

lemma ref_then_free:
  assumes rel: "rel s F R" and n: "R (f div PAGESZ) = Some n" "n \<noteq> - 1"
  shows "\<exists>s1 s2. ref f s = Ok s1 \<and> refc f s1 = Ok (n + 1) \<and> free f s1 = Ok s2 \<and> rel s2 F R"
proof -
  let ?a = "f div PAGESZ"
  obtain s1 where s1: "ref f s = Ok s1" "rel s1 F (R(?a \<mapsto> n + 1))"
    using ref [OF rel, of f] n by (auto simp: spec_ref_def)
  have "n + 1 \<noteq> 1" using counted [OF rel, of ?a] n by auto
  then obtain s2 where "free f s1 = Ok s2" "rel s2 F (R(?a \<mapsto> n))"
    using free [OF s1(2), of f] by (auto simp: spec_free_def)
  moreover have "R(?a \<mapsto> n) = R" using n by (auto simp: fun_eq_iff)
  ultimately show ?thesis
    using s1(1) refc [OF s1(2), of f] by (auto simp: spec_refc_def)
qed

lemma two_news_differ:
  assumes rel: "rel s (a # b # F) R" and ready: "ready s"
  shows "\<exists>s1 s2. new s = Ok (a * PAGESZ, s1) \<and> new s1 = Ok (b * PAGESZ, s2) \<and> a * PAGESZ \<noteq> b * PAGESZ
    \<and> rel s2 F (R(a \<mapsto> 1, b \<mapsto> 1))"
proof -
  obtain s1 where s1: "new s = Ok (a * PAGESZ, s1)" "rel s1 (b # F) (R(a \<mapsto> 1))" "ready s1"
    using new [OF rel ready] by blast
  obtain s2 where s2: "new s1 = Ok (b * PAGESZ, s2)" "rel s2 F (R(a \<mapsto> 1, b \<mapsto> 1))"
    using new [OF s1(2,3)] by blast
  have "a \<noteq> b" using apart [OF s1(2)] by auto
  then have "a * PAGESZ \<noteq> b * PAGESZ"
    using number_of_frame [OF rel, of a] number_of_frame [OF rel, of b] by auto
  with s1 s2 show ?thesis by blast
qed

end

interpretation frames: frame_allocator frame_rel "\<lambda>s. \<not> out_of_memory s" frame_new frame_free frame_ref frame_refc
proof
  fix s :: "'a frame_state_scheme" and F R a f
  show "frame_rel s F R \<Longrightarrow> set F \<inter> dom R = {}" by (rule frame_rel_free_unused)
  show "frame_rel s F R \<Longrightarrow> a \<in> set F \<union> dom R \<Longrightarrow> unat a < 1048576" by (rule frame_rel_free_unused)
  show "frame_rel s F R \<Longrightarrow> R a \<noteq> Some 0" by (rule frame_rel_free_unused)
  show "frame_rel s F R \<Longrightarrow> frame_refc f s = Ok (spec_refc (f div PAGESZ) R)"
    by (rule frame_refc_implements)
qed (use frame_new_implements frame_free_implements frame_ref_implements in blast)+

text \<open>The emergency pool: frames below the boot limit and above the end of the kernel image.\<close>

lemma debug_panic_not_ok [simp]: "debug_panic m s \<noteq> Ok x"
  by (cases "debug_printf (''Kernel panic: %s'' @ [newline]) [VStr (Some m)] s")
    (simp_all add: debug_panic_def)

lemma frame_new_from_pool:
  assumes "out_of_memory s \<or> frame_list s = NULL"
  defines "s' \<equiv> s\<lparr>out_of_memory := True, oom_pool := oom_pool s - PAGESZ\<rparr>"
  shows "frame_new s =
    (if oom_pool s' \<le> kernel_end s - KERNEL_ADDR_BASE then debug_panic ''out of memory'' s' else Ok (oom_pool s', s'))"
proof (cases "out_of_memory s")
  case True
  then have "s\<lparr>out_of_memory := True\<rparr> = s" by (cases s) simp
  then have "s' = s\<lparr>oom_pool := oom_pool s - PAGESZ\<rparr>" unfolding s'_def by (cases s) simp
  with True show ?thesis by (subst frame_new.simps) simp
next
  case False
  then have "frame_new s = frame_new (s\<lparr>out_of_memory := True\<rparr>)"
    using assms by (subst frame_new.simps) simp
  then show ?thesis by (subst (asm) (2) frame_new.simps) (simp add: s'_def Let_def)
qed

text \<open>\<open>n\<close> frames in a row.\<close>

primrec frames_new :: "nat \<Rightarrow> 'a frame_state_scheme \<Rightarrow> (u32 list \<times> 'a frame_state_scheme) outcome" where
  "frames_new 0 s = Ok ([], s)"
| "frames_new (Suc n) s = and_then (frames_new n s) (\<lambda>(fs, s). and_then (frame_new s) (\<lambda>(f, s). Ok (fs @ [f], s)))"

text \<open>The frame that the emergency pool gives out as number \<open>n\<close>, counted from 1.\<close>

definition pool_frame :: "nat \<Rightarrow> u32" where
  "pool_frame n = KERNEL_BOOT_SIZE - of_nat n * PAGESZ"

lemma unat_pool_frame: "n * 4096 \<le> 0x800000 \<Longrightarrow> unat (pool_frame n) = 0x800000 - n * 4096"
proof -
  assume n: "n * 4096 \<le> 0x800000"
  have "unat (of_nat (n * 4096) :: u32) = n * 4096" using n by (simp only: unat_of_nat) (simp add: take_bit_eq_mod)
  then have m: "unat (of_nat n * PAGESZ) = n * 4096" by simp
  then have "of_nat n * PAGESZ \<le> KERNEL_BOOT_SIZE" using n by (simp add: word_le_nat_alt)
  from unat_sub [OF this] show ?thesis unfolding pool_frame_def m by simp
qed

lemma frame_new_next:
  assumes "out_of_memory s \<or> frame_list s = NULL" and "oom_pool s = pool_frame n" and "uart_live s"
    and "unat (kernel_end s - KERNEL_ADDR_BASE) + n * 4096 < 0x800000 \<or> n = 0"
  shows "frame_new s = (if unat (kernel_end s - KERNEL_ADDR_BASE) + Suc n * 4096 < 0x800000
    then Ok (pool_frame (Suc n), s\<lparr>out_of_memory := True, oom_pool := pool_frame (Suc n)\<rparr>) else Stop (Panic ''out of memory''))"
proof -
  let ?s = "s\<lparr>out_of_memory := True, oom_pool := pool_frame (Suc n)\<rparr>"
  have "n < 2048" using assms(4) by auto
  then have u: "unat (pool_frame (Suc n)) = 0x800000 - Suc n * 4096" by (intro unat_pool_frame) simp
  have p: "oom_pool s - PAGESZ = pool_frame (Suc n)" unfolding assms(2) pool_frame_def by simp
  have "uart_live ?s" using assms(3) by (simp add: uart_live_def)
  then have "debug_panic ''out of memory'' ?s = (Stop (Panic ''out of memory'') :: (u32 \<times> 'a frame_state_scheme) outcome)"
    by (rule debug_panic_says)
  moreover have "pool_frame (Suc n) \<le> kernel_end s - KERNEL_ADDR_BASE \<longleftrightarrow> \<not> unat (kernel_end s - KERNEL_ADDR_BASE) + Suc n * 4096 < 0x800000"
    unfolding word_le_nat_alt u using \<open>n < 2048\<close> by arith
  ultimately show ?thesis using frame_new_from_pool [OF assms(1)] unfolding p by simp
qed

section \<open>Properties\<close>

text \<open>A small allocator state: the frames 7 and 8 are free, none is in use.\<close>

definition demo_frames :: frame_state where
  "demo_frames =
     \<lparr>pmem = (\<lambda>_ _. 0)(1 := (\<lambda>_. 0)(0 := 0x2003, 1023 := 0x1003), 2 := (\<lambda>_. 0)(3 := 0x5003)),
      cr2 = 0, cr3 = 0x1000, out_log = [], in_ports = (\<lambda>_ _. 0x20), in_pos = (\<lambda>_. 0),
      frame_heap = (\<lambda>_. \<lparr>fs_next = NULL, fs_prev = NULL, fs_refc = 0, fs_addr = 0\<rparr>)
        (0x10 := \<lparr>fs_next = 0x20, fs_prev = NULL, fs_refc = 0, fs_addr = 7\<rparr>,
         0x20 := \<lparr>fs_next = NULL, fs_prev = 0x10, fs_refc = 0, fs_addr = 8\<rparr>),
      out_of_memory = False, frame_list = 0x10, frame_hash = (\<lambda>_. NULL), oom_pool = 0x800000, kernel_end = 0xF0100000\<rparr>"

lemma demo_frames_rel: "frame_rel demo_frames [7, 8] Map.empty" "\<not> out_of_memory demo_frames"
proof -
  have "frame_wf demo_frames [0x10, 0x20] (\<lambda>_. [])" by (simp add: frame_wf_def demo_frames_def)
  moreover have "refs_of (frame_heap demo_frames) (\<lambda>_. []) = Map.empty" by (simp add: refs_of_def fun_eq_iff)
  moreover have "[7, 8] = map (\<lambda>p. fs_addr (frame_heap demo_frames p)) [0x10, 0x20]" by (simp add: demo_frames_def)
  ultimately show "frame_rel demo_frames [7, 8] Map.empty" unfolding frame_rel_def by metis
qed (simp add: demo_frames_def)

text \<open>
  C4: \<open>frame_new\<close> implements the abstract allocator: it returns the first free frame, which from then on is in use
  with one reference, and leaves the other free frames in order and every other count alone.
\<close>

theorem frame_new_takes_first:
  "frame_rel s (a # F) R \<Longrightarrow> \<not> out_of_memory s \<Longrightarrow>
   \<exists>s'. frame_new s = Ok (a * PAGESZ, s') \<and> frame_rel s' F (R(a \<mapsto> 1)) \<and> \<not> out_of_memory s'"
  by (rule frame_new_implements)

theorem frame_new_takes_first_witness:
  "\<exists>s'. frame_new demo_frames = Ok (0x7000, s') \<and> frame_rel s' [8] [7 \<mapsto> 1] \<and> \<not> out_of_memory s'"
  using frame_new_takes_first [OF demo_frames_rel] by simp

text \<open>
  C3: \<open>frame_free\<close> implements the abstract allocator: the last reference puts the frame in front of the free list,
  an earlier one only lowers the count, and a frame that is not in use is left alone.
\<close>

theorem frame_free_counts:
  "frame_rel s F R \<Longrightarrow>
   \<exists>s'. frame_free frame s = Ok s' \<and>
     (case R (frame div PAGESZ) of
        None \<Rightarrow> frame_rel s' F R
      | Some n \<Rightarrow> if n = 1 then frame_rel s' (frame div PAGESZ # F) (R(frame div PAGESZ := None))
                 else frame_rel s' F (R(frame div PAGESZ \<mapsto> n - 1)))"
  using frame_free_implements [of s F R frame] by (auto simp: spec_free_def split: option.splits if_splits)

theorem frame_free_counts_witness:
  "\<exists>s'. frame_free 0x9000 demo_frames = Ok s' \<and> frame_rel s' [7, 8] Map.empty"
  using frame_free_counts [where frame = "0x9000", OF demo_frames_rel(1)] by simp

text \<open>
  C26: Round trip of allocation: a frame that \<open>frame_new\<close> returned has one reference, and freeing it restores the
  free list and the counts.
\<close>

theorem frame_new_free_roundtrip:
  "frame_rel s (a # F) R \<Longrightarrow> \<not> out_of_memory s \<Longrightarrow>
   \<exists>s1 s2. frame_new s = Ok (a * PAGESZ, s1) \<and> frame_refc (a * PAGESZ) s1 = Ok 1 \<and>
     frame_free (a * PAGESZ) s1 = Ok s2 \<and> frame_rel s2 (a # F) R \<and> \<not> out_of_memory s2"
  by (rule frames.new_then_free)

theorem frame_new_free_roundtrip_witness:
  "\<exists>s1 s2. frame_new demo_frames = Ok (0x7000, s1) \<and> frame_refc 0x7000 s1 = Ok 1 \<and>
     frame_free 0x7000 s1 = Ok s2 \<and> frame_rel s2 [7, 8] Map.empty \<and> \<not> out_of_memory s2"
  using frame_new_free_roundtrip [OF demo_frames_rel] by simp

text \<open>
  C27: When there is no free frame, frames come from the pool, which starts at the top of the boot area (8 MB): \<open>n\<close> calls return the \<open>n\<close> frames
  below it, one after the other from above, as long as all of them lie above the end of the kernel image, and change nothing but the
  state of the pool; if the last of them would not, the kernel panics with \<open>out of memory\<close>, provided that the serial port works.
\<close>

theorem frame_new_pool_bounds:
  assumes "oom_pool s = KERNEL_BOOT_SIZE" and "out_of_memory s \<or> frame_list s = NULL" and "uart_live s" and "0 < n"
  shows "frames_new n s =
    (if unat (kernel_end s - KERNEL_ADDR_BASE) + n * 4096 < 0x800000
     then Ok (map (\<lambda>k. KERNEL_BOOT_SIZE - of_nat k * PAGESZ) [1..<Suc n],
       s\<lparr>out_of_memory := True, oom_pool := KERNEL_BOOT_SIZE - of_nat n * PAGESZ\<rparr>)
     else Stop (Panic ''out of memory''))"
  using assms(4)
proof (induction n)
  case (Suc n)
  let ?e = "unat (kernel_end s - KERNEL_ADDR_BASE)"
  show ?case
  proof (cases "n = 0")
    case True
    have "oom_pool s = pool_frame 0" by (simp add: assms(1) pool_frame_def)
    from frame_new_next [OF assms(2) this assms(3)] True show ?thesis by (simp add: pool_frame_def)
  next
    case False
    show ?thesis
    proof (cases "?e + n * 4096 < 0x800000")
      case True
      let ?s = "s\<lparr>out_of_memory := True, oom_pool := pool_frame n\<rparr>"
      have "frame_new ?s = (if ?e + Suc n * 4096 < 0x800000
        then Ok (pool_frame (Suc n), s\<lparr>out_of_memory := True, oom_pool := pool_frame (Suc n)\<rparr>) else Stop (Panic ''out of memory''))"
        using frame_new_next [of ?s n] True assms(3) by (simp add: uart_live_def)
      with Suc.IH True False show ?thesis by (simp add: pool_frame_def)
    next
      case 2: False
      then show ?thesis using Suc.IH False by simp
    qed
  qed
qed simp

theorem frame_new_pool_bounds_witness:
  "let s = demo_frames\<lparr>frame_list := NULL\<rparr>
   in frames_new 2 s = Ok ([0x7FF000, 0x7FE000], s\<lparr>out_of_memory := True, oom_pool := 0x7FE000\<rparr>) \<and>
      frames_new 1792 s = Stop (Panic ''out of memory'')"
proof -
  let ?s = "demo_frames\<lparr>frame_list := NULL\<rparr>"
  have s: "oom_pool ?s = KERNEL_BOOT_SIZE" "frame_list ?s = NULL" "uart_live ?s" "kernel_end ?s = 0xF0100000"
    by (simp_all add: demo_frames_def uart_live_def)
  have "map (\<lambda>k. KERNEL_BOOT_SIZE - of_nat k * PAGESZ) [1..<Suc 2] = [0x7FF000, 0x7FE000]" by (simp add: upt_rec)
  then show ?thesis
    using frame_new_pool_bounds [of ?s 2] frame_new_pool_bounds [of ?s 1792] s by (simp add: Let_def)
qed

end
