(* ===== verification/Page.thy ===== *)
theory Page
  imports Frame
begin

text \<open>
  Page tables and raw memory (\<open>src/kernel/page.c\<close>, \<open>mem.c\<close>, \<open>memclr.c\<close>, \<open>memcpy.c\<close> and the macros
  of \<open>space.h\<close>). The kernel reaches the tables of the current address space through the window at
  \<open>0xFFC00000\<close>, because the last entry of every page directory points to the directory itself;
  the model goes through the same window and the translation of the hardware, and the lemmas show
  what that means: \<open>page_get\<close> and \<open>page_set\<close> behave as lookup and update of a map from pages to
  entries.
\<close>

abbreviation (input) PF_PRES :: u32 where "PF_PRES \<equiv> 1"
abbreviation (input) PF_RW :: u32 where "PF_RW \<equiv> 0x2"
abbreviation (input) PF_USER :: u32 where "PF_USER \<equiv> 0x4"
abbreviation (input) PF_MASK :: u32 where "PF_MASK \<equiv> 0x0E7F"

definition page_fmt :: "u32 \<Rightarrow> u32 \<Rightarrow> u32" where
  "page_fmt base flags = (base AND 0xFFFFF000) OR (flags AND PF_MASK)"

definition page_ufmt :: "u32 \<Rightarrow> u32" where
  "page_ufmt page = page AND 0xFFFFF000"

section \<open>Raw memory\<close>

text \<open>\<open>memclr\<close> and \<open>memcpy\<close> go byte by byte, upwards.\<close>

primrec memclr :: "u32 \<Rightarrow> nat \<Rightarrow> 'a machine_scheme \<Rightarrow> 'a machine_scheme outcome" where
  "memclr p 0 s = Ok s"
| "memclr p (Suc n) s = and_then (vwrite8 p 0 s) (memclr (p + 1) n)"

primrec memcpy :: "u32 \<Rightarrow> u32 \<Rightarrow> nat \<Rightarrow> 'a machine_scheme \<Rightarrow> 'a machine_scheme outcome" where
  "memcpy d p 0 s = Ok s"
| "memcpy d p (Suc n) s =
     and_then (vread8 p s) (\<lambda>b. and_then (vwrite8 d b s) (memcpy (d + 1) (p + 1) n))"

section \<open>Pages\<close>

text \<open>\<open>&cmap[page >> 22]\<close> and \<open>&ctbl[page >> 12]\<close>.\<close>

definition cmap_at :: "u32 \<Rightarrow> u32" where
  "cmap_at page = 0xFFFFF000 + 4 * drop_bit 22 page"

definition ctbl_at :: "u32 \<Rightarrow> u32" where
  "ctbl_at page = 0xFFC00000 + 4 * drop_bit 12 page"

definition page_get :: "u32 \<Rightarrow> 'a machine_scheme \<Rightarrow> u32 outcome" where
  "page_get page s =
     and_then (vread (cmap_at page) s) (\<lambda>e.
       if e AND PF_PRES = 0 then Ok 0 else vread (ctbl_at page) s)"

definition page_touch :: "u32 \<Rightarrow> 'a frame_state_scheme \<Rightarrow> 'a frame_state_scheme outcome" where
  "page_touch page s =
     (let page = page AND NOT 0x3FFFFF
      in and_then (vread (cmap_at page) s) (\<lambda>e.
           if e AND PF_PRES \<noteq> 0 then Ok s
           else and_then (frame_new s) (\<lambda>(f, s).
             and_then (vwrite (cmap_at page) (f OR PF_PRES OR PF_RW OR PF_USER) s) (\<lambda>s.
               memclr (ctbl_at page) 0x1000 (cpu_flush_tlb_part (ctbl_at page) s)))))"

definition page_set :: "u32 \<Rightarrow> u32 \<Rightarrow> 'a frame_state_scheme \<Rightarrow> 'a frame_state_scheme outcome" where
  "page_set page value s =
     and_then (vread (cmap_at page) s) (\<lambda>e.
       and_then (if e AND PF_PRES = 0 then page_touch page s else Ok s) (\<lambda>s.
         and_then (vwrite (ctbl_at page) value s) (\<lambda>s.
           Ok (cpu_flush_tlb_part page s))))"

text \<open>
  \<open>mem_alloc\<close>: every page from the one of \<open>base\<close> up to \<open>base + size\<close> that has no entry gets a
  new frame. The bound and the counter have 32 bits; when the counter wraps around below a bound
  that lies in the last page, the loop starts over at address 0 and never ends.
\<close>

function mem_alloc_loop :: "u32 \<Rightarrow> u32 \<Rightarrow> u32 \<Rightarrow> 'a frame_state_scheme \<Rightarrow> 'a frame_state_scheme outcome" where
  "mem_alloc_loop i limit flags s =
     (if i < limit then
        and_then (page_get i s) (\<lambda>e.
          and_then (if e AND PF_PRES = 0
                    then and_then (frame_new s) (\<lambda>(f, s).
                           page_set i (page_fmt f ((flags AND PF_MASK) OR PF_PRES)) s)
                    else Ok s) (\<lambda>s.
            if i + 0x1000 < i then Stop Diverge
            else mem_alloc_loop (i + 0x1000) limit flags s))
      else Ok s)"
  by pat_completeness auto
termination
proof (relation "measure (\<lambda>(i, limit, flags, s). 4294967296 - unat i)")
  fix i limit flags :: u32 and s x xa
  assume "i < limit" and "\<not> i + 0x1000 < (i :: u32)"
  then have "i < i + 0x1000" by (simp add: not_less order.strict_iff_order)
  then have "unat i < unat (i + 0x1000)" by (simp add: word_less_nat_alt)
  then show "((i + 0x1000, limit, flags, xa), i, limit, flags, s) \<in> measure (\<lambda>(i, limit, flags, s). 4294967296 - unat i)"
    using unat_less_u32 [of "i + 0x1000"] by simp
qed simp

definition mem_alloc :: "u32 \<Rightarrow> u32 \<Rightarrow> u32 \<Rightarrow> 'a frame_state_scheme \<Rightarrow> 'a frame_state_scheme outcome" where
  "mem_alloc base sz flags s = mem_alloc_loop (base AND NOT 0xFFF) (base + sz) flags s"

declare mem_alloc_loop.simps [simp del]

section \<open>The window onto the page tables\<close>

lemma unat_cmap_at: "unat (cmap_at page) = 0xFFFFF000 + 4 * (unat page div 4194304)"
  using unat_less_u32 [of page]
  by (simp add: cmap_at_def unat_word_ariths unat_drop_bit)

lemma unat_ctbl_at: "unat (ctbl_at page) = 0xFFC00000 + 4 * (unat page div 4096)"
  using unat_less_u32 [of page]
  by (simp add: ctbl_at_def unat_word_ariths unat_drop_bit)

lemma window_arith:
  "k < (1024::nat) \<Longrightarrow> (0xFFFFF000 + 4 * k) div 4194304 = 1023"
  "k < (1024::nat) \<Longrightarrow> (0xFFFFF000 + 4 * k) div 4096 = 1048575"
  "(0xFFFFF000 + 4 * k) div 4 = (1073740800::nat) + k"
  "k < (1048576::nat) \<Longrightarrow> (0xFFC00000 + 4 * k) div 4194304 = 1023"
  "(0xFFC00000 + 4 * k) div 4 = (1072693248::nat) + k"
  by (simp_all add: div_nat_eqI)

lemma window_table:
  assumes "k < (1048576::nat)"
  shows "(0xFFC00000 + 4 * k) div 4096 mod 1024 = k div 1024"
proof -
  have "(0xFFC00000 + 4 * k) div 4096 = (0xFFC00000 + 4 * k) div 4 div 1024" by (simp flip: div_mult2_eq)
  also have "\<dots> = 1047552 + k div 1024" by (simp add: window_arith)
  finally show ?thesis using assms by (simp add: mod_add_eq [symmetric])
qed

lemma cmap_at_index [simp]:
  "pdx (cmap_at page) = 1023" "ptx (cmap_at page) = 1023" "widx (cmap_at page) = pdx page"
proof -
  have k: "unat page div 4194304 < 1024" using unat_less_u32 [of page] by simp
  show "pdx (cmap_at page) = 1023" "ptx (cmap_at page) = 1023" "widx (cmap_at page) = pdx page"
    using k by (simp_all add: word_unat_eq_iff unat_pdx unat_ptx unat_widx unat_cmap_at window_arith
        mod_add_eq [symmetric])
qed

lemma ctbl_at_index [simp]:
  "pdx (ctbl_at page) = 1023" "ptx (ctbl_at page) = pdx page" "widx (ctbl_at page) = ptx page"
proof -
  have k: "unat page div 4096 < 1048576" using unat_less_u32 [of page] by simp
  show "pdx (ctbl_at page) = 1023"
    using k by (simp add: word_unat_eq_iff unat_pdx unat_ctbl_at window_arith)
  show "ptx (ctbl_at page) = pdx page"
    using window_table [OF k]
    by (simp add: word_unat_eq_iff unat_pdx unat_ptx unat_ctbl_at flip: div_mult2_eq)
  show "widx (ctbl_at page) = ptx page"
    by (simp add: word_unat_eq_iff unat_ptx unat_widx unat_ctbl_at window_arith mod_add_eq [symmetric])
qed

section \<open>Well-formed address spaces\<close>

definition dir :: "'a machine_scheme \<Rightarrow> 10 word \<Rightarrow> u32" where
  "dir s i = pmem s (frame_of (cr3 s)) i"

text \<open>
  The last entry of the directory is present and points to the directory, and no two present
  entries share a page table.
\<close>

definition space_wf :: "'a machine_scheme \<Rightarrow> bool" where
  "space_wf s \<longleftrightarrow>
     bit (dir s 1023) 0 \<and> frame_of (dir s 1023) = frame_of (cr3 s) \<and>
     (\<forall>i j. bit (dir s i) 0 \<longrightarrow> bit (dir s j) 0 \<longrightarrow> frame_of (dir s i) = frame_of (dir s j) \<longrightarrow> i = j)"

text \<open>The entry of a page: 0 where there is no table.\<close>

definition entry :: "'a machine_scheme \<Rightarrow> u32 \<Rightarrow> u32" where
  "entry s page = (if bit (dir s (pdx page)) 0 then pmem s (frame_of (dir s (pdx page))) (ptx page) else 0)"

lemma pde_of_dir: "pde_of s va = dir s (pdx va)"
  by (simp add: pde_of_def dir_def)

lemma space_wf_self: "space_wf s \<Longrightarrow> bit (dir s 1023) 0" "space_wf s \<Longrightarrow> frame_of (dir s 1023) = frame_of (cr3 s)"
  by (simp_all add: space_wf_def)

lemma space_wf_inj:
  "space_wf s \<Longrightarrow> bit (dir s i) 0 \<Longrightarrow> bit (dir s j) 0 \<Longrightarrow> frame_of (dir s i) = frame_of (dir s j) \<Longrightarrow> i = j"
  by (simp add: space_wf_def)

lemma table_not_dir:
  "space_wf s \<Longrightarrow> bit (dir s i) 0 \<Longrightarrow> i \<noteq> 1023 \<Longrightarrow> frame_of (dir s i) \<noteq> frame_of (cr3 s)"
  using space_wf_inj [of s i 1023] space_wf_self [of s] by auto

lemma walk_cmap: "space_wf s \<Longrightarrow> mmu_walk s (cmap_at page) = Ok (frame_of (cr3 s), pdx page)"
  by (simp add: mmu_walk_def pte_of_def pde_of_dir space_wf_self and_one_zero_iff flip: dir_def)

lemma walk_ctbl:
  "space_wf s \<Longrightarrow> bit (dir s (pdx page)) 0 \<Longrightarrow>
     mmu_walk s (ctbl_at page) = Ok (frame_of (dir s (pdx page)), ptx page)"
  by (simp add: mmu_walk_def pte_of_def pde_of_dir space_wf_self and_one_zero_iff flip: dir_def)

lemma vread_cmap: "space_wf s \<Longrightarrow> vread (cmap_at page) s = Ok (dir s (pdx page))"
  by (simp add: vread_def walk_cmap flip: dir_def)

lemma vread_ctbl: "space_wf s \<Longrightarrow> bit (dir s (pdx page)) 0 \<Longrightarrow> vread (ctbl_at page) s = Ok (entry s page)"
  by (simp add: vread_def walk_ctbl entry_def)

lemma page_get_entry: "space_wf s \<Longrightarrow> page_get page s = Ok (entry s page)"
  by (simp add: page_get_def vread_cmap and_one_zero_iff vread_ctbl) (simp add: entry_def)

subsection \<open>Writing an entry of a present table\<close>

lemma dir_upd_table [simp]: "f \<noteq> frame_of (cr3 s) \<Longrightarrow> dir (pmem_upd f i v s) = dir s"
  by (simp add: dir_def fun_eq_iff)

lemma space_wf_upd_table [simp]: "f \<noteq> frame_of (cr3 s) \<Longrightarrow> space_wf (pmem_upd f i v s) = space_wf s"
  by (simp add: space_wf_def)

lemma page_set_present:
  assumes "space_wf s" and "bit (dir s (pdx page)) 0"
  shows "page_set page v s = Ok (pmem_upd (frame_of (dir s (pdx page))) (ptx page) v s)"
  using assms by (simp add: page_set_def vread_cmap and_one_zero_iff vwrite_def walk_ctbl)

lemma entry_upd_table:
  assumes wf: "space_wf s" and p: "bit (dir s (pdx page)) 0" "pdx page \<noteq> 1023"
  shows "entry (pmem_upd (frame_of (dir s (pdx page))) (ptx page) v s) q =
    (if frame_of q = frame_of page then v else entry s q)"
proof -
  have nd: "frame_of (dir s (pdx page)) \<noteq> frame_of (cr3 s)"
    using table_not_dir [OF wf p] .
  show ?thesis
  proof (cases "pdx q = pdx page \<and> ptx q = ptx page")
    case True
    then have "frame_of q = frame_of page" by (blast intro: page_index_inj)
    then show ?thesis using True p nd by (simp add: entry_def)
  next
    case False
    then have "frame_of q \<noteq> frame_of page"
      by (auto simp: word_unat_eq_iff unat_frame_of unat_pdx unat_ptx
          div_mult2_eq [of _ 4096 1024, simplified])
    moreover have "frame_of (dir s (pdx q)) = frame_of (dir s (pdx page)) \<Longrightarrow> bit (dir s (pdx q)) 0 \<Longrightarrow> pdx q = pdx page"
      using space_wf_inj [OF wf _ p(1)] by blast
    ultimately show ?thesis using False nd by (auto simp: entry_def)
  qed
qed

subsection \<open>Clearing a page\<close>

text \<open>
  Clearing whole words of a mapped page, where the page is none of the tables that its own
  translation goes through.
\<close>

definition clear_words :: "20 word \<Rightarrow> nat \<Rightarrow> nat \<Rightarrow> 'a machine_scheme \<Rightarrow> 'a machine_scheme" where
  "clear_words f i k s =
     s\<lparr>pmem := (pmem s)(f := (\<lambda>j. if i \<le> unat j \<and> unat j < i + k then 0 else pmem s f j))\<rparr>"

definition backs :: "'a machine_scheme \<Rightarrow> u32 \<Rightarrow> 20 word \<Rightarrow> bool" where
  "backs s p f \<longleftrightarrow> mmu_walk s p = Ok (f, widx p) \<and> f \<noteq> frame_of (cr3 s) \<and> f \<noteq> frame_of (pde_of s p)"

lemma page_of_offset:
  assumes "unat p mod 4096 + j < 4096"
  shows "frame_of (p + of_nat j) = frame_of p" and "unat (p + of_nat j) = unat p + j"
proof -
  define q r where "q = unat p div 4096" and "r = unat p mod 4096"
  have p: "unat p = 4096 * q + r" and r: "r + j < 4096"
    using assms by (simp_all add: q_def r_def)
  have "q < 1048576" using unat_less_u32 [of p] by (simp add: q_def)
  then have "unat p + j < 4294967296" using p r by simp
  then show u: "unat (p + of_nat j) = unat p + j"
    by (simp add: unat_word_ariths unat_of_nat)
  have "(4096 * q + r + j) div 4096 = q" using r by (simp add: div_nat_eqI)
  then show "frame_of (p + of_nat j) = frame_of p"
    by (simp add: word_unat_eq_iff unat_frame_of u p)
qed

lemma walk_same_page:
  assumes "frame_of q = frame_of p" shows "pdx q = pdx p" and "ptx q = ptx p"
proof -
  have e: "unat q div 4096 = unat p div 4096" using assms by (simp add: word_unat_eq_iff unat_frame_of)
  then show "ptx q = ptx p" by (simp add: word_unat_eq_iff unat_ptx)
  have "unat q div 4096 div 1024 = unat p div 4096 div 1024" by (simp only: e)
  then show "pdx q = pdx p" by (simp add: word_unat_eq_iff unat_pdx flip: div_mult2_eq)
qed

lemma backs_same_page:
  assumes "backs s p f" and "frame_of q = frame_of p"
  shows "backs s q f"
proof -
  have "pde_of s q = pde_of s p" "pte_of s q = pte_of s p"
    using walk_same_page [OF assms(2)] by (simp_all add: pde_of_def pte_of_def)
  then show ?thesis using assms(1) by (auto simp: backs_def mmu_walk_def split: if_splits)
qed

lemma backs_upd:
  assumes "backs s p f" shows "backs (pmem_upd f i v s) p f"
proof -
  have f: "f \<noteq> frame_of (cr3 s)" "f \<noteq> frame_of (pde_of s p)" using assms by (auto simp: backs_def)
  then have pde: "pde_of (pmem_upd f i v s) p = pde_of s p" by (simp add: pde_of_def)
  moreover from this f have "pte_of (pmem_upd f i v s) p = pte_of s p" by (simp add: pte_of_def)
  ultimately show ?thesis using assms by (auto simp: backs_def mmu_walk_def split: if_splits)
qed

lemma vwrite8_backed:
  "backs s p f \<Longrightarrow> vwrite8 p b s = Ok (pmem_upd f (widx p) (set_lane (byte_lane p) b (pmem s f (widx p))) s)"
  by (simp add: vwrite8_def backs_def)

lemma pmem_upd_twice: "pmem_upd f i v (pmem_upd f i w s) = pmem_upd f i v s"
  by (simp add: pmem_upd_def)

lemma word_of_offset:
  assumes aligned: "unat p mod 4 = 0" and j: "j < 4"
  shows "frame_of (p + of_nat j) = frame_of p" and "widx (p + of_nat j) = widx p"
    and "byte_lane (p + of_nat j) = 8 * j"
proof -
  have "unat p mod 4096 mod 4 = 0" using aligned by (simp add: mod_mod_cancel)
  then obtain k where k: "unat p mod 4096 = 4 * k" by (auto simp: mod_eq_0_iff_dvd)
  moreover have "unat p mod 4096 < 4096" by simp
  ultimately have "k < 1024" by linarith
  then have room: "unat p mod 4096 + j < 4096" using k j by linarith
  note off = page_of_offset [OF room]
  from off(1) show "frame_of (p + of_nat j) = frame_of p" .
  obtain m where m: "unat p = 4 * m" using aligned by (auto simp: mod_eq_0_iff_dvd)
  then have "unat (p + of_nat j) div 4 = m" "unat (p + of_nat j) mod 4 = j"
    using off(2) j by (simp_all add: div_nat_eqI)
  then show "widx (p + of_nat j) = widx p" and "byte_lane (p + of_nat j) = 8 * j"
    using m by (simp_all add: word_unat_eq_iff unat_widx byte_lane_def)
qed

lemma memclr_word:
  assumes b: "backs s p f" and aligned: "unat p mod 4 = 0"
  shows "memclr p 4 s = Ok (pmem_upd f (widx p) 0 s)"
proof -
  have step: "vwrite8 (p + of_nat j) 0 s' = Ok (pmem_upd f (widx p) (set_lane (8 * j) 0 (pmem s' f (widx p))) s')"
    if "backs s' p f" "j < 4" for s' :: "'a machine_scheme" and j
    using vwrite8_backed [OF backs_same_page [OF that(1) word_of_offset(1) [OF aligned that(2)]]]
      word_of_offset(2,3) [OF aligned that(2)] by simp
  note steps = step [of _ 0, simplified] step [of _ 1, simplified] step [of _ 2, simplified]
    step [of _ 3, simplified]
  have "memclr p 4 s = Ok (pmem_upd f (widx p)
      (set_lane 24 0 (set_lane 16 0 (set_lane 8 0 (set_lane 0 0 (pmem s f (widx p)))))) s)"
    using b by (simp add: numeral_eq_Suc steps add.assoc backs_upd pmem_upd_twice)
  then show ?thesis by (simp add: set_lane_all)
qed

lemma memclr_add: "memclr p (m + n) s = and_then (memclr p m s) (memclr (p + of_nat m) n)"
proof (induction m arbitrary: p s)
  case (Suc m)
  then show ?case by (cases "vwrite8 p 0 s") (simp_all add: ac_simps)
qed simp

lemma backs_clear_words:
  assumes "backs s p f" shows "backs (clear_words f i k s) p f"
proof -
  have f: "f \<noteq> frame_of (cr3 s)" "f \<noteq> frame_of (pde_of s p)" using assms by (auto simp: backs_def)
  then have pde: "pde_of (clear_words f i k s) p = pde_of s p" by (simp add: pde_of_def clear_words_def)
  moreover from this f have "pte_of (clear_words f i k s) p = pte_of s p" by (simp add: pte_of_def clear_words_def)
  ultimately show ?thesis using assms by (auto simp: backs_def mmu_walk_def clear_words_def split: if_splits)
qed

lemma clear_words_Suc:
  assumes "unat j = i + k"
  shows "pmem_upd f j 0 (clear_words f i k s) = clear_words f i (Suc k) s"
proof -
  have "(\<lambda>x. if i \<le> unat x \<and> unat x < i + Suc k then 0 else pmem s f x) =
      (\<lambda>x. if i \<le> unat x \<and> unat x < i + k then 0 else pmem s f x)(j := 0)"
    using assms by (auto simp: fun_eq_iff less_Suc_eq word_unat_eq_iff)
  then show ?thesis by (simp add: pmem_upd_def clear_words_def)
qed

lemma memclr_words:
  assumes b: "backs s p f" and aligned: "unat p mod 4 = 0"
  shows "unat p mod 4096 + 4 * k \<le> 4096 \<Longrightarrow>
    memclr p (4 * k) s = Ok (clear_words f (unat (widx p)) k s)"
proof (induction k)
  case 0
  have "(\<lambda>j. if i \<le> unat j \<and> unat j < i then 0 else pmem s f j) = pmem s f" for i by (auto simp: fun_eq_iff)
  then show ?case by (simp add: clear_words_def)
next
  case (Suc k)
  let ?p = "p + of_nat (4 * k)"
  have room: "unat p mod 4096 + 4 * k < 4096" using Suc.prems by simp
  note off = page_of_offset [OF room]
  obtain m where m: "unat p = 4 * m" using aligned by (auto simp: mod_eq_0_iff_dvd)
  have "unat p mod 4096 = 4 * (m mod 1024)" by (simp add: m mult_mod_right)
  then have "m mod 1024 + k < 1024" using room by linarith
  then have "(m + k) mod 1024 = m mod 1024 + k" by (metis mod_add_left_eq mod_less)
  moreover have "unat ?p div 4 = m + k" using off(2) m by simp
  ultimately have i: "unat (widx ?p) = unat (widx p) + k" by (simp only: unat_widx m) simp
  have "backs (clear_words f (unat (widx p)) k s) ?p f"
    by (rule backs_same_page [OF backs_clear_words [OF b] off(1)])
  moreover have "unat ?p mod 4 = 0" using off(2) m by simp
  ultimately have "memclr ?p 4 (clear_words f (unat (widx p)) k s) = Ok (clear_words f (unat (widx p)) (Suc k) s)"
    using clear_words_Suc [OF i] by (simp add: memclr_word)
  then show ?case
    using Suc memclr_add [of p "4 * k" 4 s] by (simp add: add.commute)
qed

lemma memclr_page:
  assumes "backs s p f" and "unat p mod 4096 = 0"
  shows "memclr p 4096 s = Ok (s\<lparr>pmem := (pmem s)(f := (\<lambda>_. 0))\<rparr>)"
proof -
  obtain m where "unat p = 4096 * m" using assms(2) by (auto simp: mod_eq_0_iff_dvd)
  then have "unat p mod 4 = 0" "unat (widx p) = 0" by (simp_all add: unat_widx)
  moreover have "clear_words f 0 1024 s = s\<lparr>pmem := (pmem s)(f := (\<lambda>_. 0))\<rparr>"
    using unat_less_idx by (simp add: clear_words_def)
  ultimately show ?thesis using memclr_words [OF assms(1), of 1024] assms(2) by simp
qed

subsection \<open>Adding a page table\<close>

lemma frame_new_machine:
  assumes "frame_new s = Ok (f, s')"
  shows "pmem s' = pmem s" and "cr3 s' = cr3 s"
proof -
  have "pmem s' = pmem s \<and> cr3 s' = cr3 s"
    using assms
  proof (induction s rule: frame_new.induct)
    case (1 s)
    then show ?case
      by (cases "out_of_memory s"; cases "frame_list s = NULL")
        (auto simp: frame_new.simps [of s] Let_def fs_upd_def split: if_splits)
  qed
  then show "pmem s' = pmem s" and "cr3 s' = cr3 s" by auto
qed

text \<open>\<open>page &= ~0x3FFFFF\<close> rounds down to a multiple of 4 MB.\<close>

lemma segment_base [simp]:
  "unat (page AND - 0x400000 :: u32) = unat page div 4194304 * 4194304"
  unfolding high_masks by (subst unat_and_not_mask) simp

lemma segment_index [simp]:
  "pdx (page AND - 0x400000) = pdx page" "ptx (page AND - 0x400000) = 0"
proof -
  show "pdx (page AND - 0x400000) = pdx page"
    by (simp add: word_unat_eq_iff unat_pdx)
  have "unat page div 4194304 * 4194304 div 4096 = unat page div 4194304 * 1024" by simp
  then show "ptx (page AND - 0x400000) = 0"
    by (simp add: word_unat_eq_iff unat_ptx)
qed

lemma segment_table_aligned: "unat (ctbl_at (page AND - 0x400000)) mod 4096 = 0"
proof -
  have "4 * (unat page div 4194304 * 4194304 div 4096) = 4096 * (unat page div 4194304)" by simp
  then show ?thesis by (simp add: unat_ctbl_at mod_add_eq [symmetric])
qed

text \<open>The three flags of a page table entry do not disturb the frame number.\<close>

lemma table_entry_bits [simp]:
  "frame_of (f OR 7) = frame_of f" "bit (f OR 7 :: u32) 0"
proof -
  have "\<not> bit (7 :: u32) (12 + n)" for n
  proof -
    have "take_bit 12 (7 :: u32) = 7" by simp
    then show ?thesis by (metis bit_take_bit_iff not_add_less1)
  qed
  then show "frame_of (f OR 7) = frame_of f"
    by (intro bit_word_eqI) (simp add: frame_of_def bit_simps del: bit_numeral_simps)
  show "bit (f OR 7 :: u32) 0" by (simp add: bit_simps)
qed

lemma space_wf_new_table:
  assumes wf: "space_wf s" and d: "dir s' = (dir s)(k := v)" and c: "cr3 s' = cr3 s"
    and absent: "\<not> bit (dir s k) 0" and v: "bit v 0"
    and fresh: "\<And>i. bit (dir s i) 0 \<Longrightarrow> frame_of (dir s i) \<noteq> frame_of v"
  shows "space_wf s'"
proof -
  have k: "k \<noteq> 1023" using absent space_wf_self [OF wf] by auto
  have inj: "i = j" if "bit (dir s' i) 0" "bit (dir s' j) 0" "frame_of (dir s' i) = frame_of (dir s' j)" for i j
  proof (cases "i = k \<or> j = k")
    case True
    then show ?thesis using that fresh [of i] fresh [of j] by (auto simp: d split: if_splits)
  next
    case False
    then show ?thesis using that space_wf_inj [OF wf, of i j] by (simp add: d)
  qed
  have "bit (dir s' 1023) 0" "frame_of (dir s' 1023) = frame_of (cr3 s')"
    using k space_wf_self [OF wf] by (simp_all add: d c)
  with inj show ?thesis unfolding space_wf_def by blast
qed

lemma page_touch_absent:
  assumes wf: "space_wf s" and absent: "\<not> bit (dir s (pdx page)) 0"
    and new: "frame_new s = Ok (f, s1)"
    and fresh: "\<And>i. bit (dir s i) 0 \<Longrightarrow> frame_of (dir s i) \<noteq> frame_of f"
  defines "v \<equiv> f OR 7"
  shows "page_touch page s = Ok (s1\<lparr>pmem := ((pmem s)(frame_of (cr3 s) := (dir s)(pdx page := v)))(frame_of f := (\<lambda>_. 0))\<rparr>)"
proof -
  let ?base = "page AND - 0x400000" and ?s2 = "pmem_upd (frame_of (cr3 s)) (pdx page) v s1"
  note m = frame_new_machine [OF new]
  have d1: "dir s1 = dir s" by (simp add: dir_def fun_eq_iff m)
  have wf1: "space_wf s1" using wf by (simp add: space_wf_def d1 m)
  have v: "frame_of v = frame_of f" "bit v 0" unfolding v_def by (rule table_entry_bits)+
  have d2: "dir ?s2 = (dir s)(pdx page := v)" by (simp add: dir_def fun_eq_iff m)
  have slot: "pdx page \<noteq> 1023" using absent space_wf_self [OF wf] by auto
  have wf2: "space_wf ?s2"
    by (rule space_wf_new_table [OF wf d2 _ absent v(2)]) (use fresh v m in auto)
  have nd: "frame_of f \<noteq> frame_of (cr3 s)" using fresh [of 1023] space_wf_self [OF wf] by auto
  have "mmu_walk ?s2 (ctbl_at ?base) = Ok (frame_of f, widx (ctbl_at ?base))"
    using walk_ctbl [OF wf2, of ?base] v by (simp add: d2)
  then have "backs ?s2 (ctbl_at ?base) (frame_of f)"
    using nd slot space_wf_self [OF wf] by (simp add: backs_def pde_of_dir d2 m)
  note clr = memclr_page [OF this segment_table_aligned]
  have "dir s = pmem s (frame_of (cr3 s))" by (simp add: dir_def fun_eq_iff)
  then have "page_touch page s = Ok (?s2\<lparr>pmem := (pmem ?s2)(frame_of f := (\<lambda>_. 0))\<rparr>)"
    using absent
    by (simp add: page_touch_def Let_def vread_cmap [OF wf] and_one_zero_iff new vwrite_def
        walk_cmap [OF wf1] m clr [simplified m] flip: v_def)
  then show ?thesis by (simp add: pmem_upd_def m dir_def [abs_def])
qed

lemma page_touch_new:
  assumes wf: "space_wf s" and absent: "\<not> bit (dir s (pdx page)) 0"
    and new: "frame_new s = Ok (f, s1)"
    and fresh: "\<And>i. bit (dir s i) 0 \<Longrightarrow> frame_of (dir s i) \<noteq> frame_of f"
  obtains s' m where "page_touch page s = Ok s'" and "space_wf s'"
    and "dir s' = (dir s)(pdx page := f OR 7)" and "\<And>q. pdx q \<noteq> 1023 \<Longrightarrow> entry s' q = entry s q"
    and "s' = s1\<lparr>pmem := m\<rparr>"
proof -
  let ?v = "f OR 7"
  define s' where "s' = s1\<lparr>pmem := ((pmem s)(frame_of (cr3 s) := (dir s)(pdx page := ?v)))(frame_of f := (\<lambda>_. 0))\<rparr>"
  note m = frame_new_machine [OF new]
  have nd: "frame_of f \<noteq> frame_of (cr3 s)" using fresh [of 1023] space_wf_self [OF wf] by auto
  have d: "dir s' = (dir s)(pdx page := ?v)"
    using nd by (simp add: fun_eq_iff dir_def s'_def m)
  have c: "cr3 s' = cr3 s" by (simp add: s'_def m)
  have wf': "space_wf s'"
    by (rule space_wf_new_table [OF wf d c absent]) (use fresh in auto)
  have e: "entry s' q = entry s q" if "pdx q \<noteq> 1023" for q
  proof (cases "pdx q = pdx page")
    case True
    then show ?thesis using absent by (simp add: entry_def d) (simp add: s'_def)
  next
    case False
    then show ?thesis
      using that fresh [of "pdx q"] table_not_dir [OF wf, of "pdx q"]
      by (simp add: entry_def d) (auto simp: s'_def)
  qed
  show thesis
    by (rule that [OF _ wf' d e s'_def]) (simp_all add: s'_def page_touch_absent [OF wf absent new fresh])
qed

section \<open>Page tables and the frame allocator together\<close>

text \<open>No free frame is in use as a table of the current address space.\<close>

definition vm_rel :: "'a frame_state_scheme \<Rightarrow> u32 list \<Rightarrow> (u32 \<rightharpoonup> u32) \<Rightarrow> bool" where
  "vm_rel s F R \<longleftrightarrow>
     space_wf s \<and> frame_rel s F R \<and> \<not> out_of_memory s \<and>
     (\<forall>i. bit (dir s i) 0 \<longrightarrow> ucast (frame_of (dir s i)) \<notin> set F)"

text \<open>A page that can be given an entry: its table exists, or there is a frame for it.\<close>

definition has_room :: "'a frame_state_scheme \<Rightarrow> u32 \<Rightarrow> u32 list \<Rightarrow> bool" where
  "has_room s page F \<longleftrightarrow> bit (dir s (pdx page)) 0 \<or> F \<noteq> []"

lemma frame_rel_pmem [simp]: "frame_rel (s\<lparr>pmem := m\<rparr>) F R = frame_rel s F R"
  by (simp add: frame_rel_def frame_wf_def)

lemma frame_rel_pmem_upd [simp]: "frame_rel (pmem_upd f i v s) F R = frame_rel s F R"
  by (simp add: pmem_upd_def)

lemma out_of_memory_pmem_upd [simp]: "out_of_memory (pmem_upd f i v s) = out_of_memory s"
  by (simp add: pmem_upd_def)

lemma frame_number:
  assumes "unat a < 1048576"
  shows "ucast (frame_of (a * PAGESZ)) = a"
proof -
  have "unat (a * PAGESZ) = unat a * 4096" using assms by (simp add: unat_word_ariths)
  then show ?thesis
    using assms unat_less_u32 [of a]
    by (simp add: word_unat_eq_iff unsigned_ucast_eq take_bit_eq_mod unat_frame_of)
qed

lemma page_set_present_vm:
  assumes vm: "vm_rel s F R" and p: "bit (dir s (pdx page)) 0" "pdx page \<noteq> 1023"
  obtains s' where "page_set page v s = Ok s'" and "vm_rel s' F R" and "dir s' = dir s"
    and "\<And>q. entry s' q = (if frame_of q = frame_of page then v else entry s q)"
proof -
  have wf: "space_wf s" using vm by (simp add: vm_rel_def)
  have nd: "frame_of (dir s (pdx page)) \<noteq> frame_of (cr3 s)" by (rule table_not_dir [OF wf p])
  show thesis
    by (rule that [OF page_set_present [OF wf p(1)]])
      (use vm nd in \<open>simp_all add: vm_rel_def entry_upd_table [OF wf p]\<close>)
qed

lemma page_touch_vm:
  assumes vm: "vm_rel s (a # F) R" and absent: "\<not> bit (dir s (pdx page)) 0"
  obtains s' where "page_touch page s = Ok s'" and "vm_rel s' F (R(a \<mapsto> 1))" and "bit (dir s' (pdx page)) 0"
    and "\<And>q. pdx q \<noteq> 1023 \<Longrightarrow> entry s' q = entry s q"
    and "\<And>i. bit (dir s i) 0 \<Longrightarrow> bit (dir s' i) 0"
proof -
  have wf: "space_wf s" and rel: "frame_rel s (a # F) R" and ready: "\<not> out_of_memory s"
    and tables: "\<And>i. bit (dir s i) 0 \<Longrightarrow> ucast (frame_of (dir s i)) \<notin> set (a # F)"
    using vm unfolding vm_rel_def by blast+
  obtain s1 where s1: "frame_new s = Ok (a * PAGESZ, s1)" "frame_rel s1 F (R(a \<mapsto> 1))" "\<not> out_of_memory s1"
    using frames.new [OF rel ready] by blast
  have a: "ucast (frame_of (a * PAGESZ)) = a"
    by (rule frame_number [OF frames.numbers [OF rel]]) simp
  have fresh: "frame_of (dir s i) \<noteq> frame_of (a * PAGESZ)" if "bit (dir s i) 0" for i
    using tables [OF that] a by (metis list.set_intros(1))
  obtain s' m where s': "page_touch page s = Ok s'" "space_wf s'" "dir s' = (dir s)(pdx page := a * PAGESZ OR 7)"
    "\<And>q. pdx q \<noteq> 1023 \<Longrightarrow> entry s' q = entry s q" "s' = s1\<lparr>pmem := m\<rparr>"
    using page_touch_new [OF wf absent s1(1) fresh] by metis
  have "frame_rel s' F (R(a \<mapsto> 1))" "\<not> out_of_memory s'"
    using s1(2,3) by (simp_all add: s'(5))
  moreover have "a \<notin> set F" using frame_rel_free_unused(1) [OF rel] by simp
  ultimately have "vm_rel s' F (R(a \<mapsto> 1))"
    using s'(2) tables a by (auto simp: vm_rel_def s'(3))
  then show thesis using that s' by simp
qed

lemma page_set_vm:
  assumes vm: "vm_rel s F R" and p: "pdx page \<noteq> 1023" and room: "has_room s page F"
  obtains s' F' R' where "page_set page v s = Ok s'" and "vm_rel s' F' R'" and "has_room s' page F'"
    and "\<And>q. pdx q \<noteq> 1023 \<Longrightarrow> entry s' q = (if frame_of q = frame_of page then v else entry s q)"
    and "F' = F \<or> F' = tl F"
proof (cases "bit (dir s (pdx page)) 0")
  case True
  show thesis
    by (rule page_set_present_vm [OF vm True p, of v], rule that)
      (use True in \<open>auto simp: has_room_def\<close>)
next
  case False
  then obtain a F' where F: "F = a # F'" using room by (cases F) (auto simp: has_room_def)
  obtain s1 where s1: "page_touch page s = Ok s1" "vm_rel s1 F' (R(a \<mapsto> 1))" "bit (dir s1 (pdx page)) 0"
    "\<And>q. pdx q \<noteq> 1023 \<Longrightarrow> entry s1 q = entry s q"
    using page_touch_vm [OF vm [unfolded F] False] by metis
  obtain s' where s': "page_set page v s1 = Ok s'" "vm_rel s' F' (R(a \<mapsto> 1))" "dir s' = dir s1"
    "\<And>q. entry s' q = (if frame_of q = frame_of page then v else entry s1 q)"
    using page_set_present_vm [OF s1(2,3) p, of v] by metis
  have wf: "space_wf s" "space_wf s1" using vm s1(2) by (simp_all add: vm_rel_def)
  have "page_set page v s = page_set page v s1"
    using False s1(1,3) by (simp add: page_set_def vread_cmap wf and_one_zero_iff)
  then show thesis
    using s' s1(3,4) by (intro that [of s' F' "R(a \<mapsto> 1)"]) (simp_all add: has_room_def F)
qed

section \<open>The interface of the page tables\<close>

text \<open>
  A map from pages to 32-bit entries. \<open>ok\<close> marks the pages outside of the window itself and
  \<open>room\<close> those whose entry can be written.
\<close>

locale page_map =
  fixes inv :: "'s \<Rightarrow> bool"
    and ok :: "u32 \<Rightarrow> bool"
    and room :: "'s \<Rightarrow> u32 \<Rightarrow> bool"
    and get :: "u32 \<Rightarrow> 's \<Rightarrow> u32 outcome"
    and set :: "u32 \<Rightarrow> u32 \<Rightarrow> 's \<Rightarrow> 's outcome"
  assumes get_ok: "inv s \<Longrightarrow> \<exists>v. get p s = Ok v"
    and set_ok: "inv s \<Longrightarrow> ok p \<Longrightarrow> room s p \<Longrightarrow> \<exists>s'. set p v s = Ok s' \<and> inv s' \<and> room s' p"
    and get_set_same: "inv s \<Longrightarrow> ok p \<Longrightarrow> room s p \<Longrightarrow> set p v s = Ok s' \<Longrightarrow> get p s' = Ok v"
    and get_set_other: "inv s \<Longrightarrow> ok p \<Longrightarrow> room s p \<Longrightarrow> set p v s = Ok s' \<Longrightarrow>
      ok q \<Longrightarrow> frame_of q \<noteq> frame_of p \<Longrightarrow> get q s' = get q s"
begin

lemma get_after_modify:
  assumes "inv s" and "ok p" and "room s p" and "get p s = Ok e"
  shows "\<exists>s'. and_then (get p s) (\<lambda>e. set p (g e) s) = Ok s' \<and> inv s' \<and> room s' p \<and> get p s' = Ok (g e) \<and>
    (\<forall>q. ok q \<longrightarrow> frame_of q \<noteq> frame_of p \<longrightarrow> get q s' = get q s)"
proof -
  obtain s' where s': "set p (g e) s = Ok s'" "inv s'" "room s' p"
    using set_ok [OF assms(1-3)] by blast
  then show ?thesis
    using assms get_set_same [OF assms(1-3) s'(1)] get_set_other [OF assms(1-3) s'(1)] by simp
qed

lemma last_set_wins:
  assumes "inv s" and "ok p" and "room s p"
  shows "\<exists>s'. and_then (set p v s) (set p w) = Ok s' \<and> inv s' \<and> get p s' = Ok w"
proof -
  obtain s1 where s1: "set p v s = Ok s1" "inv s1" "room s1 p" using set_ok [OF assms] by blast
  obtain s2 where s2: "set p w s1 = Ok s2" "inv s2"
    using set_ok [OF s1(2) assms(2) s1(3)] by blast
  show ?thesis using s1(1) s2 get_set_same [OF s1(2) assms(2) s1(3) s2(1)] by simp
qed

end

definition vm_inv :: "'a frame_state_scheme \<Rightarrow> bool" where
  "vm_inv s \<longleftrightarrow> (\<exists>F R. vm_rel s F R)"

definition vm_room :: "'a frame_state_scheme \<Rightarrow> u32 \<Rightarrow> bool" where
  "vm_room s page \<longleftrightarrow> (\<exists>F R. vm_rel s F R \<and> has_room s page F)"

definition outside_window :: "u32 \<Rightarrow> bool" where
  "outside_window page \<longleftrightarrow> pdx page \<noteq> 1023"

lemma vm_inv_wf: "vm_inv s \<Longrightarrow> space_wf s"
  by (auto simp: vm_inv_def vm_rel_def)

lemma page_set_map:
  assumes "vm_room s page" and "pdx page \<noteq> 1023"
  obtains s' where "page_set page v s = Ok s'" and "vm_inv s'" and "vm_room s' page"
    and "\<And>q. pdx q \<noteq> 1023 \<Longrightarrow> entry s' q = (if frame_of q = frame_of page then v else entry s q)"
proof -
  obtain F R where "vm_rel s F R" "has_room s page F" using assms(1) by (auto simp: vm_room_def)
  then show thesis
    using page_set_vm [OF _ assms(2), of s F R v] that unfolding vm_inv_def vm_room_def by metis
qed

interpretation pages: page_map vm_inv outside_window vm_room page_get page_set
proof
  fix s :: "'a frame_state_scheme" and p q v s'
  show "\<exists>v. page_get p s = Ok v" if "vm_inv s"
    using page_get_entry [OF vm_inv_wf [OF that]] by blast
  show "\<exists>s'. page_set p v s = Ok s' \<and> vm_inv s' \<and> vm_room s' p"
    if "vm_inv s" "outside_window p" "vm_room s p"
    using page_set_map [OF that(3)] that(2) unfolding outside_window_def by metis
  show "page_get p s' = Ok v" if "vm_inv s" "outside_window p" "vm_room s p" "page_set p v s = Ok s'"
    using page_set_map [OF that(3), of v] that(2,4) page_get_entry [OF vm_inv_wf]
    unfolding outside_window_def by (metis outcome.inject(1))
  show "page_get q s' = page_get q s"
    if "vm_inv s" "outside_window p" "vm_room s p" "page_set p v s = Ok s'" "outside_window q"
      "frame_of q \<noteq> frame_of p"
    using page_set_map [OF that(3), of v] that page_get_entry [OF vm_inv_wf]
    unfolding outside_window_def by (metis outcome.inject(1))
qed

section \<open>Entries: frame and flags\<close>

lemma page_ufmt_fmt [simp]: "page_ufmt (page_fmt base flags) = page_ufmt base"
  by (simp add: page_ufmt_def page_fmt_def bit.conj_disj_distrib2 and.assoc)

lemma page_flags_fmt [simp]: "page_fmt base flags AND PF_MASK = flags AND PF_MASK"
  by (simp add: page_fmt_def bit.conj_disj_distrib2 and.assoc)

lemma page_ufmt_idem [simp]: "page_ufmt (page_ufmt e) = page_ufmt e"
  by (simp add: page_ufmt_def and.assoc)

section \<open>Properties\<close>

text \<open>The example state of the allocator has the directory in frame 1 and one table in frame 2.\<close>

lemma demo_dir: "dir demo_frames i = (if i = 1023 then 0x1003 else if i = 0 then 0x2003 else 0)"
  by (simp add: dir_def demo_frames_def frame_of_def)

lemma demo_vm: "vm_rel demo_frames [7, 8] Map.empty"
proof -
  have "bit (0x1003 :: u32) 0" "bit (0x2003 :: u32) 0"
    "frame_of 0x1003 = 1" "frame_of 0x2003 = 2" "frame_of (cr3 demo_frames) = 1"
    by (simp_all add: frame_of_def demo_frames_def bit_0)
  then show ?thesis using demo_frames_rel by (auto simp: vm_rel_def space_wf_def demo_dir split: if_splits)
qed

lemma demo_vm_inv: "vm_inv demo_frames" "vm_room demo_frames page" "outside_window 0x3000" "outside_window 0x400000"
proof -
  show "vm_inv demo_frames" "vm_room demo_frames page"
    using demo_vm unfolding vm_inv_def vm_room_def has_room_def by blast+
qed (simp_all add: outside_window_def pdx_def)

text \<open>
  C5: The page tables, written and read through the recursive window and the address translation, behave as a map:
  after \<open>page_set\<close> the page has the given entry and every other page the entry it had, also when \<open>page_set\<close> had to
  create the table. The pages are those outside the window itself, and a frame for the table is free when it is needed.
\<close>

theorem page_set_get:
  "vm_inv s \<Longrightarrow> outside_window p \<Longrightarrow> vm_room s p \<Longrightarrow>
   \<exists>s'. page_set p v s = Ok s' \<and> vm_inv s' \<and> page_get p s' = Ok v \<and>
     (\<forall>q. outside_window q \<longrightarrow> frame_of q \<noteq> frame_of p \<longrightarrow> page_get q s' = page_get q s)"
  using pages.set_ok [of s p v] pages.get_set_same [of s p v] pages.get_set_other [of s p v] by metis

theorem page_set_get_witness:
  "\<exists>s'. page_set 0x400000 0x9003 demo_frames = Ok s' \<and> vm_inv s' \<and> page_get 0x400000 s' = Ok 0x9003 \<and>
     page_get 0x3000 s' = page_get 0x3000 demo_frames"
proof -
  have "frame_of 0x3000 \<noteq> frame_of 0x400000" by (simp add: frame_of_def)
  then show ?thesis
    using page_set_get [OF demo_vm_inv(1) demo_vm_inv(4) demo_vm_inv(2), of "0x9003"] demo_vm_inv(3) by blast
qed

end
