(* ===== verification/Bytes.thy ===== *)
theory Bytes
  imports Page
begin

text \<open>
  Memory as a map from byte locations to bytes. The kernel moves data with \<open>memcpy\<close>, \<open>memclr\<close> and
  stores of single bytes, all of which go through the translation of the machine. As long as the
  bytes that are written do not belong to a page table, the translation stays what it was and each
  of these routines is an update of the bytes at the locations of its destination.
\<close>

section \<open>Locations\<close>

type_synonym location = "20 word \<times> 10 word \<times> 2 word"

text \<open>The location that a virtual address is translated to, and the byte that is kept there.\<close>

definition loc :: "'a machine_scheme \<Rightarrow> u32 \<Rightarrow> location outcome" where
  "loc s va = and_then (mmu_walk s va) (\<lambda>(f, i). Ok (f, i, ucast va))"

definition mem_at :: "'a machine_scheme \<Rightarrow> location \<Rightarrow> u8" where
  "mem_at s l = (case l of (f, i, k) \<Rightarrow> get_lane (8 * unat k) (pmem s f i))"

text \<open>The frames that the translation itself depends on.\<close>

definition table_frames :: "'a machine_scheme \<Rightarrow> (20 word) set" where
  "table_frames s = insert (frame_of (cr3 s)) {frame_of (dir s i) | i. bit (dir s i) 0}"

lemma byte_lane_ucast: "byte_lane va = 8 * unat (ucast va :: 2 word)"
  by (simp add: byte_lane_def unsigned_ucast_eq take_bit_eq_mod)

lemma vread8_loc: "vread8 va s = and_then (loc s va) (\<lambda>l. Ok (mem_at s l))"
  by (cases "mmu_walk s va") (auto simp: vread8_def loc_def mem_at_def byte_lane_ucast)

lemma get_set_lanes:
  "get_lane (8 * unat (k :: 2 word)) (set_lane (8 * unat j) b w) = (if j = k then b else get_lane (8 * unat k) w)"
proof -
  have lane: "byte_lane (ucast m :: u32) = 8 * unat m" for m :: "2 word"
  proof -
    have "unat m < 4" using unsigned_less [of m] by simp
    then show ?thesis by (simp add: byte_lane_def unsigned_ucast_eq take_bit_eq_mod)
  qed
  have "byte_lane (ucast k :: u32) = byte_lane (ucast j :: u32) \<longleftrightarrow> j = k"
    by (auto simp: lane word_unat_eq_iff)
  then show ?thesis
    using get_set_lane [of "ucast k" b w] get_set_lane_other [of "ucast k" "ucast j" b w]
    by (cases "j = k") (auto simp: lane)
qed

lemma mem_at_pmem [simp]: "mem_at (s\<lparr>pmem := pmem s'\<rparr>) = mem_at s'"
  by (simp add: fun_eq_iff mem_at_def)

section \<open>Writing data\<close>

lemma walk_data:
  assumes "f \<notin> table_frames s"
  shows "mmu_walk (pmem_upd f i v s) va = mmu_walk s va"
proof -
  have c: "frame_of (cr3 s) \<noteq> f" using assms by (auto simp: table_frames_def)
  have d: "pde_of (pmem_upd f i v s) va = pde_of s va" using c by (simp add: pde_of_def)
  show ?thesis
  proof (cases "bit (pde_of s va) 0")
    case True
    then have "frame_of (pde_of s va) \<noteq> f"
      using assms by (auto simp: table_frames_def dir_def pde_of_def)
    then have "pte_of (pmem_upd f i v s) va = pte_of s va" by (simp add: pte_of_def d)
    then show ?thesis by (simp add: mmu_walk_def d)
  qed (simp add: mmu_walk_def d and_one_zero_iff)
qed

lemma table_frames_data: "f \<notin> table_frames s \<Longrightarrow> table_frames (pmem_upd f i v s) = table_frames s"
  by (simp add: table_frames_def)

lemma store_data:
  assumes "loc s va = Ok l" and "fst l \<notin> table_frames s"
  obtains s' where "vwrite8 va b s = Ok s'" and "mem_at s' = (mem_at s)(l := b)" and "loc s' = loc s"
    and "table_frames s' = table_frames s" and "s' = s\<lparr>pmem := pmem s'\<rparr>"
proof -
  obtain f i where w: "mmu_walk s va = Ok (f, i)" and l: "l = (f, i, ucast va)"
    using assms(1) by (cases "mmu_walk s va") (auto simp: loc_def)
  let ?s = "pmem_upd f i (set_lane (byte_lane va) b (pmem s f i)) s"
  have f: "f \<notin> table_frames s" using assms(2) l by simp
  show thesis
  proof (rule that)
    show "vwrite8 va b s = Ok ?s" using w by (simp add: vwrite8_def)
    show "mem_at ?s = (mem_at s)(l := b)"
      by (auto simp: fun_eq_iff mem_at_def l byte_lane_ucast get_set_lanes)
    show "loc ?s = loc s" using f by (simp add: fun_eq_iff loc_def walk_data)
    show "table_frames ?s = table_frames s" using f by (rule table_frames_data)
    show "?s = s\<lparr>pmem := pmem ?s\<rparr>" by (simp add: pmem_upd_def)
  qed
qed

section \<open>Runs of bytes\<close>

text \<open>The bytes from \<open>p\<close> on are at the locations \<open>ls\<close>; those of a writable run hold data.\<close>

primrec readable :: "'a machine_scheme \<Rightarrow> u32 \<Rightarrow> location list \<Rightarrow> bool" where
  "readable s p [] = True"
| "readable s p (l # ls) = (loc s p = Ok l \<and> readable s (p + 1) ls)"

definition writable :: "'a machine_scheme \<Rightarrow> u32 \<Rightarrow> location list \<Rightarrow> bool" where
  "writable s p ls \<longleftrightarrow> readable s p ls \<and> distinct ls \<and> fst ` set ls \<inter> table_frames s = {}"

lemma readable_cong: "loc s' = loc s \<Longrightarrow> readable s' p ls = readable s p ls"
  by (induction ls arbitrary: p) auto

lemma readable_append: "readable s p (ks @ ls) \<longleftrightarrow> readable s p ks \<and> readable s (p + of_nat (length ks)) ls"
  by (induction ks arbitrary: p) (auto simp: add.assoc)

lemma load_readable: "readable s p ls \<Longrightarrow> load_bytes p (length ls) s = Ok (map (mem_at s) ls)"
  by (induction ls arbitrary: p) (auto simp: vread8_loc)

text \<open>
  What a routine that only writes the locations \<open>ls\<close> leaves alone: every other byte, the
  translation, and the rest of the state.
\<close>

definition writes :: "location set \<Rightarrow> 'a machine_scheme \<Rightarrow> 'a machine_scheme \<Rightarrow> bool" where
  "writes L s s' \<longleftrightarrow> (\<forall>l. l \<notin> L \<longrightarrow> mem_at s' l = mem_at s l) \<and> loc s' = loc s \<and>
     table_frames s' = table_frames s \<and> s' = s\<lparr>pmem := pmem s'\<rparr>"

lemma writes_refl: "writes L s s"
  by (simp add: writes_def)

lemma pmem_again: "s' = s\<lparr>pmem := m\<rparr> \<Longrightarrow> t = s'\<lparr>pmem := n\<rparr> \<Longrightarrow> t = s\<lparr>pmem := n\<rparr>"
  by simp

lemma writes_trans: "writes L s s' \<Longrightarrow> writes M s' t \<Longrightarrow> writes (L \<union> M) s t"
  unfolding writes_def by (metis Un_iff pmem_again)

lemma writes_mono: "writes L s s' \<Longrightarrow> L \<subseteq> M \<Longrightarrow> writes M s s'"
  by (auto simp: writes_def)

lemma writes_at: "writes L s s' \<Longrightarrow> l \<notin> L \<Longrightarrow> mem_at s' l = mem_at s l"
  unfolding writes_def by blast

lemma writes_readable: "writes L s s' \<Longrightarrow> readable s' p ls = readable s p ls"
  unfolding writes_def by (blast intro: readable_cong [THEN iffD1] readable_cong [THEN iffD2])

lemma writes_writable: "writes L s s' \<Longrightarrow> writable s' p ls = writable s p ls"
  using writes_readable [of L s s' p ls] by (simp add: writable_def writes_def)

lemma writes_kept: "writes L s s' \<Longrightarrow> set ks \<inter> L = {} \<Longrightarrow> map (mem_at s') ks = map (mem_at s) ks"
  by (auto simp: writes_def)

lemma store_step:
  assumes "writable s p (l # ls)"
  obtains s' where "vwrite8 p b s = Ok s'" and "mem_at s' = (mem_at s)(l := b)" and "writes {l} s s'"
    and "writable s' (p + 1) ls" and "l \<notin> set ls"
proof -
  have l: "loc s p = Ok l" "fst l \<notin> table_frames s" using assms by (auto simp: writable_def)
  obtain s' where s': "vwrite8 p b s = Ok s'" "mem_at s' = (mem_at s)(l := b)" "loc s' = loc s"
    "table_frames s' = table_frames s" "s' = s\<lparr>pmem := pmem s'\<rparr>"
    using store_data [OF l, of b] by metis
  then have w: "writes {l} s s'" by (simp add: writes_def)
  moreover have "writable s (p + 1) ls" "l \<notin> set ls" using assms by (auto simp: writable_def)
  ultimately show thesis using that [OF s'(1,2) w] writes_writable [OF w] by blast
qed

lemma store_bytes_writable:
  assumes "writable s p ls" and "length bs = length ls"
  shows "\<exists>s'. store_bytes p bs s = Ok s' \<and> map (mem_at s') ls = bs \<and> writes (set ls) s s'"
  using assms(2,1)
proof (induction bs ls arbitrary: p s rule: list_induct2)
  case Nil
  then show ?case by (simp add: writes_refl)
next
  case (Cons b bs l ls)
  obtain s1 where s1: "vwrite8 p b s = Ok s1" "mem_at s1 = (mem_at s)(l := b)" "writes {l} s s1"
    "writable s1 (p + 1) ls" "l \<notin> set ls"
    using store_step [OF Cons.prems] .
  obtain s' where s': "store_bytes (p + 1) bs s1 = Ok s'" "map (mem_at s') ls = bs" "writes (set ls) s1 s'"
    using Cons.IH [OF s1(4)] by blast
  have "mem_at s' l = b" using writes_at [OF s'(3) s1(5)] s1(2) by simp
  then show ?case using s1(1) s' writes_trans [OF s1(3) s'(3)] by simp
qed

lemma memclr_writable:
  assumes "writable s p ls"
  shows "\<exists>s'. memclr p (length ls) s = Ok s' \<and> (\<forall>l\<in>set ls. mem_at s' l = 0) \<and> writes (set ls) s s'"
  using assms
proof (induction ls arbitrary: p s)
  case Nil
  then show ?case by (simp add: writes_refl)
next
  case (Cons l ls)
  obtain s1 where s1: "vwrite8 p 0 s = Ok s1" "mem_at s1 = (mem_at s)(l := 0)" "writes {l} s s1"
    "writable s1 (p + 1) ls" "l \<notin> set ls"
    using store_step [OF Cons.prems] .
  obtain s' where s': "memclr (p + 1) (length ls) s1 = Ok s'" "\<forall>l\<in>set ls. mem_at s' l = 0" "writes (set ls) s1 s'"
    using Cons.IH [OF s1(4)] by blast
  have "mem_at s' l = 0" using writes_at [OF s'(3) s1(5)] s1(2) by simp
  then show ?case using s1(1) s' writes_trans [OF s1(3) s'(3)] by simp
qed

lemma memcpy_writable:
  assumes "writable s d ds" and "readable s p ps" and "length ps = length ds" and "set ps \<inter> set ds = {}"
  shows "\<exists>s'. memcpy d p (length ds) s = Ok s' \<and> map (mem_at s') ds = map (mem_at s) ps \<and> writes (set ds) s s'"
  using assms(3,1,2,4)
proof (induction ps ds arbitrary: d p s rule: list_induct2)
  case Nil
  then show ?case by (simp add: writes_refl)
next
  case (Cons q ps l ds)
  obtain s1 where s1: "vwrite8 d (mem_at s q) s = Ok s1" "mem_at s1 = (mem_at s)(l := mem_at s q)" "writes {l} s s1"
    "writable s1 (d + 1) ds" "l \<notin> set ds"
    using store_step [OF Cons.prems(1)] .
  have "readable s1 (p + 1) ps" "set ps \<inter> set ds = {}"
    using Cons.prems writes_readable [OF s1(3)] by auto
  then obtain s' where s': "memcpy (d + 1) (p + 1) (length ds) s1 = Ok s'"
    "map (mem_at s') ds = map (mem_at s1) ps" "writes (set ds) s1 s'"
    using Cons.IH [OF s1(4)] by blast
  have "map (mem_at s1) ps = map (mem_at s) ps" using writes_kept [OF s1(3)] Cons.prems by auto
  moreover have "mem_at s' l = mem_at s q" using writes_at [OF s'(3) s1(5)] s1(2) by simp
  moreover have "vread8 p s = Ok (mem_at s q)" using Cons.prems by (simp add: vread8_loc)
  ultimately show ?case using s1(1) s' writes_trans [OF s1(3) s'(3)] by simp
qed

section \<open>Words\<close>

lemma bytes_word_word_bytes [simp]: "bytes_word (word_bytes w) = w"
  by (rule bit_word_eqI) (auto simp: bytes_word_def word_bytes_def bit_set_lane bit_get_lane)

lemma length_word_bytes [simp]: "length (word_bytes w) = 4"
  by (simp add: word_bytes_def)

lemma store32_writable:
  assumes "writable s p ls" and "length ls = 4"
  shows "\<exists>s'. store32 p w s = Ok s' \<and> map (mem_at s') ls = word_bytes w \<and> writes (set ls) s s'"
  using store_bytes_writable [OF assms(1), of "word_bytes w"] assms(2) by (simp add: store32_def)

lemma load32_readable: "readable s p ls \<Longrightarrow> length ls = 4 \<Longrightarrow> load32 p s = Ok (bytes_word (map (mem_at s) ls))"
  using load_readable [of s p ls] by (simp add: load32_def)

lemma writable_parts:
  assumes "writable s p (ks @ ls)"
  shows "writable s p ks" and "writable s (p + of_nat (length ks)) ls" and "set ks \<inter> set ls = {}"
  using assms by (auto simp: writable_def readable_append)

section \<open>Copying\<close>

lemma demo_loc: "frame_of va = 3 \<Longrightarrow> loc demo_frames va = Ok (5, widx va, ucast va)"
proof -
  assume a: "frame_of va = 3"
  have d: "unat va div 4096 = 3" using a by (simp add: word_unat_eq_iff unat_frame_of)
  then have "unat va div 4096 div 1024 = 0" by simp
  then have "pdx va = 0" "ptx va = 3"
    using d by (simp_all add: word_unat_eq_iff unat_pdx unat_ptx flip: div_mult2_eq)
  then show ?thesis
    by (simp add: loc_def mmu_walk_def pde_of_def pte_of_def demo_frames_def frame_of_def)
qed

lemma demo_tables: "table_frames demo_frames = {1, 2}"
proof -
  have "bit (dir demo_frames i) 0 \<longleftrightarrow> i = 0 \<or> i = 1023" for i
    by (simp add: demo_dir bit_0)
  then show ?thesis by (auto simp: table_frames_def demo_dir) (simp_all add: demo_frames_def frame_of_def)
qed

text \<open>
  C28: \<open>memcpy\<close> copies: when the destination is mapped to data, at locations that are distinct and apart from those of
  the source, the call returns, the destination holds the bytes of the source, and every address
  that is not an alias of the destination reads as before, the source included.
\<close>

theorem memcpy_copies:
  assumes "writable s d ds" and "readable s p ps" and "length ds = n" and "length ps = n" and "set ps \<inter> set ds = {}"
  shows "\<exists>s'. memcpy d p n s = Ok s' \<and> load_bytes d n s' = load_bytes p n s \<and>
    (\<forall>q. loc s q \<notin> Ok ` set ds \<longrightarrow> vread8 q s' = vread8 q s)"
proof -
  obtain s' where s': "memcpy d p n s = Ok s'" "map (mem_at s') ds = map (mem_at s) ps" "writes (set ds) s s'"
    using memcpy_writable [OF assms(1,2)] assms(3-5) by auto
  have "readable s' d ds" using assms(1) writes_readable [OF s'(3)] by (simp add: writable_def)
  then have "load_bytes d n s' = load_bytes p n s"
    using load_readable [of s' d ds] load_readable [OF assms(2)] assms(3,4) s'(2) by simp
  moreover have "vread8 q s' = vread8 q s" if "loc s q \<notin> Ok ` set ds" for q
  proof -
    have "loc s' q = loc s q" using s'(3) unfolding writes_def by metis
    then show ?thesis using that writes_at [OF s'(3)] by (cases "loc s q") (auto simp: vread8_loc)
  qed
  ultimately show ?thesis using s'(1) by blast
qed

theorem memcpy_copies_witness:
  "\<exists>s'. memcpy 0x3010 0x3002 4 demo_frames = Ok s' \<and>
     load_bytes 0x3010 4 s' = load_bytes 0x3002 4 demo_frames \<and>
     vread8 0x3005 s' = vread8 0x3005 demo_frames"
proof -
  let ?ds = "[(5, 4, 0), (5, 4, 1), (5, 4, 2), (5, 4, 3)] :: location list"
  let ?ps = "[(5, 0, 2), (5, 0, 3), (5, 1, 0), (5, 1, 1)] :: location list"
  have l: "loc demo_frames 0x3005 = Ok (5, 1, 1)" by (simp add: demo_loc frame_of_def widx_def)
  have "\<exists>s'. memcpy 0x3010 0x3002 4 demo_frames = Ok s' \<and>
     load_bytes 0x3010 4 s' = load_bytes 0x3002 4 demo_frames \<and>
     (\<forall>q. loc demo_frames q \<notin> Ok ` set ?ds \<longrightarrow> vread8 q s' = vread8 q demo_frames)"
  proof (rule memcpy_copies)
    show "writable demo_frames 0x3010 ?ds"
      by (simp add: writable_def demo_loc demo_tables frame_of_def widx_def)
    show "readable demo_frames 0x3002 ?ps"
      by (simp add: demo_loc frame_of_def widx_def)
  qed simp_all
  with l show ?thesis by auto
qed

end
