(* ===== verification/Mem.thy ===== *)
theory Mem
  imports Bytes
begin

text \<open>
  What \<open>mem_alloc\<close> (\<open>src/kernel/mem.c\<close>) promises: every page of the range that had no entry gets a
  frame of its own with the wanted flags, a page that had one keeps it, and pages outside of the
  range are not touched. A page needs at most two frames, one of them for its table.
\<close>

section \<open>One page\<close>

lemma frame_new_vm:
  assumes "vm_rel s (a # F) R"
  obtains s' where "frame_new s = Ok (a * PAGESZ, s')" and "vm_rel s' F (R(a \<mapsto> 1))" and "entry s' = entry s" and "dir s' = dir s"
proof -
  obtain s' where s': "frame_new s = Ok (a * PAGESZ, s')" "frame_rel s' F (R(a \<mapsto> 1))" "\<not> out_of_memory s'"
    using frame_new_implements [of s a F R] assms by (auto simp: vm_rel_def)
  note same = frame_new_machine [OF s'(1)]
  have d: "dir s' = dir s" by (simp add: fun_eq_iff dir_def same)
  have e: "entry s' = entry s" by (simp add: fun_eq_iff entry_def d same)
  have "vm_rel s' F (R(a \<mapsto> 1))" using assms s' by (auto simp: vm_rel_def space_wf_def d same)
  with s'(1) e d show thesis using that by blast
qed

lemma bit_page_fmt_0: "bit (page_fmt f ((flags AND PF_MASK) OR PF_PRES)) 0"
  unfolding page_fmt_def bit_or_iff bit_and_iff by simp

definition alloc_entry :: "u32 \<Rightarrow> u32 \<Rightarrow> u32" where
  "alloc_entry f flags = page_fmt f ((flags AND PF_MASK) OR PF_PRES)"

text \<open>The body of the loop of \<open>mem_alloc\<close>.\<close>

definition alloc_page :: "u32 \<Rightarrow> u32 \<Rightarrow> 'a frame_state_scheme \<Rightarrow> 'a frame_state_scheme outcome" where
  "alloc_page i flags s =
     and_then (page_get i s) (\<lambda>e.
       if e AND PF_PRES = 0 then and_then (frame_new s) (\<lambda>(f, s). page_set i (alloc_entry f flags) s) else Ok s)"

lemma mem_alloc_loop_unfold:
  "mem_alloc_loop i limit flags s =
     (if i < limit then and_then (alloc_page i flags s) (\<lambda>s. if i + 0x1000 < i then Stop Diverge
        else mem_alloc_loop (i + 0x1000) limit flags s) else Ok s)"
  unfolding alloc_page_def alloc_entry_def by (subst mem_alloc_loop.simps) simp

lemma alloc_page_vm:
  assumes vm: "vm_rel s F R" and p: "pdx i \<noteq> 1023" and room: "2 \<le> length F"
  obtains s' F' R' f where "alloc_page i flags s = Ok s'" and "vm_rel s' F' R'" and "length F \<le> length F' + 2"
    and "\<And>q. pdx q \<noteq> 1023 \<Longrightarrow>
      entry s' q = (if frame_of q = frame_of i \<and> \<not> bit (entry s i) 0 then alloc_entry f flags else entry s q)"
proof (cases "bit (entry s i) 0")
  case True
  have "alloc_page i flags s = Ok s"
    using True vm by (simp add: alloc_page_def page_get_entry vm_rel_def and_one_zero_iff)
  with True vm that show thesis by simp
next
  case False
  obtain a F1 where F: "F = a # F1" and F1: "F1 \<noteq> []" using room by (cases F; cases "tl F") auto
  obtain s1 where s1: "frame_new s = Ok (a * PAGESZ, s1)" "vm_rel s1 F1 (R(a \<mapsto> 1))" "entry s1 = entry s"
    using frame_new_vm [OF vm [unfolded F]] by metis
  have room: "has_room s1 i F1" using F1 by (simp add: has_room_def)
  show thesis
  proof (rule page_set_vm [OF s1(2) p room, of "alloc_entry (a * PAGESZ) flags"])
    fix s' F' R'
    assume s': "page_set i (alloc_entry (a * PAGESZ) flags) s1 = Ok s'" "vm_rel s' F' R'"
      "\<And>q. pdx q \<noteq> 1023 \<Longrightarrow> entry s' q = (if frame_of q = frame_of i then alloc_entry (a * PAGESZ) flags else entry s1 q)"
      "F' = F1 \<or> F' = tl F1"
    show thesis
    proof (rule that)
      show "alloc_page i flags s = Ok s'"
        using False vm s1(1) s'(1) by (simp add: alloc_page_def page_get_entry vm_rel_def and_one_zero_iff)
      show "length F \<le> length F' + 2" using s'(4) F by auto
      show "entry s' q = (if frame_of q = frame_of i \<and> \<not> bit (entry s i) 0 then alloc_entry (a * PAGESZ) flags else entry s q)"
        if "pdx q \<noteq> 1023" for q using s'(3) [OF that] False s1(3) by simp
    qed (rule s'(2))
  qed
qed

section \<open>The loop\<close>

text \<open>The pages from \<open>i\<close> up to \<open>limit\<close>, by their numbers.\<close>

definition page_between :: "u32 \<Rightarrow> nat \<Rightarrow> u32 \<Rightarrow> bool" where
  "page_between i limit q \<longleftrightarrow> unat i div 4096 \<le> unat q div 4096 \<and> 4096 * (unat q div 4096) < limit"

definition allocates :: "(u32 \<Rightarrow> bool) \<Rightarrow> u32 \<Rightarrow> 'a machine_scheme \<Rightarrow> 'a machine_scheme \<Rightarrow> bool" where
  "allocates P flags s s' \<longleftrightarrow>
     (\<forall>q. pdx q \<noteq> 1023 \<longrightarrow>
       (if P q \<and> \<not> bit (entry s q) 0 then \<exists>f. entry s' q = alloc_entry f flags else entry s' q = entry s q))"

lemma alloc_entry_present [simp]: "bit (alloc_entry f flags) 0"
  unfolding alloc_entry_def by (rule bit_page_fmt_0)

lemma allocates_step:
  assumes "\<And>q. pdx q \<noteq> 1023 \<Longrightarrow>
      entry s1 q = (if frame_of q = frame_of i \<and> \<not> bit (entry s i) 0 then alloc_entry f flags else entry s q)"
    and "allocates P flags s1 s'" and "\<And>q. Q q \<longleftrightarrow> frame_of q = frame_of i \<or> P q"
    and "\<And>q. frame_of q = frame_of i \<Longrightarrow> entry s q = entry s i"
  shows "allocates Q flags s s'"
  unfolding allocates_def
proof (intro allI impI)
  fix q assume q: "pdx q \<noteq> 1023"
  show "if Q q \<and> \<not> bit (entry s q) 0 then \<exists>f. entry s' q = alloc_entry f flags else entry s' q = entry s q"
    using assms(1) [OF q] assms(2-4) q unfolding allocates_def by (metis alloc_entry_present)
qed

lemma entry_same_page: "frame_of q = frame_of i \<Longrightarrow> entry s q = entry s i"
  using walk_same_page [of q i] by (simp add: entry_def)

lemma mem_alloc_loop_vm:
  assumes "vm_rel s F R" and "unat i mod 4096 = 0" and "unat limit \<le> 0xFFC00000"
    and "unat limit \<le> unat i + 4096 * n" and "2 * n \<le> length F"
  shows "\<exists>s' F' R'. mem_alloc_loop i limit flags s = Ok s' \<and> vm_rel s' F' R' \<and>
    allocates (page_between i (unat limit)) flags s s'"
  using assms
proof (induction n arbitrary: i s F R)
  case 0
  then have "\<not> i < limit" by (simp add: word_less_nat_alt)
  moreover have "\<not> page_between i (unat limit) q" for q
    using 0 by (auto simp: page_between_def)
  ultimately show ?case using 0(1) by (subst mem_alloc_loop_unfold) (auto simp: allocates_def)
next
  case (Suc n)
  show ?case
  proof (cases "i < limit")
    case False
    then have le: "unat limit \<le> unat i" by (simp add: word_less_nat_alt)
    have "\<not> page_between i (unat limit) q" for q
    proof
      assume b: "page_between i (unat limit) q"
      then have "4096 * (unat i div 4096) < unat limit" by (auto simp: page_between_def)
      then show False using le Suc.prems(2) by auto
    qed
    then show ?thesis using False Suc.prems(1) by (subst mem_alloc_loop_unfold) (auto simp: allocates_def)
  next
    case True
    then have lt: "unat i < unat limit" by (simp add: word_less_nat_alt)
    obtain k where k: "unat i = 4096 * k" using Suc.prems(2) by (auto simp: mod_eq_0_iff_dvd)
    have kb: "k < 0xFFC00" using lt Suc.prems(3) k by simp
    then have u: "unat (i + 0x1000) = 4096 * (k + 1)" by (simp add: unat_word_ariths k)
    have "unat i div 4194304 < 1023" using lt Suc.prems(3) by simp
    then have p: "pdx i \<noteq> 1023" by (auto simp: word_unat_eq_iff unat_pdx)
    have two: "2 \<le> length F" using Suc.prems(5) by simp
    obtain s1 F1 R1 f where s1: "alloc_page i flags s = Ok s1" "vm_rel s1 F1 R1" "length F \<le> length F1 + 2"
      "\<And>q. pdx q \<noteq> 1023 \<Longrightarrow>
        entry s1 q = (if frame_of q = frame_of i \<and> \<not> bit (entry s i) 0 then alloc_entry f flags else entry s q)"
      using alloc_page_vm [OF Suc.prems(1) p two, of flags] by metis
    obtain s' F' R' where s': "mem_alloc_loop (i + 0x1000) limit flags s1 = Ok s'" "vm_rel s' F' R'"
      "allocates (page_between (i + 0x1000) (unat limit)) flags s1 s'"
      using Suc.IH [OF s1(2), of "i + 0x1000"] Suc.prems(3-5) s1(3) u k by auto
    have "allocates (page_between i (unat limit)) flags s s'"
    proof (rule allocates_step [OF s1(4) s'(3) _ entry_same_page])
      fix q
      have "frame_of q = frame_of i \<longleftrightarrow> unat q div 4096 = k"
        by (simp add: word_unat_eq_iff unat_frame_of k)
      then show "page_between i (unat limit) q \<longleftrightarrow> frame_of q = frame_of i \<or> page_between (i + 0x1000) (unat limit) q"
        using lt by (auto simp: page_between_def u k)
    qed
    moreover have "\<not> i + 0x1000 < i" by (simp add: word_less_nat_alt u k)
    ultimately show ?thesis using True s1(1) s' by (subst mem_alloc_loop_unfold) auto
  qed
qed

section \<open>Properties\<close>

text \<open>
  C9: \<open>mem_alloc\<close> on a range below the window onto the page tables, with two free frames for every page of the range:
  the call returns, a page of the range that was not present gets an entry with the given flags and the present flag,
  every other page keeps its entry, and the page tables and the free list stay consistent.
\<close>

theorem mem_alloc_maps_range:
  assumes "vm_rel s F R" and "unat base + unat sz \<le> 0xFFC00000"
    and "2 * ((unat base mod 4096 + unat sz + 4095) div 4096) \<le> length F"
  shows "\<exists>s' F' R'. mem_alloc base sz flags s = Ok s' \<and> vm_rel s' F' R' \<and>
    (\<forall>q e. outside_window q \<longrightarrow> page_get q s = Ok e \<longrightarrow>
      (if unat base div 4096 \<le> unat q div 4096 \<and> 4096 * (unat q div 4096) < unat base + unat sz \<and> e AND PF_PRES = 0
       then \<exists>f. page_get q s' = Ok (page_fmt f ((flags AND PF_MASK) OR PF_PRES)) else page_get q s' = Ok e))"
proof -
  let ?i = "base AND NOT 0xFFF"
  have "(NOT 0xFFF :: u32) = NOT (mask 12)" by (simp add: mask_eq_exp_minus_1)
  then have i: "unat ?i = unat base div 4096 * 4096" using unat_and_not_mask [of base 12] by simp
  have l: "unat (base + sz) = unat base + unat sz" using assms(2) by (intro unat_add_no_wrap) simp
  have "unat base = unat base div 4096 * 4096 + unat base mod 4096" by simp
  moreover have "unat base mod 4096 + unat sz \<le> 4096 * ((unat base mod 4096 + unat sz + 4095) div 4096)" by linarith
  ultimately have "unat base + unat sz \<le> unat ?i + 4096 * ((unat base mod 4096 + unat sz + 4095) div 4096)"
    unfolding i by linarith
  then obtain s' F' R' where s': "mem_alloc base sz flags s = Ok s'" "vm_rel s' F' R'"
    "allocates (page_between ?i (unat base + unat sz)) flags s s'"
    using mem_alloc_loop_vm [OF assms(1) _ _ _ assms(3), of ?i "base + sz" flags] assms(2) i l
    by (auto simp: mem_alloc_def)
  have "if unat base div 4096 \<le> unat q div 4096 \<and> 4096 * (unat q div 4096) < unat base + unat sz \<and> e AND PF_PRES = 0
       then \<exists>f. page_get q s' = Ok (page_fmt f ((flags AND PF_MASK) OR PF_PRES)) else page_get q s' = Ok e"
    if "outside_window q" "page_get q s = Ok e" for q e
  proof -
    have "space_wf s" "space_wf s'" using assms(1) s'(2) by (simp_all add: vm_rel_def)
    then have e: "e = entry s q" and g: "page_get q s' = Ok (entry s' q)" using that(2) by (simp_all add: page_get_entry)
    have b: "page_between ?i (unat base + unat sz) q \<longleftrightarrow>
        unat base div 4096 \<le> unat q div 4096 \<and> 4096 * (unat q div 4096) < unat base + unat sz"
      unfolding page_between_def i by simp
    have "if page_between ?i (unat base + unat sz) q \<and> \<not> bit (entry s q) 0 then \<exists>f. entry s' q = alloc_entry f flags
        else entry s' q = entry s q"
      using s'(3) that(1) unfolding allocates_def outside_window_def by blast
    then show ?thesis unfolding e g b and_one_zero_iff alloc_entry_def outcome.inject conj_assoc .
  qed
  with s'(1,2) show ?thesis by blast
qed

theorem mem_alloc_maps_range_witness:
  "\<exists>s' F' R' f. mem_alloc 0x4010 0x20 PF_RW demo_frames = Ok s' \<and> vm_rel s' F' R' \<and>
     page_get 0x4000 s' = Ok (page_fmt f 3) \<and> page_get 0x3000 s' = Ok 0x5003"
proof -
  note eval = page_get_def vread_def mmu_walk_def pde_of_def pte_of_def cmap_at_def ctbl_at_def pdx_def ptx_def
    widx_def frame_of_def demo_frames_def
  have g: "page_get 0x4000 demo_frames = Ok 0" "page_get 0x3000 demo_frames = Ok 0x5003"
    by (simp_all add: eval)
  have w: "outside_window 0x4000" "outside_window 0x3000" by (simp_all add: outside_window_def pdx_def)
  let ?P = "\<lambda>q e s'. if unat (0x4010 :: u32) div 4096 \<le> unat q div 4096 \<and>
      4096 * (unat q div 4096) < unat (0x4010 :: u32) + unat (0x20 :: u32) \<and> e AND PF_PRES = 0
    then \<exists>f. page_get q s' = Ok (page_fmt f ((PF_RW AND PF_MASK) OR PF_PRES)) else page_get q s' = Ok e"
  have "\<exists>s' F' R'. mem_alloc 0x4010 0x20 PF_RW demo_frames = Ok s' \<and> vm_rel s' F' R' \<and>
    (\<forall>q e. outside_window q \<longrightarrow> page_get q demo_frames = Ok e \<longrightarrow> ?P q e s')"
    by (rule mem_alloc_maps_range [OF demo_vm]) simp_all
  then obtain s' F' R' where s': "mem_alloc 0x4010 0x20 PF_RW demo_frames = Ok s'" "vm_rel s' F' R'"
    and all: "\<And>q e. outside_window q \<Longrightarrow> page_get q demo_frames = Ok e \<Longrightarrow> ?P q e s'" by blast
  have "\<exists>f. page_get 0x4000 s' = Ok (page_fmt f 3)" using all [OF w(1) g(1)] by simp
  moreover have "page_get 0x3000 s' = Ok 0x5003" using all [OF w(2) g(2)] by simp
  ultimately show ?thesis using s' by blast
qed

end
