(* ===== verification/Heap.thy ===== *)
theory Heap
  imports Mem
begin

text \<open>
  The kernel heap (\<open>src/kernel/heap.c\<close>): sixteen buckets of free blocks, where the blocks of bucket
  \<open>n\<close> have \<open>2^n\<close> words and the link to the next free block is the first word of a block. A bucket
  that runs dry is refilled with a slab of fresh pages. Blocks live in virtual memory, so every
  link is read and written through the translation of the machine.
\<close>

abbreviation (input) KERNEL_HEAP :: u32 where "KERNEL_HEAP \<equiv> 0xF1000000"
abbreviation (input) KERNEL_HEAP_END :: u32 where "KERNEL_HEAP_END \<equiv> 0xF8000000"

record heap_state = frame_state +
  heap_bucket :: "nat \<Rightarrow> ptr"
  analysis :: "nat \<Rightarrow> u32"
  brk :: u32

text \<open>The search for the smallest bucket whose blocks hold \<open>sz\<close> bytes; 17 if there is none.\<close>

function bucket_loop :: "nat \<Rightarrow> u32 \<Rightarrow> nat" where
  "bucket_loop i sz =
     (if i < 16 then (if sz \<le> 4 * push_bit i 1 then i else bucket_loop (Suc i) sz) else 17)"
  by pat_completeness auto
termination
  by (relation "measure (\<lambda>(i, sz). 16 - i)") auto

declare bucket_loop.simps [simp del]

definition bucket_for :: "u32 \<Rightarrow> nat" where
  "bucket_for sz = bucket_loop 0 sz"

text \<open>The test \<open>bucket > 17\<close> of \<open>heap_free\<close> never holds: index 17 is used on arrays of 16 elements.\<close>

definition heap_free :: "ptr \<Rightarrow> u32 \<Rightarrow> 'a heap_state_scheme \<Rightarrow> 'a heap_state_scheme outcome" where
  "heap_free p sz s =
     (let bucket = bucket_for sz
      in if bucket > 17 then Ok s
         else if bucket \<ge> 16 then Stop OutOfBounds
         else
           (let s = s\<lparr>analysis := (analysis s)(bucket := analysis s bucket - 1)\<rparr>
            in and_then (vwrite p (heap_bucket s bucket) s) (\<lambda>s.
                 Ok (s\<lparr>heap_bucket := (heap_bucket s)(bucket := p)\<rparr>))))"

text \<open>The allocation counts that are printed before the panic.\<close>

fun print_analysis :: "nat \<Rightarrow> 'a heap_state_scheme \<Rightarrow> 'a heap_state_scheme outcome" where
  "print_analysis 0 s = Ok s"
| "print_analysis (Suc n) s =
     and_then (debug_printf (''%d: %d'' @ [newline]) [VInt (of_nat (15 - n)), VInt (analysis s (15 - n))] s)
       (print_analysis n)"

definition heap_valloc :: "u32 \<Rightarrow> 'a heap_state_scheme \<Rightarrow> (ptr \<times> 'a heap_state_scheme) outcome" where
  "heap_valloc sz s =
     (if brk s + sz \<ge> KERNEL_HEAP_END then
        and_then (print_analysis 16 s) (debug_panic ''out of virtual memory'')
      else
        and_then (frame_new s) (\<lambda>(f, s).
          and_then (page_set (brk s) (page_fmt f (PF_PRES OR PF_RW)) s) (\<lambda>s.
            and_then (mem_alloc (brk s) sz (PF_PRES OR PF_RW) s) (\<lambda>s.
              let s = s\<lparr>brk := brk s + sz\<rparr> in Ok (brk s - sz, s)))))"

definition slab_size :: "nat \<Rightarrow> u32" where
  "slab_size bucket = (if bucket \<le> 10 then PAGESZ else push_bit bucket 4 * 4)"

text \<open>\<open>n\<close> blocks of the slab remain, the next one at \<open>p\<close>.\<close>

primrec slab_loop :: "nat \<Rightarrow> nat \<Rightarrow> ptr \<Rightarrow> 'a heap_state_scheme \<Rightarrow> 'a heap_state_scheme outcome" where
  "slab_loop bucket 0 p s = Ok s"
| "slab_loop bucket (Suc n) p s =
     and_then (heap_free p (4 * push_bit bucket 1) s) (\<lambda>s.
       slab_loop bucket n (p + 4 * push_bit bucket 1)
         (s\<lparr>analysis := (analysis s)(bucket := analysis s bucket + 1)\<rparr>))"

definition heap_new_slab :: "nat \<Rightarrow> 'a heap_state_scheme \<Rightarrow> 'a heap_state_scheme outcome" where
  "heap_new_slab bucket s =
     and_then (heap_valloc (slab_size bucket) s) (\<lambda>(slab, s).
       if slab = NULL then Ok s
       else slab_loop bucket (unat (slab_size bucket) div 4 div 2 ^ bucket) slab s)"

definition heap_alloc :: "u32 \<Rightarrow> 'a heap_state_scheme \<Rightarrow> (ptr \<times> 'a heap_state_scheme) outcome" where
  "heap_alloc sz s =
     (let bucket = bucket_for sz
      in if bucket > 16 then Ok (NULL, s)
         else and_then (if heap_bucket s bucket = NULL then heap_new_slab bucket s else Ok s) (\<lambda>s.
           if heap_bucket s bucket = NULL then Ok (NULL, s)
           else
             (let s = s\<lparr>analysis := (analysis s)(bucket := analysis s bucket + 1)\<rparr>;
                  block = heap_bucket s bucket
              in and_then (vread block s) (\<lambda>nxt.
                   let s = s\<lparr>heap_bucket := (heap_bucket s)(bucket := nxt)\<rparr>
                   in and_then (memclr block (4 * 2 ^ bucket) s) (\<lambda>s. Ok (block, s))))))"

text \<open>\<open>frame_add\<close>: a new record of 16 bytes, linked in front of the free list.\<close>

definition frame_add :: "u32 \<Rightarrow> 'a heap_state_scheme \<Rightarrow> 'a heap_state_scheme outcome" where
  "frame_add frame s = and_then (heap_alloc 16 s) (\<lambda>(fs, s). Ok (frame_link fs frame s))"

section \<open>Buckets\<close>

lemma bucket_loop_16: "bucket_loop 16 sz = 17"
  by (simp add: bucket_loop.simps)

lemma bucket_loop_result:
  "i \<le> 16 \<Longrightarrow> bucket_loop i sz = 17 \<and> (\<forall>j. i \<le> j \<and> j < 16 \<longrightarrow> unat sz > 4 * 2 ^ j) \<or>
     i \<le> bucket_loop i sz \<and> bucket_loop i sz < 16 \<and> unat sz \<le> 4 * 2 ^ bucket_loop i sz \<and>
     (\<forall>j. i \<le> j \<and> j < bucket_loop i sz \<longrightarrow> unat sz > 4 * 2 ^ j)"
proof (induction i sz rule: bucket_loop.induct)
  case (1 i sz)
  show ?case
  proof (cases "i < 16")
    case False
    then have "bucket_loop i sz = 17" by (subst bucket_loop.simps) simp
    then show ?thesis using False by auto
  next
    case True
    then have "(2::nat) ^ i \<le> 2 ^ 15" by (intro power_increasing) auto
    then have u: "unat (4 * push_bit i 1 :: u32) = 4 * 2 ^ i"
      using True unat_shift_one [of i] by (simp add: unat_word_ariths)
    show ?thesis
    proof (cases "sz \<le> 4 * push_bit i 1")
      case le: True
      then have "bucket_loop i sz = i" using True by (subst bucket_loop.simps) simp
      then show ?thesis using le True u by (simp add: word_le_nat_alt)
    next
      case gt: False
      then have "4 * 2 ^ i < unat sz" using u by (simp add: word_le_nat_alt)
      moreover have "bucket_loop i sz = bucket_loop (Suc i) sz" using True gt by (subst bucket_loop.simps) simp
      moreover have "\<And>j. i \<le> j \<Longrightarrow> j \<noteq> i \<Longrightarrow> Suc i \<le> j" by simp
      moreover have "Suc i \<le> 16" using True by simp
      ultimately show ?thesis using "1.IH" [OF True gt] by (metis Suc_leD)
    qed
  qed
qed

section \<open>Giving a block back and taking it again\<close>

lemma walk_heap [simp]:
  "mmu_walk (s\<lparr>analysis := a\<rparr>) p = mmu_walk s p" "mmu_walk (s\<lparr>heap_bucket := h\<rparr>) p = mmu_walk s p"
  by (simp_all add: mmu_walk_def pde_of_def pte_of_def)

lemma vread_heap [simp]:
  "vread p (s\<lparr>analysis := a\<rparr>) = vread p s" "vread p (s\<lparr>heap_bucket := h\<rparr>) = vread p s"
  by (simp_all add: vread_def)

lemma vwrite_word:
  assumes "loc s p = Ok (f, i, k)" and "f \<notin> table_frames s"
  shows "vwrite p v s = Ok (pmem_upd f i v s)" and "loc (pmem_upd f i v s) = loc s"
    and "table_frames (pmem_upd f i v s) = table_frames s" and "vread p (pmem_upd f i v s) = Ok v"
proof -
  have w: "mmu_walk s p = Ok (f, i)" using assms(1) by (cases "mmu_walk s p") (auto simp: loc_def)
  show "vwrite p v s = Ok (pmem_upd f i v s)" using w by (simp add: vwrite_def)
  show "loc (pmem_upd f i v s) = loc s" using assms(2) by (simp add: fun_eq_iff loc_def walk_data)
  show "table_frames (pmem_upd f i v s) = table_frames s" using assms(2) by (rule table_frames_data)
  show "vread p (pmem_upd f i v s) = Ok v" using w assms(2) by (simp add: vread_def walk_data)
qed

text \<open>The word at an aligned address is made of the four bytes from there on.\<close>

lemma readable_nth: "readable s p ls \<Longrightarrow> n < length ls \<Longrightarrow> loc s (p + of_nat n) = Ok (ls ! n)"
proof (induction ls arbitrary: p n)
  case (Cons l ls)
  show ?case
  proof (cases n)
    case (Suc m)
    then show ?thesis using Cons.IH [of "p + 1" m] Cons.prems by (simp add: add.assoc)
  qed (use Cons.prems in simp)
qed simp

lemma aligned_word_locs:
  assumes "readable s p ls" and "4 \<le> length ls" and "unat p mod 4 = 0" and "loc s p = Ok (f, i, k)"
  shows "(f, i, j) \<in> set ls"
proof -
  have j: "unat j < 4" using unsigned_less [of j] by simp
  let ?q = "p + of_nat (unat j)"
  note off = word_of_offset [OF assms(3) j]
  have "mmu_walk s p = Ok (f, i)" using assms(4) by (cases "mmu_walk s p") (auto simp: loc_def)
  then have "mmu_walk s ?q = Ok (f, i)"
    using walk_same_page [OF off(1)] off(2) by (auto simp: mmu_walk_def pde_of_def pte_of_def split: if_splits)
  moreover have "(ucast ?q :: 2 word) = j"
    using off(3) by (simp add: byte_lane_ucast word_unat_eq_iff)
  ultimately have "loc s ?q = Ok (f, i, j)" by (simp add: loc_def)
  moreover have "loc s ?q = Ok (ls ! unat j)" using readable_nth [OF assms(1), of "unat j"] j assms(2) by simp
  ultimately show ?thesis using j assms(2) by (metis nth_mem less_le_trans outcome.inject(1))
qed

lemma bucket_for_less: "unat sz \<le> 131072 \<Longrightarrow> bucket_for sz < 16"
proof (rule ccontr)
  assume "unat sz \<le> 131072" and "\<not> bucket_for sz < 16"
  then have "unat sz > 4 * 2 ^ 15" using bucket_loop_result [of 0 sz] unfolding bucket_for_def by (auto dest!: spec [of _ 15])
  with \<open>unat sz \<le> 131072\<close> show False by simp
qed

lemma writes_word:
  assumes "writable s p ls" and "4 \<le> length ls" and "unat p mod 4 = 0" and "loc s p = Ok (f, i, k)" and "f \<notin> table_frames s"
  shows "writes (set ls) s (pmem_upd f i v s)"
proof -
  have "mem_at (pmem_upd f i v s) l = mem_at s l" if "l \<notin> set ls" for l
    using that aligned_word_locs [OF _ assms(2,3,4)] assms(1) by (cases l) (auto simp: mem_at_def writable_def)
  then show ?thesis
    using vwrite_word [OF assms(4,5)] by (simp add: writes_def) (simp add: pmem_upd_def)
qed

lemma heap_free_then_alloc:
  assumes p: "p \<noteq> NULL" "unat p mod 4 = 0" and sz: "unat sz \<le> 131072"
    and ls: "writable s p ls" "length ls = 4 * 2 ^ bucket_for sz"
  shows "\<exists>s1 s2. heap_free p sz s = Ok s1 \<and> heap_alloc sz s1 = Ok (p, s2) \<and>
    (\<forall>l \<in> set ls. mem_at s2 l = 0) \<and> writes (set ls) s s2"
proof -
  define b where "b = bucket_for sz"
  have b: "b < 16" using bucket_for_less [OF sz] by (simp add: b_def)
  have four: "4 \<le> length ls" using ls(2) by simp
  then obtain l ks where lks: "ls = l # ks" by (cases ls) auto
  obtain f i k where l: "loc s p = Ok (f, i, k)" "f \<notin> table_frames s"
    using ls(1) lks by (cases l) (auto simp: writable_def)
  let ?t = "pmem_upd f i (heap_bucket s b) s"
  have t: "mmu_walk s p = Ok (f, i)" using l(1) by (cases "mmu_walk s p") (auto simp: loc_def)
  let ?s1 = "?t\<lparr>analysis := (analysis s)(b := analysis s b - 1), heap_bucket := (heap_bucket s)(b := p)\<rparr>"
  have free: "heap_free p sz s = Ok ?s1"
    using b t by (simp add: heap_free_def b_def [symmetric] Let_def pmem_upd_def vwrite_def)
  have wt: "writes (set ls) s ?t" by (rule writes_word [OF ls(1) four p(2) l])
  have "writable ?t p ls" using writes_writable [OF wt] ls(1) by simp
  from memclr_writable [OF this] obtain s2 where s2: "memclr p (length ls) ?t = Ok s2"
    "\<forall>l\<in>set ls. mem_at s2 l = 0" "writes (set ls) ?t s2" by blast
  have "vread p ?t = Ok (heap_bucket s b)" by (rule vwrite_word(4) [OF l])
  then have "heap_alloc sz ?s1 = Ok (p, s2)"
    using b p(1) s2(1) ls(2)
    by (simp add: heap_alloc_def b_def [symmetric] Let_def pmem_upd_def)
  with free s2 writes_trans [OF wt s2(3)] show ?thesis by auto
qed

section \<open>Taking a block\<close>

lemma vwrite8_heap:
  "vwrite8 p b (s\<lparr>analysis := a\<rparr>) = and_then (vwrite8 p b s) (\<lambda>s. Ok (s\<lparr>analysis := a\<rparr>))"
  "vwrite8 p b (s\<lparr>heap_bucket := h\<rparr>) = and_then (vwrite8 p b s) (\<lambda>s. Ok (s\<lparr>heap_bucket := h\<rparr>))"
  by (cases "mmu_walk s p"; auto simp: vwrite8_def pmem_upd_def)+

lemma memclr_heap:
  "memclr p n (s\<lparr>analysis := a\<rparr>) = and_then (memclr p n s) (\<lambda>s. Ok (s\<lparr>analysis := a\<rparr>))"
  "memclr p n (s\<lparr>heap_bucket := h\<rparr>) = and_then (memclr p n s) (\<lambda>s. Ok (s\<lparr>heap_bucket := h\<rparr>))"
  by (induction n arbitrary: p s) (auto simp: vwrite8_heap and_then_assoc)

text \<open>A bucket that is not empty gives its first block, cleared, and leaves the other buckets as they were.\<close>

lemma heap_alloc_block:
  assumes "bucket_for sz = b" and "b < 16" and "heap_bucket s b = p" and "p \<noteq> NULL"
    and "writable s p ls" and "length ls = 4 * 2 ^ b"
  obtains nxt t where "vread p s = Ok nxt" and "\<forall>l \<in> set ls. mem_at t l = 0" and "writes (set ls) s t"
    and "heap_alloc sz s = Ok (p, t\<lparr>analysis := (analysis s)(b := analysis s b + 1), heap_bucket := (heap_bucket s)(b := nxt)\<rparr>)"
proof -
  obtain t where t: "memclr p (length ls) s = Ok t" "\<forall>l\<in>set ls. mem_at t l = 0" "writes (set ls) s t"
    using memclr_writable [OF assms(5)] by blast
  obtain l ks where "ls = l # ks" using assms(6) by (cases ls) auto
  then obtain f i where "mmu_walk s p = Ok (f, i)"
    using assms(5) by (cases "mmu_walk s p") (auto simp: writable_def loc_def)
  then obtain nxt where n: "vread p s = Ok nxt" by (simp add: vread_def)
  show thesis by (rule that [OF n t(2,3)]) (use assms t n in \<open>simp add: heap_alloc_def Let_def memclr_heap\<close>)
qed

text \<open>The first block of a bucket is mapped to data, at the locations \<open>ls\<close>.\<close>

definition block_at :: "'a heap_state_scheme \<Rightarrow> nat \<Rightarrow> location list \<Rightarrow> bool" where
  "block_at s b ls \<longleftrightarrow> heap_bucket s b \<noteq> NULL \<and> writable s (heap_bucket s b) ls \<and> length ls = 4 * 2 ^ b"

lemma loc_cong: "pmem s = pmem t \<Longrightarrow> cr3 s = cr3 t \<Longrightarrow> loc s = loc t \<and> table_frames s = table_frames t"
  by (simp add: fun_eq_iff loc_def mmu_walk_def pde_of_def pte_of_def table_frames_def dir_def)

lemma writable_other: "loc s = loc t \<Longrightarrow> table_frames s = table_frames t \<Longrightarrow> writable s p ls = writable t p ls"
proof -
  assume "loc s = loc t" "table_frames s = table_frames t"
  moreover from this(1) have "readable s p ls = readable t p ls" by (induction ls arbitrary: p) auto
  ultimately show ?thesis by (simp add: writable_def)
qed

lemma writes_only: "writes L s s' \<Longrightarrow> heap_bucket s' = heap_bucket s \<and> in_ports s' = in_ports s \<and> out_log s' = out_log s"
proof -
  assume "writes L s s'"
  then obtain m where "s' = s\<lparr>pmem := m\<rparr>" unfolding writes_def by blast
  then show ?thesis by simp
qed

text \<open>What taking a block leaves as it was.\<close>

definition spares :: "location set \<Rightarrow> 'a machine_scheme \<Rightarrow> 'a machine_scheme \<Rightarrow> bool" where
  "spares L s s' \<longleftrightarrow> (\<forall>l. l \<notin> L \<longrightarrow> mem_at s' l = mem_at s l) \<and> loc s' = loc s \<and> in_ports s' = in_ports s \<and>
     out_log s' = out_log s"

lemma spares_trans: "spares L s s' \<Longrightarrow> spares M s' t \<Longrightarrow> spares (L \<union> M) s t"
  by (simp add: spares_def)

lemma spares_load32:
  assumes "spares L s s'" and "readable s p es" and "length es = 4" and "set es \<inter> L = {}"
  shows "load32 p s' = load32 p s"
proof -
  have "loc s' = loc s" using assms(1) by (simp add: spares_def)
  then have "readable s' p es" using assms(2) readable_cong by blast
  moreover have m: "map (mem_at s') es = map (mem_at s) es" using assms(1,4) by (auto simp: spares_def)
  ultimately show ?thesis using load32_readable [of s' p es, unfolded m] load32_readable [OF assms(2,3)] assms(3) by simp
qed

lemma heap_alloc_ready:
  assumes "block_at s (bucket_for sz) ls" and "bucket_for sz < 16"
  obtains s' where "heap_alloc sz s = Ok (heap_bucket s (bucket_for sz), s')" and "spares (set ls) s s'"
    and "\<And>b ks. b \<noteq> bucket_for sz \<Longrightarrow> block_at s' b ks = block_at s b ks"
proof -
  let ?b = "bucket_for sz"
  have ls: "writable s (heap_bucket s ?b) ls" "length ls = 4 * 2 ^ ?b" and p: "heap_bucket s ?b \<noteq> NULL"
    using assms(1) by (auto simp: block_at_def)
  obtain nxt t where t: "writes (set ls) s t" and a: "heap_alloc sz s = Ok (heap_bucket s ?b,
      t\<lparr>analysis := (analysis s)(?b := analysis s ?b + 1), heap_bucket := (heap_bucket s)(?b := nxt)\<rparr>)" (is "_ = Ok (_, ?s)")
    using heap_alloc_block [OF refl assms(2) refl p ls] by metis
  have l: "loc ?s = loc s \<and> table_frames ?s = table_frames s"
    using t loc_cong [of ?s t] by (simp add: writes_def)
  then have "writable ?s q ks = writable s q ks" for q ks using writable_other by blast
  moreover have "spares (set ls) s ?s"
    using l t writes_only [OF t] by (simp add: spares_def writes_def mem_at_def)
  ultimately show thesis by (intro that [OF a]) (auto simp: block_at_def)
qed

section \<open>A page of data\<close>

text \<open>The page at \<open>0x3000\<close> of the example state, which is kept in frame 5.\<close>

lemma readable_map: "(\<And>k. k < n \<Longrightarrow> loc s (p + of_nat k) = Ok (g k)) \<Longrightarrow> readable s p (map g [0..<n])"
proof (induction n arbitrary: p g)
  case (Suc n)
  have "readable s (p + 1) (map (g \<circ> Suc) [0..<n])"
    using Suc.prems [of "Suc k" for k] by (intro Suc.IH) (simp add: add.assoc)
  moreover have "map g [0..<Suc n] = g 0 # map (g \<circ> Suc) [0..<n]"
    by (simp only: upt_conv_Cons zero_less_Suc list.map map_Suc_upt [symmetric] map_map)
  ultimately show ?case using Suc.prems [of 0] by simp
qed simp

definition demo_at :: "nat \<Rightarrow> location" where
  "demo_at k = (5, of_nat (k div 4), of_nat k)"

lemma demo_at_inj: "inj_on demo_at {..<4096}"
proof (rule inj_onI)
  fix i j assume i: "i \<in> {..<4096}" and j: "j \<in> {..<4096}" and e: "demo_at i = demo_at j"
  have "i div 4 < 1024" "j div 4 < 1024" using i j by auto
  moreover have "(of_nat (i div 4) :: 10 word) = of_nat (j div 4)" "(of_nat i :: 2 word) = of_nat j"
    using e by (simp_all add: demo_at_def)
  ultimately have "i div 4 = j div 4" "i mod 4 = j mod 4" by (simp_all add: word_unat_eq_iff unat_of_nat)
  then show "i = j" by (metis div_mult_mod_eq)
qed

lemma demo_writable:
  assumes "a + n \<le> 4096"
  shows "writable demo_frames (0x3000 + of_nat a) (map (\<lambda>k. demo_at (a + k)) [0..<n])"
proof -
  have "loc demo_frames (0x3000 + of_nat a + of_nat k) = Ok (demo_at (a + k))" if "k < n" for k
  proof -
    define va where "va = (0x3000 + of_nat (a + k) :: u32)"
    have "unat va = 0x3000 + (a + k)" "frame_of va = 3"
      using page_of_offset [of "0x3000" "a + k"] that assms by (simp_all add: va_def frame_of_def)
    moreover have "(0x3000 + m) div 4 mod 1024 = m div 4" "(0x3000 + m) mod 4 = m mod 4" if "m < 4096" for m :: nat
      using that div_mult_self4 [of 4 "0xC00" m] mod_mult_self3 [of 3 1024 "m div 4"] mod_mult_self3 [of "0xC00" 4 m] by simp_all
    ultimately have "frame_of va = 3" "widx va = of_nat ((a + k) div 4)" "(ucast va :: 2 word) = of_nat (a + k)"
      using that assms
      by (simp_all add: word_unat_eq_iff unat_widx unat_of_nat unsigned_ucast_eq take_bit_eq_mod del: of_nat_add)
    then show ?thesis using demo_loc [of va] by (simp add: demo_at_def va_def add.assoc)
  qed
  moreover have "inj_on (\<lambda>k. demo_at (a + k)) {0..<n}"
    by (rule inj_onI) (use assms inj_onD [OF demo_at_inj, of "a + x" "a + y" for x y] in auto)
  ultimately show ?thesis
    unfolding writable_def by (auto intro!: readable_map simp: distinct_map demo_tables demo_at_def)
qed

section \<open>Properties\<close>

text \<open>
  C37: A size gets the smallest bucket whose blocks are large enough, up to blocks of 128 kilobytes; above that the
  search gives the number 17, which is no bucket.
\<close>

theorem bucket_for_smallest:
  "bucket_for sz = (if unat sz \<le> 131072 then LEAST j. unat sz \<le> 4 * 2 ^ j else 17)"
proof (cases "unat sz \<le> 131072")
  case True
  let ?b = "bucket_for sz"
  have "?b < 16" by (rule bucket_for_less [OF True])
  then have "unat sz \<le> 4 * 2 ^ ?b" "\<And>j. j < ?b \<Longrightarrow> 4 * 2 ^ j < unat sz"
    using bucket_loop_result [of 0 sz] unfolding bucket_for_def by auto
  then have "(LEAST j. unat sz \<le> 4 * 2 ^ j) = ?b" by (intro Least_equality) (auto simp: not_le [symmetric])
  with True show ?thesis by simp
next
  case False
  have "(2 :: nat) ^ bucket_loop 0 sz \<le> 2 ^ 15" if "bucket_loop 0 sz < 16" using that by (intro power_increasing) auto
  then show ?thesis using False bucket_loop_result [of 0 sz] unfolding bucket_for_def by fastforce
qed

text \<open>
  C17: A block that is given back is the next one that is taken for its size: \<open>heap_free\<close> and then \<open>heap_alloc\<close> return, the
  block is the same and all its bytes are zero, and nothing else of the state has changed, the free lists and the counts included.
\<close>

theorem heap_free_alloc_roundtrip:
  assumes "p \<noteq> NULL" and "unat p mod 4 = 0" and "unat sz \<le> 131072"
    and "writable s p ls" and "length ls = 4 * 2 ^ bucket_for sz"
  shows "\<exists>s1 s2. heap_free p sz s = Ok s1 \<and> heap_alloc sz s1 = Ok (p, s2) \<and>
    (\<forall>l \<in> set ls. mem_at s2 l = 0) \<and> writes (set ls) s s2"
  using assms by (rule heap_free_then_alloc)

definition demo_heap :: heap_state where
  "demo_heap = frame_state.extend demo_frames (heap_state.fields (\<lambda>_. NULL) (\<lambda>_. 1) KERNEL_HEAP)"

lemma demo_heap_memory: "loc demo_heap = loc demo_frames" "table_frames demo_heap = table_frames demo_frames"
  "heap_bucket demo_heap = (\<lambda>_. NULL)"
  by (simp_all add: fun_eq_iff loc_def mmu_walk_def pde_of_def pte_of_def table_frames_def dir_def
      demo_heap_def demo_frames_def frame_state.defs heap_state.defs)

theorem heap_free_alloc_roundtrip_witness:
  "\<exists>s1 s2. heap_free 0x3100 8 demo_heap = Ok s1 \<and> heap_alloc 8 s1 = Ok (0x3100, s2) \<and>
     mem_at s2 (5, 64, 0) = 0 \<and> heap_bucket s2 = (\<lambda>_. NULL)"
proof -
  let ?ls = "[(5, 64, 0), (5, 64, 1), (5, 64, 2), (5, 64, 3), (5, 65, 0), (5, 65, 1), (5, 65, 2), (5, 65, 3)] :: location list"
  have b: "bucket_for 8 = 1" by (simp add: bucket_for_def bucket_loop.simps)
  have "readable demo_heap 0x3100 ?ls" by (simp add: demo_heap_memory demo_loc frame_of_def widx_def)
  then have w: "writable demo_heap 0x3100 ?ls" by (simp add: writable_def demo_heap_memory demo_tables)
  obtain s1 s2 where "heap_free 0x3100 8 demo_heap = Ok s1" "heap_alloc 8 s1 = Ok (0x3100, s2)"
    "\<forall>l \<in> set ?ls. mem_at s2 l = 0" "writes (set ?ls) demo_heap s2"
    using heap_free_alloc_roundtrip [OF _ _ _ w, of 8] b by auto
  moreover from this(4) have "heap_bucket s2 = heap_bucket demo_heap" by (simp add: writes_only)
  ultimately show ?thesis by (simp add: demo_heap_memory)
qed

end
