(* ===== verification/Pctx.thy ===== *)
theory Pctx
  imports Heap
begin

text \<open>
  Paging contexts (\<open>src/kernel/pctx.c\<close>): a table of address spaces, the creation of a space as a
  copy of the system half of the current one, its destruction, and the switch to it. A foreign
  space is edited through a second window, at \<open>TMP_MAP\<close>, which is opened by pointing a directory
  entry to the directory of that space.
\<close>

abbreviation (input) TMP_SRC :: u32 where "TMP_SRC \<equiv> 0xFF010000"
abbreviation (input) TMP_MAP :: u32 where "TMP_MAP \<equiv> 0xFF800000"
abbreviation (input) PGE_MAP :: u32 where "PGE_MAP \<equiv> 0xFFC00000"
abbreviation (input) PCTX_COUNT :: nat where "PCTX_COUNT \<equiv> 1024"

record pctx_state = heap_state +
  pctx_table :: "nat \<Rightarrow> u32"
  active_pctx :: u32

section \<open>Address spaces\<close>

definition space_alloc :: "'a frame_state_scheme \<Rightarrow> (u32 \<times> 'a frame_state_scheme) outcome" where
  "space_alloc s =
     and_then (frame_new s) (\<lambda>(space, s).
       and_then (page_set TMP_SRC (page_fmt space (PF_PRES OR PF_RW)) s) (\<lambda>s.
         and_then (memclr TMP_SRC 0x1000 s) (\<lambda>s.
           and_then (vwrite (TMP_SRC + 4 * drop_bit 22 PGE_MAP) (page_fmt space (PF_PRES OR PF_RW)) s) (\<lambda>s.
             Ok (space, s)))))"

definition space_exmap :: "u32 \<Rightarrow> 'a machine_scheme \<Rightarrow> 'a machine_scheme outcome" where
  "space_exmap space s =
     and_then (vwrite (cmap_at TMP_MAP) (page_fmt space (PF_PRES OR PF_RW)) s) (\<lambda>s. Ok (cpu_flush_tlb_full s))"

text \<open>\<open>exmap[i] = cmap[i]\<close>, for \<open>n\<close> more entries from \<open>i\<close> on.\<close>

definition exmap_at :: "u32 \<Rightarrow> u32" where
  "exmap_at i = TMP_MAP + 0x3FF000 + 4 * i"

primrec clone_loop :: "nat \<Rightarrow> u32 \<Rightarrow> 'a machine_scheme \<Rightarrow> 'a machine_scheme outcome" where
  "clone_loop 0 i s = Ok s"
| "clone_loop (Suc n) i s =
     and_then (vread (0xFFFFF000 + 4 * i) s) (\<lambda>e.
       and_then (vwrite (exmap_at i) e s) (clone_loop n (i + 1)))"

definition space_clone :: "'a frame_state_scheme \<Rightarrow> (u32 \<times> 'a frame_state_scheme) outcome" where
  "space_clone s =
     and_then (space_alloc s) (\<lambda>(dest, s).
       and_then (space_exmap dest s) (\<lambda>s.
         and_then (clone_loop (1023 - unat (drop_bit 22 SYSTEM_ADDR_BASE)) (drop_bit 22 SYSTEM_ADDR_BASE) s) (\<lambda>s.
           Ok (dest, cpu_flush_tlb_full s))))"

text \<open>The entries of one table of the foreign space: \<open>n\<close> more, the next at index \<open>k = i * 1024 + j\<close>.\<close>

primrec free_table_loop :: "nat \<Rightarrow> u32 \<Rightarrow> 'a frame_state_scheme \<Rightarrow> 'a frame_state_scheme outcome" where
  "free_table_loop 0 k s = Ok s"
| "free_table_loop (Suc n) k s =
     and_then (vread (TMP_MAP + 4 * k) s) (\<lambda>e.
       and_then (if e AND PF_PRES \<noteq> 0 then frame_free (page_ufmt e) s else Ok s) (\<lambda>s.
         and_then (vwrite (TMP_MAP + 4 * k) 0 s) (free_table_loop n (k + 1))))"

primrec free_dir_loop :: "nat \<Rightarrow> u32 \<Rightarrow> 'a frame_state_scheme \<Rightarrow> 'a frame_state_scheme outcome" where
  "free_dir_loop 0 i s = Ok s"
| "free_dir_loop (Suc n) i s =
     and_then (vread (exmap_at i) s) (\<lambda>e.
       and_then
         (if e AND PF_PRES \<noteq> 0 then
            and_then (free_table_loop 1024 (i * 1024) s) (\<lambda>s.
              and_then (vread (exmap_at i) s) (\<lambda>e.
                and_then (frame_free (page_ufmt e) s) (vwrite (exmap_at i) 0)))
          else Ok s)
         (free_dir_loop n (i + 1)))"

definition space_free :: "u32 \<Rightarrow> 'a frame_state_scheme \<Rightarrow> 'a frame_state_scheme outcome" where
  "space_free space s =
     and_then (space_exmap space s) (\<lambda>s.
       and_then (free_dir_loop (unat (drop_bit 22 SYSTEM_ADDR_BASE)) 0 s) (frame_free space))"

section \<open>Contexts\<close>

definition pctx_init :: "'a pctx_state_scheme \<Rightarrow> 'a pctx_state_scheme outcome" where
  "pctx_init s =
     and_then (space_clone s) (\<lambda>(space, s). Ok (s\<lparr>pctx_table := (pctx_table s)(0 := space)\<rparr>))"

primrec pctx_find_free :: "nat \<Rightarrow> nat \<Rightarrow> (nat \<Rightarrow> u32) \<Rightarrow> nat option" where
  "pctx_find_free 0 i tab = None"
| "pctx_find_free (Suc n) i tab = (if tab i = 0 then Some i else pctx_find_free n (Suc i) tab)"

definition pctx_new :: "'a pctx_state_scheme \<Rightarrow> (u32 \<times> 'a pctx_state_scheme) outcome" where
  "pctx_new s =
     and_then (if pctx_table s 0 = 0 then pctx_init s else Ok s) (\<lambda>s.
       case pctx_find_free PCTX_COUNT 0 (pctx_table s) of
         None \<Rightarrow> Ok (- 1, s)
       | Some i \<Rightarrow>
           and_then (space_clone s) (\<lambda>(space, s).
             Ok (of_nat i, s\<lparr>pctx_table := (pctx_table s)(i := space)\<rparr>)))"

text \<open>Both \<open>pctx_free\<close> and \<open>pctx_load\<close> reject the same numbers.\<close>

definition pctx_invalid :: "u32 \<Rightarrow> 'a pctx_state_scheme \<Rightarrow> bool" where
  "pctx_invalid pctx s \<longleftrightarrow> sint pctx \<le> 0 \<or> sint pctx \<ge> 1024 \<or> pctx_table s (unat pctx) = 0"

definition pctx_free :: "u32 \<Rightarrow> 'a pctx_state_scheme \<Rightarrow> (u32 \<times> 'a pctx_state_scheme) outcome" where
  "pctx_free pctx s =
     (if pctx_invalid pctx s then Ok (1, s)
      else and_then (space_free (pctx_table s (unat pctx)) s) (\<lambda>s.
        Ok (0, s\<lparr>pctx_table := (pctx_table s)(unat pctx := 0)\<rparr>)))"

definition pctx_load :: "u32 \<Rightarrow> 'a pctx_state_scheme \<Rightarrow> u32 \<times> 'a pctx_state_scheme" where
  "pctx_load pctx s =
     (if pctx_invalid pctx s then (1, s)
      else (0, (cpu_set_cr3 (pctx_table s (unat pctx)) s)\<lparr>active_pctx := pctx\<rparr>))"

section \<open>Switching contexts\<close>

lemma pctx_load_state:
  "snd (pctx_load pctx s) =
     s\<lparr>cr3 := (if pctx_invalid pctx s then cr3 s else pctx_table s (unat pctx)),
       active_pctx := (if pctx_invalid pctx s then active_pctx s else pctx)\<rparr>"
  by (simp add: pctx_load_def cpu_set_cr3_def)

section \<open>Cloning the current space\<close>

lemma fmt_entry [simp]: "frame_of (page_fmt f v) = frame_of f" "bit (page_fmt f 3) 0"
  by (simp_all add: page_fmt_def bit_simps)

text \<open>Addresses in the window onto the current directory, and in the one onto the foreign directory.\<close>

lemma cmap_index:
  assumes "k < 1024"
  shows "pdx (0xFFFFF000 + 4 * of_nat k) = 1023" "ptx (0xFFFFF000 + 4 * of_nat k) = 1023" "widx (0xFFFFF000 + 4 * of_nat k) = of_nat k"
proof -
  have u: "unat (0xFFFFF000 + 4 * of_nat k :: u32) = 0xFFFFF000 + 4 * k" using assms by (simp add: unat_word_ariths unat_of_nat)
  show "pdx (0xFFFFF000 + 4 * of_nat k) = 1023" "ptx (0xFFFFF000 + 4 * of_nat k) = 1023" "widx (0xFFFFF000 + 4 * of_nat k) = of_nat k"
    using assms by (simp_all add: word_unat_eq_iff unat_pdx unat_ptx unat_widx u window_arith unat_of_nat mod_add_eq [symmetric])
qed

lemma exmap_index:
  assumes "k < 1024"
  shows "pdx (exmap_at (of_nat k)) = 1022" "ptx (exmap_at (of_nat k)) = 1023" "widx (exmap_at (of_nat k)) = of_nat k"
proof -
  have u: "unat (exmap_at (of_nat k)) = 0xFFBFF000 + 4 * k" using assms by (simp add: exmap_at_def unat_word_ariths unat_of_nat)
  have d: "(0xFFBFF000 + 4 * k) div 4194304 = 1022" "(0xFFBFF000 + 4 * k) div 4096 = 1047551" "(0xFFBFF000 + 4 * k) div 4 = 1072692224 + k"
    using assms by (simp_all add: div_nat_eqI)
  show "pdx (exmap_at (of_nat k)) = 1022" "ptx (exmap_at (of_nat k)) = 1023" "widx (exmap_at (of_nat k)) = of_nat k"
    using assms by (simp_all add: word_unat_eq_iff unat_pdx unat_ptx unat_widx u d unat_of_nat mod_add_eq [symmetric])
qed

text \<open>The current directory is frame \<open>D\<close>, and the foreign one, with an entry for itself, is frame \<open>d\<close>.\<close>

definition two_spaces :: "'a machine_scheme \<Rightarrow> 20 word \<Rightarrow> 20 word \<Rightarrow> bool" where
  "two_spaces s D d \<longleftrightarrow> frame_of (cr3 s) = D \<and> d \<noteq> D \<and>
     bit (pmem s D 1023) 0 \<and> frame_of (pmem s D 1023) = D \<and> bit (pmem s D 1022) 0 \<and> frame_of (pmem s D 1022) = d \<and>
     bit (pmem s d 1023) 0 \<and> frame_of (pmem s d 1023) = d"

lemma two_spaces_read: "two_spaces s D d \<Longrightarrow> k < 1024 \<Longrightarrow> vread (0xFFFFF000 + 4 * of_nat k) s = Ok (pmem s D (of_nat k))"
  by (simp add: vread_def mmu_walk_def pte_of_def pde_of_def cmap_index two_spaces_def and_one_zero_iff)

lemma two_spaces_write:
  "two_spaces s D d \<Longrightarrow> k < 1024 \<Longrightarrow> vwrite (exmap_at (of_nat k)) v s = Ok (pmem_upd d (of_nat k) v s)"
  by (simp add: vwrite_def mmu_walk_def pte_of_def pde_of_def exmap_index two_spaces_def and_one_zero_iff)

lemma two_spaces_upd:
  assumes "two_spaces s D d" and "k < 1023"
  shows "two_spaces (pmem_upd d (of_nat k) v s) D d"
proof -
  have "(of_nat k :: 10 word) \<noteq> 1023" using assms(2) by (simp add: word_unat_eq_iff unat_of_nat)
  with assms(1) show ?thesis by (auto simp: two_spaces_def)
qed

lemma clone_loop_copies:
  assumes "two_spaces s D d" and "i + n = 1023"
  shows "clone_loop n (of_nat i) s = Ok (s\<lparr>pmem := (pmem s)(d := (\<lambda>j. if i \<le> unat j \<and> unat j < 1023 then pmem s D j else pmem s d j))\<rparr>)"
  using assms
proof (induction n arbitrary: i s)
  case 0
  then have "(\<lambda>j. if i \<le> unat j \<and> unat j < 1023 then pmem s D j else pmem s d j) = pmem s d"
    by (intro ext if_not_P) auto
  then show ?case by simp
next
  case (Suc n)
  let ?v = "pmem s D (of_nat i)"
  let ?s = "pmem_upd d (of_nat i) ?v s"
  have i: "i < 1023" using Suc.prems(2) by simp
  have D: "D \<noteq> d" using Suc.prems(1) by (auto simp: two_spaces_def)
  have e: "unat j = i \<longleftrightarrow> j = of_nat i" for j :: "10 word" using i by (auto simp: word_unat_eq_iff unat_of_nat)
  have "clone_loop (Suc n) (of_nat i) s = clone_loop n (of_nat (Suc i)) ?s"
    using i two_spaces_read [OF Suc.prems(1)] two_spaces_write [OF Suc.prems(1)] by (simp add: add.commute)
  also have "\<dots> = Ok (?s\<lparr>pmem := (pmem ?s)(d := (\<lambda>j. if Suc i \<le> unat j \<and> unat j < 1023 then pmem ?s D j else pmem ?s d j))\<rparr>)"
    by (rule Suc.IH [OF two_spaces_upd [OF Suc.prems(1) i]]) (use Suc.prems(2) in simp)
  also have "(pmem ?s)(d := (\<lambda>j. if Suc i \<le> unat j \<and> unat j < 1023 then pmem ?s D j else pmem ?s d j)) =
      (pmem s)(d := (\<lambda>j. if i \<le> unat j \<and> unat j < 1023 then pmem s D j else pmem s d j))"
  proof -
    have "(if Suc i \<le> unat j \<and> unat j < 1023 then pmem ?s D j else pmem ?s d j) =
        (if i \<le> unat j \<and> unat j < 1023 then pmem s D j else pmem s d j)" for j
      using D i e [of j] by (cases "unat j = i") auto
    then show ?thesis by (simp add: fun_eq_iff)
  qed
  finally show ?case by (simp add: pmem_upd_def)
qed

lemma space_wf_replace:
  assumes wf: "space_wf s" and d: "dir s' = (dir s)(k := v)" and c: "cr3 s' = cr3 s" and k: "k \<noteq> 1023"
    and fresh: "\<And>i. bit (dir s i) 0 \<Longrightarrow> frame_of (dir s i) \<noteq> frame_of v"
  shows "space_wf s'"
proof -
  have "i = j" if "bit (dir s' i) 0" "bit (dir s' j) 0" "frame_of (dir s' i) = frame_of (dir s' j)" for i j
    using that fresh [of i] fresh [of j] space_wf_inj [OF wf, of i j] by (auto simp: d split: if_splits)
  moreover have "bit (dir s' 1023) 0" "frame_of (dir s' 1023) = frame_of (cr3 s')"
    using k space_wf_self [OF wf] by (simp_all add: d c)
  ultimately show ?thesis unfolding space_wf_def by blast
qed

text \<open>The frame of the new directory is no table of the current space.\<close>

lemma free_not_table:
  assumes "vm_rel s (a # F) R" and "bit (dir s i) 0"
  shows "frame_of (dir s i) \<noteq> frame_of (a * PAGESZ)"
proof -
  have "frame_rel s (a # F) R" "ucast (frame_of (dir s i)) \<notin> set (a # F)" using assms unfolding vm_rel_def by blast+
  moreover from this have "ucast (frame_of (a * PAGESZ)) = a" by (intro frame_number frames.numbers) auto
  ultimately show ?thesis by (metis list.set_intros(1))
qed

lemma space_alloc_new:
  assumes vm: "vm_rel s (a # F) R" and t: "bit (dir s (pdx TMP_SRC)) 0"
  defines "d \<equiv> frame_of (a * PAGESZ)" and "v \<equiv> page_fmt (a * PAGESZ) (PF_PRES OR PF_RW)"
  obtains s' where "space_alloc s = Ok (a * PAGESZ, s')" and "vm_rel s' F (R(a \<mapsto> 1))" and "cr3 s' = cr3 s"
    and "pmem s' = (pmem s)(frame_of (dir s (pdx TMP_SRC)) := (pmem s (frame_of (dir s (pdx TMP_SRC))))(ptx TMP_SRC := v),
      d := (\<lambda>_. 0)(1023 := v))"
proof -
  let ?T = "frame_of (dir s (pdx TMP_SRC))" and ?D = "frame_of (cr3 s)"
  have p: "pdx TMP_SRC = 1020" by (simp add: pdx_def)
  have wf: "space_wf s" using vm by (simp add: vm_rel_def)
  have ne: "d \<noteq> ?T" "d \<noteq> ?D" "?T \<noteq> ?D"
    using free_not_table [OF vm t] free_not_table [OF vm space_wf_self(1) [OF wf]] space_wf_self(2) [OF wf] table_not_dir [OF wf t]
    by (auto simp: d_def p)
  obtain s1 where s1: "frame_new s = Ok (a * PAGESZ, s1)" "vm_rel s1 F (R(a \<mapsto> 1))" "dir s1 = dir s"
    using frame_new_vm [OF vm] by metis
  have m1: "pmem s1 = pmem s" "cr3 s1 = cr3 s" using frame_new_machine [OF s1(1)] by simp_all
  define s2 where "s2 = pmem_upd ?T (ptx TMP_SRC) v s1"
  have set: "page_set TMP_SRC v s1 = Ok s2"
    using page_set_present [of s1 TMP_SRC v] s1(2,3) t by (simp add: vm_rel_def s2_def)
  have vm2: "vm_rel s2 F (R(a \<mapsto> 1))" using s1(2) ne(3) m1 by (simp add: vm_rel_def s2_def)
  have pd: "pde_of s2 TMP_SRC = dir s (pdx TMP_SRC)" using ne m1 by (simp add: s2_def pde_of_def dir_def)
  have pt: "pte_of s2 TMP_SRC = v" unfolding pte_of_def pd by (simp add: s2_def)
  have v: "bit v 0" "frame_of v = d" by (simp_all add: v_def d_def)
  have "cr3 s2 = cr3 s" using m1 by (simp add: s2_def)
  then have "backs s2 TMP_SRC d"
    using t ne v by (simp add: backs_def mmu_walk_def pd pt and_one_zero_iff)
  then have clr: "memclr TMP_SRC 4096 s2 = Ok (s2\<lparr>pmem := (pmem s2)(d := (\<lambda>_. 0))\<rparr>)" by (rule memclr_page) simp
  define s3 where "s3 = s2\<lparr>pmem := (pmem s2)(d := (\<lambda>_. 0))\<rparr>"
  define w :: u32 where "w = TMP_SRC + 4 * drop_bit 22 PGE_MAP"
  let ?s' = "pmem_upd d 1023 v s3"
  have w: "pdx w = pdx TMP_SRC" "ptx w = ptx TMP_SRC" "widx w = 1023" by (simp_all add: pdx_def ptx_def widx_def w_def)
  have "pde_of s3 w = dir s (pdx TMP_SRC)" using pd ne m1 by (simp add: pde_of_def s3_def s2_def w)
  moreover from this have "pte_of s3 w = v" unfolding pte_of_def using ne by (simp add: w s3_def s2_def)
  ultimately have "mmu_walk s3 w = Ok (d, 1023)" using t v by (simp add: mmu_walk_def w and_one_zero_iff)
  then have wr: "vwrite w v s3 = Ok ?s'" by (simp add: vwrite_def)
  have "space_alloc s = Ok (a * PAGESZ, ?s')"
    using s1(1) set clr wr by (simp add: space_alloc_def v_def w_def flip: s3_def)
  moreover have "vm_rel ?s' F (R(a \<mapsto> 1))"
  proof -
    have "dir ?s' = dir s2" "cr3 ?s' = cr3 s2" using ne m1 by (simp_all add: dir_def fun_eq_iff s3_def s2_def)
    moreover have "frame_rel ?s' F (R(a \<mapsto> 1)) = frame_rel s2 F (R(a \<mapsto> 1))" "out_of_memory ?s' = out_of_memory s2"
      by (simp_all add: s3_def)
    ultimately show ?thesis using vm2 by (simp add: vm_rel_def space_wf_def)
  qed
  moreover have "cr3 ?s' = cr3 s" "pmem ?s' = (pmem s)(?T := (pmem s ?T)(ptx TMP_SRC := v), d := (\<lambda>_. 0)(1023 := v))"
    using m1 by (simp_all add: s3_def s2_def)
  ultimately show thesis by (rule that)
qed

text \<open>
  After a clone: the new directory in \<open>d\<close> has the system half of the current one, no user half, and an entry for itself, and the
  current space differs from before in the two temporary mappings only.
\<close>

lemma space_clone_new:
  assumes vm: "vm_rel s (a # F) R" and t: "bit (dir s (pdx TMP_SRC)) 0"
  defines "d \<equiv> frame_of (a * PAGESZ)" and "v \<equiv> page_fmt (a * PAGESZ) (PF_PRES OR PF_RW)" and "T \<equiv> frame_of (dir s (pdx TMP_SRC))"
  obtains s' where "space_clone s = Ok (a * PAGESZ, s')" and "vm_rel s' F (R(a \<mapsto> 1))" and "cr3 s' = cr3 s"
    and "pmem s' = (pmem s)(T := (pmem s T)(ptx TMP_SRC := v), frame_of (cr3 s) := (dir s)(1022 := v),
      d := (\<lambda>j. if j = 1022 \<or> j = 1023 then v else if 768 \<le> unat j then dir s j else 0))"
proof -
  let ?D = "frame_of (cr3 s)"
  obtain s1 where s1: "space_alloc s = Ok (a * PAGESZ, s1)" "vm_rel s1 F (R(a \<mapsto> 1))" "cr3 s1 = cr3 s"
    and m1: "pmem s1 = (pmem s)(T := (pmem s T)(ptx TMP_SRC := v), d := (\<lambda>_. 0)(1023 := v))"
    using space_alloc_new [OF vm t] unfolding d_def v_def T_def by metis
  have wf: "space_wf s" "space_wf s1" using vm s1(2) by (simp_all add: vm_rel_def)
  have ne: "d \<noteq> T" "d \<noteq> ?D" "T \<noteq> ?D"
    using free_not_table [OF vm t] free_not_table [OF vm space_wf_self(1) [OF wf(1)]] space_wf_self(2) [OF wf(1)] table_not_dir [OF wf(1) t]
    by (auto simp: d_def T_def pdx_def)
  have d1: "dir s1 = dir s" using ne s1(3) by (simp add: dir_def fun_eq_iff m1)
  define s2 where "s2 = pmem_upd ?D 1022 v s1"
  have ex: "space_exmap (a * PAGESZ) s1 = Ok s2"
  proof -
    have "pdx TMP_MAP = 1022" by (simp add: pdx_def)
    then show ?thesis using walk_cmap [OF wf(2), of TMP_MAP] s1(3) by (simp add: space_exmap_def vwrite_def s2_def v_def)
  qed
  have d2: "dir s2 = (dir s)(1022 := v)" using s1(3) d1 by (auto simp: dir_def s2_def fun_eq_iff)
  have v: "bit v 0" "frame_of v = d" by (simp_all add: v_def d_def)
  have D: "pmem s2 ?D = (dir s)(1022 := v)" and d: "pmem s2 d = (\<lambda>_. 0)(1023 := v)"
    using ne d1 s1(3) by (auto simp: s2_def m1 dir_def)
  then have two: "two_spaces s2 ?D d"
    using ne s1(3) space_wf_self [OF wf(1)] v by (simp add: two_spaces_def) (simp add: s2_def)
  let ?s' = "s2\<lparr>pmem := (pmem s2)(d := (\<lambda>j. if 768 \<le> unat j \<and> unat j < 1023 then pmem s2 ?D j else pmem s2 d j))\<rparr>"
  have "clone_loop 255 (of_nat 768) s2 = Ok ?s'" by (rule clone_loop_copies [OF two]) simp
  then have "space_clone s = Ok (a * PAGESZ, ?s')" using s1(1) ex by (simp add: space_clone_def)
  moreover have "vm_rel ?s' F (R(a \<mapsto> 1))"
  proof -
    have dir: "dir ?s' = (dir s)(1022 := v)" using ne d2 s1(3) by (auto simp: dir_def s2_def fun_eq_iff)
    have "frame_rel ?s' F (R(a \<mapsto> 1))" "\<not> out_of_memory ?s'" using s1(2) by (simp_all add: vm_rel_def s2_def)
    moreover have "\<And>i. bit (dir s i) 0 \<Longrightarrow> ucast (frame_of (dir s i)) \<notin> set F" using vm by (auto simp: vm_rel_def)
    moreover have "space_wf ?s'"
      by (rule space_wf_replace [OF wf(1) dir]) (use free_not_table [OF vm] v s1(3) in \<open>auto simp: d_def s2_def\<close>)
    moreover have "ucast (frame_of v) \<notin> set F"
    proof -
      have rel: "frame_rel s (a # F) R" using vm by (simp add: vm_rel_def)
      then have "ucast (frame_of v) = a" unfolding v(2) d_def by (intro frame_number frames.numbers) auto
      then show ?thesis using frame_rel_free_unused(1) [OF rel] by simp
    qed
    ultimately show ?thesis unfolding vm_rel_def dir by auto
  qed
  moreover have "cr3 ?s' = cr3 s" using s1(3) by (simp add: s2_def)
  moreover have "pmem ?s' = (pmem s)(T := (pmem s T)(ptx TMP_SRC := v), ?D := (dir s)(1022 := v),
      d := (\<lambda>j. if j = 1022 \<or> j = 1023 then v else if 768 \<le> unat j then dir s j else 0))"
  proof -
    have "unat j < 1023 \<longleftrightarrow> j \<noteq> 1023" for j :: "10 word" using unat_less_idx [of j] by (auto simp: word_unat_eq_iff)
    then have "(\<lambda>j. if 768 \<le> unat j \<and> unat j < 1023 then pmem s2 ?D j else pmem s2 d j) =
        (\<lambda>j. if j = 1022 \<or> j = 1023 then v else if 768 \<le> unat j then dir s j else 0)"
      unfolding D d by (auto simp: fun_eq_iff)
    then show ?thesis using ne by (auto simp: s2_def m1 dir_def fun_eq_iff)
  qed
  ultimately show thesis by (rule that)
qed

lemma pctx_find_free_first:
  "i \<le> k \<Longrightarrow> k < i + n \<Longrightarrow> tab k = 0 \<Longrightarrow> (\<And>j. i \<le> j \<Longrightarrow> j < k \<Longrightarrow> tab j \<noteq> 0) \<Longrightarrow> pctx_find_free n i tab = Some k"
proof (induction n arbitrary: i)
  case (Suc n)
  show ?case
  proof (cases "i = k")
    case False
    then have "tab i \<noteq> 0" using Suc.prems by auto
    then show ?thesis using Suc.IH [of "Suc i"] Suc.prems False by simp
  qed (use Suc.prems in simp)
qed simp

lemma vm_rel_pctx [simp]: "vm_rel (s\<lparr>pctx_table := x\<rparr>) F R = vm_rel s F R"
  by (simp add: vm_rel_def space_wf_def dir_def frame_rel_def frame_wf_def)

text \<open>The translation in a cloned space, and in the current one after the clone.\<close>

lemma clone_walk:
  assumes vm: "vm_rel s (a # F) R" and t: "bit (dir s (pdx TMP_SRC)) 0"
    and m: "pmem s' = (pmem s)(frame_of (dir s (pdx TMP_SRC)) := (pmem s (frame_of (dir s (pdx TMP_SRC))))(ptx TMP_SRC := v),
      frame_of (cr3 s) := x, frame_of (a * PAGESZ) := y)"
    and d: "pmem s' (frame_of (cr3 s')) (pdx va) = dir s (pdx va)" and va: "pdx va \<noteq> 1023" "frame_of va \<noteq> frame_of TMP_SRC"
  shows "mmu_walk s' va = mmu_walk s va"
proof (cases "bit (dir s (pdx va)) 0")
  case True
  have wf: "space_wf s" using vm by (simp add: vm_rel_def)
  have ne: "frame_of (dir s (pdx va)) \<noteq> frame_of (a * PAGESZ)" "frame_of (dir s (pdx va)) \<noteq> frame_of (cr3 s)"
    using free_not_table [OF vm True] table_not_dir [OF wf True va(1)] by auto
  have "pdx va = pdx TMP_SRC \<Longrightarrow> ptx va \<noteq> ptx TMP_SRC" using page_index_inj va(2) by blast
  moreover have "frame_of (dir s (pdx va)) = frame_of (dir s (pdx TMP_SRC)) \<Longrightarrow> pdx va = pdx TMP_SRC"
    by (rule space_wf_inj [OF wf True t])
  ultimately have "pmem s' (frame_of (dir s (pdx va))) (ptx va) = pmem s (frame_of (dir s (pdx va))) (ptx va)"
    using ne by (auto simp: m)
  with d show ?thesis by (simp add: mmu_walk_def pte_of_def pde_of_def flip: dir_def)
next
  case False
  with d show ?thesis by (simp add: mmu_walk_def pde_of_def and_one_zero_iff flip: dir_def)
qed

section \<open>Properties\<close>

text \<open>
  C12: A new paging context is isolated. Once context 0 exists (the first call of all clones twice, for context 0 and for its result, and is not covered), with consistent page tables and frame allocator, a
  free frame other than frame 0, and the table of the temporary mapping present, \<open>pctx_new\<close> takes the first free number and the first free frame for its directory; after a switch to it, no
  address of the user part is mapped, and the addresses of the system part, apart from the page of the temporary mapping and the two windows on page tables, lead where they led before.
  The page tables of the current context and the frame allocator stay consistent.
\<close>

theorem pctx_new_isolated:
  assumes "vm_rel s (a # F) R" and "a \<noteq> 0" and "bit (dir s (pdx TMP_SRC)) 0" and "pctx_table s 0 \<noteq> 0"
    and "i < PCTX_COUNT" and "pctx_table s i = 0" and "\<And>j. j < i \<Longrightarrow> pctx_table s j \<noteq> 0"
  shows "\<exists>s' t. pctx_new s = Ok (of_nat i, s') \<and> vm_rel s' F (R(a \<mapsto> 1)) \<and> pctx_load (of_nat i) s' = (0, t) \<and>
    (\<forall>va. va < SYSTEM_ADDR_BASE \<longrightarrow> mmu_walk t va = Stop (PageFault va)) \<and>
    (\<forall>va. SYSTEM_ADDR_BASE \<le> va \<and> pdx va < 1022 \<and> frame_of va \<noteq> frame_of TMP_SRC \<longrightarrow> mmu_walk t va = mmu_walk s va)"
proof -
  let ?d = "frame_of (a * PAGESZ)"
  define v where "v = page_fmt (a * PAGESZ) (PF_PRES OR PF_RW)"
  obtain s1 where c: "space_clone s = Ok (a * PAGESZ, s1)" "vm_rel s1 F (R(a \<mapsto> 1))"
    and m: "pmem s1 = (pmem s)(frame_of (dir s (pdx TMP_SRC)) := (pmem s (frame_of (dir s (pdx TMP_SRC))))(ptx TMP_SRC := v),
      frame_of (cr3 s) := (dir s)(1022 := v),
      ?d := (\<lambda>j. if j = 1022 \<or> j = 1023 then v else if 768 \<le> unat j then dir s j else 0))"
    by (rule space_clone_new [OF assms(1,3)], rule that, assumption, assumption) (simp only: v_def)
  let ?s' = "s1\<lparr>pctx_table := (pctx_table s1)(i := a * PAGESZ)\<rparr>"
  let ?t = "?s'\<lparr>cr3 := a * PAGESZ, active_pctx := of_nat i\<rparr>"
  have i: "i \<noteq> 0" using assms(4,6) by (metis)
  have "pctx_find_free PCTX_COUNT 0 (pctx_table s) = Some i" by (rule pctx_find_free_first) (use assms(5-7) in auto)
  then have new: "pctx_new s = Ok (of_nat i, ?s')" using c(1) assms(4) by (simp add: pctx_new_def)
  have load: "pctx_load (of_nat i) ?s' = (0, ?t)"
  proof -
    have rel: "frame_rel s (a # F) R" using assms(1) by (simp add: vm_rel_def)
    then have "ucast (frame_of (a * PAGESZ)) = a" by (intro frame_number frames.numbers) auto
    then have "a * PAGESZ \<noteq> 0" using assms(2) by (auto simp: frame_of_def)
    moreover have "unat (of_nat i :: u32) = i" using assms(5) by (simp add: unat_of_nat)
    moreover from this have "sint (of_nat i :: u32) = int i" using assms(5) sint_small [of "of_nat i"] by simp
    ultimately show ?thesis using assms(5) i by (simp add: pctx_load_def pctx_invalid_def cpu_set_cr3_def)
  qed
  have user: "mmu_walk ?t va = Stop (PageFault va)" if "va < SYSTEM_ADDR_BASE" for va
  proof -
    have "unat (pdx va) < 768" using that by (simp add: unat_pdx word_less_nat_alt)
    then have "pdx va \<noteq> 1022" "pdx va \<noteq> 1023" "\<not> 768 \<le> unat (pdx va)" by (auto simp: word_unat_eq_iff)
    then show ?thesis by (simp add: mmu_walk_def pde_of_def m)
  qed
  have sys: "mmu_walk ?t va = mmu_walk s va" if "SYSTEM_ADDR_BASE \<le> va" "pdx va < 1022" "frame_of va \<noteq> frame_of TMP_SRC" for va
  proof -
    have "768 \<le> unat (pdx va)" "pdx va \<noteq> 1023" "pdx va \<noteq> 1022"
      using that(1,2) by (simp add: unat_pdx word_le_nat_alt) (use that(2) in auto)
    then show ?thesis by (intro clone_walk [OF assms(1,3), of _ v]) (use that(3) in \<open>simp_all add: m\<close>)
  qed
  show ?thesis using new load user sys c(2) by (intro exI [of _ ?s'] exI [of _ ?t]) simp
qed

text \<open>The example state of the allocator with a table for the temporary mapping, and one context.\<close>

definition demo_spaces :: pctx_state where
  "demo_spaces = (heap_state.extend demo_heap (pctx_state.fields ((\<lambda>_. 0)(0 := 0x1000)) 0))
     \<lparr>pmem := (\<lambda>_ _. 0)(1 := (\<lambda>_. 0)(0 := 0x2003, 1020 := 0x3003, 1023 := 0x1003), 2 := (\<lambda>_. 0)(3 := 0x5003))\<rparr>"

lemma demo_spaces_vm: "vm_rel demo_spaces [7, 8] Map.empty" "bit (dir demo_spaces (pdx TMP_SRC)) 0"
proof -
  have c: "cr3 demo_spaces = 0x1000" "out_of_memory demo_spaces = False"
    by (simp_all add: demo_spaces_def demo_heap_def heap_state.defs pctx_state.defs frame_state.defs demo_frames_def)
  have d: "dir demo_spaces i = (if i = 1023 then 0x1003 else if i = 1020 then 0x3003 else if i = 0 then 0x2003 else 0)" for i
    by (simp add: dir_def c) (simp add: demo_spaces_def frame_of_def)
  have "frame_rel demo_spaces [7, 8] Map.empty = frame_rel demo_frames [7, 8] Map.empty"
    by (simp add: frame_rel_def frame_wf_def demo_spaces_def demo_heap_def heap_state.defs pctx_state.defs frame_state.defs demo_frames_def)
  moreover have "frame_of (0x1003 :: u32) = 1" "frame_of (0x2003 :: u32) = 2" "frame_of (0x3003 :: u32) = 3" "frame_of (0x1000 :: u32) = 1"
    "bit (0x1003 :: u32) 0" "bit (0x2003 :: u32) 0" "bit (0x3003 :: u32) 0"
    by (simp_all add: frame_of_def bit_0)
  ultimately show "vm_rel demo_spaces [7, 8] Map.empty" "bit (dir demo_spaces (pdx TMP_SRC)) 0"
    using demo_frames_rel c by (auto simp: vm_rel_def space_wf_def d pdx_def split: if_splits)
qed

theorem pctx_new_isolated_witness:
  "\<exists>s' t. pctx_new demo_spaces = Ok (1, s') \<and> pctx_load 1 s' = (0, t) \<and> mmu_walk demo_spaces 0x3000 = Ok (5, 0) \<and>
     mmu_walk t 0x3000 = Stop (PageFault 0x3000)"
proof -
  have "pctx_table demo_spaces = (\<lambda>_. 0)(0 := 0x1000)" by (simp add: demo_spaces_def heap_state.defs pctx_state.defs)
  then have "\<exists>s' t. pctx_new demo_spaces = Ok (of_nat 1, s') \<and> vm_rel s' [8] (Map.empty(7 \<mapsto> 1)) \<and> pctx_load (of_nat 1) s' = (0, t) \<and>
    (\<forall>va. va < SYSTEM_ADDR_BASE \<longrightarrow> mmu_walk t va = Stop (PageFault va)) \<and>
    (\<forall>va. SYSTEM_ADDR_BASE \<le> va \<and> pdx va < 1022 \<and> frame_of va \<noteq> frame_of TMP_SRC \<longrightarrow> mmu_walk t va = mmu_walk demo_spaces va)"
    by (intro pctx_new_isolated [OF demo_spaces_vm(1) _ demo_spaces_vm(2)]) auto
  moreover have "mmu_walk demo_spaces 0x3000 = Ok (5, 0)"
    by (simp add: mmu_walk_def pde_of_def pte_of_def demo_spaces_def demo_heap_def heap_state.defs frame_state.defs demo_frames_def
        frame_of_def pdx_def ptx_def widx_def)
  ultimately show ?thesis by fastforce
qed

end
