(* ===== verification/Keeps.thy ===== *)
theory Keeps
  imports Pctx
begin

text \<open>
  What the lower layers leave alone. The state of the kernel is a record that grows from layer to
  layer (machine, frames, heap, paging contexts, interrupts, threads); an operation of a layer
  changes nothing of the layers above it, which is the part \<open>more\<close> of the record. The facts are
  collected in \<open>keeps\<close>.
\<close>

named_theorems keeps "operations that leave the upper part of the state alone"

section \<open>From layer to layer\<close>

lemma frame_more_of_machine: "machine.more s' = machine.more s \<Longrightarrow> frame_state.more s' = frame_state.more s"
  by (cases s; cases s') simp

lemma heap_more_of_frame: "frame_state.more s' = frame_state.more s \<Longrightarrow> heap_state.more s' = heap_state.more s"
  by (cases s; cases s') simp

lemma pctx_more_of_heap: "heap_state.more s' = heap_state.more s \<Longrightarrow> pctx_state.more s' = pctx_state.more s"
  by (cases s; cases s') simp

lemmas more_up = frame_more_of_machine heap_more_of_frame pctx_more_of_heap

section \<open>Machine\<close>

lemma ports_only_keeps: "ports_only s s' \<Longrightarrow> machine.more s' = machine.more s"
  by (auto simp: ports_only_def)

lemma debug_printf_keeps [keeps]: "debug_printf fmt ap s = Ok s' \<Longrightarrow> machine.more s' = machine.more s"
  by (rule ports_only_keeps) (rule debug_printf_ports)

lemma vwrite_keeps [keeps]: "vwrite p v s = Ok s' \<Longrightarrow> machine.more s' = machine.more s"
  by (auto dest: vwrite_only)

lemma vwrite8_keeps [keeps]: "vwrite8 p b s = Ok s' \<Longrightarrow> machine.more s' = machine.more s"
  by (auto dest: vwrite8_only)

lemma store_bytes_keeps [keeps]: "store_bytes p bs s = Ok s' \<Longrightarrow> machine.more s' = machine.more s"
  by (auto dest: store_bytes_only)

lemma memclr_keeps [keeps]: "memclr p n s = Ok s' \<Longrightarrow> machine.more s' = machine.more s"
  by (induction n arbitrary: p s) (auto simp: and_then_eq_Ok dest: vwrite8_keeps)

lemma memcpy_keeps [keeps]: "memcpy d p n s = Ok s' \<Longrightarrow> machine.more s' = machine.more s"
  by (induction n arbitrary: d p s) (auto simp: and_then_eq_Ok dest: vwrite8_keeps)

section \<open>Frames and pages\<close>

lemma fs_upd_keeps [simp]: "frame_state.more (fs_upd p g s) = frame_state.more s"
  by (simp add: fs_upd_def)

lemma frame_pull_keeps [simp]: "frame_state.more (frame_pull fs s) = frame_state.more s"
  by (simp add: frame_pull_def Let_def)

lemma frame_free_keeps [keeps]: "frame_free f s = Ok s' \<Longrightarrow> frame_state.more s' = frame_state.more s"
  by (auto simp: frame_free_def Let_def and_then_eq_Ok split: if_splits)

lemma frame_new_keeps [keeps]: "frame_new s = Ok (f, s') \<Longrightarrow> frame_state.more s' = frame_state.more s"
proof (induction s rule: frame_new.induct)
  case (1 s)
  show ?case
  proof (cases "\<not> out_of_memory s \<and> frame_list s = NULL")
    case True
    then have "frame_new (s\<lparr>out_of_memory := True\<rparr>) = Ok (f, s')"
      using "1.prems" by (subst (asm) frame_new.simps) simp
    then show ?thesis using "1.IH" True by simp
  next
    case False
    then show ?thesis
      using "1.prems" by (subst (asm) frame_new.simps) (auto simp: Let_def debug_panic_stops split: if_splits)
  qed
qed

lemma frame_link_keeps [simp]: "frame_state.more (frame_link fs frame s) = frame_state.more s"
  by (simp add: frame_link_def Let_def)

lemma page_touch_keeps [keeps]: "page_touch page s = Ok s' \<Longrightarrow> frame_state.more s' = frame_state.more s"
  by (auto simp: page_touch_def Let_def and_then_eq_Ok split: if_splits
      dest!: frame_new_keeps vwrite_keeps memclr_keeps frame_more_of_machine)

lemma page_set_keeps [keeps]: "page_set page v s = Ok s' \<Longrightarrow> frame_state.more s' = frame_state.more s"
  by (auto simp: page_set_def and_then_eq_Ok split: if_splits
      dest!: vwrite_keeps page_touch_keeps frame_more_of_machine)

lemma mem_alloc_loop_keeps: "mem_alloc_loop i limit flags s = Ok s' \<Longrightarrow> frame_state.more s' = frame_state.more s"
proof (induction "4294967296 - unat i" arbitrary: i s rule: less_induct)
  case less
  show ?case
  proof (cases "i < limit")
    case True
    then obtain s1 where s1: "alloc_page i flags s = Ok s1" and p: "\<not> i + 0x1000 < i"
        "mem_alloc_loop (i + 0x1000) limit flags s1 = Ok s'"
      using less.prems by (subst (asm) mem_alloc_loop_unfold) (auto simp: and_then_eq_Ok split: if_splits)
    have "i < i + 0x1000" using p(1) by (simp add: not_less order.strict_iff_order)
    then have m: "4294967296 - unat (i + 0x1000) < 4294967296 - unat i"
      using unat_less_u32 [of "i + 0x1000"] by (simp add: word_less_nat_alt)
    have "frame_state.more s1 = frame_state.more s"
      using s1 by (auto simp: alloc_page_def and_then_eq_Ok split: if_splits dest!: frame_new_keeps page_set_keeps)
    then show ?thesis using less.hyps [OF m p(2)] by simp
  next
    case False
    then show ?thesis using less.prems by (subst (asm) mem_alloc_loop_unfold) simp
  qed
qed

lemma mem_alloc_keeps [keeps]: "mem_alloc base sz flags s = Ok s' \<Longrightarrow> frame_state.more s' = frame_state.more s"
  unfolding mem_alloc_def by (rule mem_alloc_loop_keeps)

section \<open>Heap\<close>

lemma heap_free_keeps [keeps]: "heap_free p sz s = Ok s' \<Longrightarrow> heap_state.more s' = heap_state.more s"
  by (auto simp: heap_free_def Let_def and_then_eq_Ok split: if_splits
      dest!: vwrite_keeps frame_more_of_machine heap_more_of_frame)

lemma heap_valloc_keeps [keeps]: "heap_valloc sz s = Ok (p, s') \<Longrightarrow> heap_state.more s' = heap_state.more s"
  by (auto simp: heap_valloc_def Let_def and_then_eq_Ok debug_panic_stops split: if_splits
      dest!: frame_new_keeps page_set_keeps mem_alloc_keeps heap_more_of_frame)

lemma slab_loop_keeps [keeps]: "slab_loop b n p s = Ok s' \<Longrightarrow> heap_state.more s' = heap_state.more s"
  by (induction n arbitrary: p s) (auto simp: and_then_eq_Ok dest: heap_free_keeps)

lemma heap_new_slab_keeps [keeps]: "heap_new_slab b s = Ok s' \<Longrightarrow> heap_state.more s' = heap_state.more s"
  by (auto simp: heap_new_slab_def and_then_eq_Ok split: if_splits dest!: heap_valloc_keeps slab_loop_keeps)

lemma heap_alloc_keeps [keeps]: "heap_alloc sz s = Ok (p, s') \<Longrightarrow> heap_state.more s' = heap_state.more s"
  by (auto simp: heap_alloc_def Let_def and_then_eq_Ok split: if_splits
      dest!: heap_new_slab_keeps memclr_keeps frame_more_of_machine heap_more_of_frame)

section \<open>Paging contexts\<close>

lemma space_alloc_keeps [keeps]: "space_alloc s = Ok (f, s') \<Longrightarrow> frame_state.more s' = frame_state.more s"
  by (auto simp: space_alloc_def and_then_eq_Ok dest!: frame_new_keeps page_set_keeps memclr_keeps vwrite_keeps frame_more_of_machine)

lemma space_exmap_keeps [keeps]: "space_exmap f s = Ok s' \<Longrightarrow> machine.more s' = machine.more s"
  by (auto simp: space_exmap_def and_then_eq_Ok dest: vwrite_keeps)

lemma clone_loop_keeps [keeps]: "clone_loop n i s = Ok s' \<Longrightarrow> machine.more s' = machine.more s"
  by (induction n arbitrary: i s) (auto simp: and_then_eq_Ok dest: vwrite_keeps)

lemma space_clone_keeps [keeps]: "space_clone s = Ok (f, s') \<Longrightarrow> frame_state.more s' = frame_state.more s"
  by (auto simp: space_clone_def and_then_eq_Ok dest!: space_alloc_keeps space_exmap_keeps clone_loop_keeps frame_more_of_machine)

lemma free_table_loop_keeps [keeps]: "free_table_loop n k s = Ok s' \<Longrightarrow> frame_state.more s' = frame_state.more s"
  by (induction n arbitrary: k s)
    (auto simp: and_then_eq_Ok split: if_splits dest!: frame_free_keeps vwrite_keeps frame_more_of_machine)

lemma free_dir_loop_keeps [keeps]: "free_dir_loop n i s = Ok s' \<Longrightarrow> frame_state.more s' = frame_state.more s"
  by (induction n arbitrary: i s)
    (auto simp: and_then_eq_Ok split: if_splits dest!: free_table_loop_keeps frame_free_keeps vwrite_keeps frame_more_of_machine)

lemma space_free_keeps [keeps]: "space_free f s = Ok s' \<Longrightarrow> frame_state.more s' = frame_state.more s"
  by (auto simp: space_free_def and_then_eq_Ok dest!: space_exmap_keeps free_dir_loop_keeps frame_free_keeps frame_more_of_machine)

lemma pctx_init_keeps [keeps]: "pctx_init s = Ok s' \<Longrightarrow> pctx_state.more s' = pctx_state.more s"
  by (auto simp: pctx_init_def and_then_eq_Ok dest!: space_clone_keeps heap_more_of_frame pctx_more_of_heap)

lemma pctx_new_keeps [keeps]: "pctx_new s = Ok (r, s') \<Longrightarrow> pctx_state.more s' = pctx_state.more s"
  by (auto simp: pctx_new_def and_then_eq_Ok split: if_splits option.splits
      dest!: pctx_init_keeps space_clone_keeps heap_more_of_frame pctx_more_of_heap)

lemma pctx_free_keeps [keeps]: "pctx_free p s = Ok (r, s') \<Longrightarrow> pctx_state.more s' = pctx_state.more s"
  by (auto simp: pctx_free_def and_then_eq_Ok split: if_splits dest!: space_free_keeps heap_more_of_frame pctx_more_of_heap)

end
