(* ===== verification/Intr.thy ===== *)
theory Intr
  imports Keeps
begin

text \<open>
  The interrupt hardware (\<open>src/kernel/interrupt.c\<close>, except for the dispatcher and the timer
  handler): the table of handlers, the interrupt descriptor table, the task state segment, the two
  8259 interrupt controllers and the 8253 timer.
\<close>

record idt_entry =
  base_l :: u16
  idt_seg :: u16
  idt_reserved :: u8
  idt_flags :: u8
  base_h :: u16

record tss_seg =
  tss_prev :: u32
  tss_esp0 :: u32
  tss_ss0 :: u32
  tss_es :: u32
  tss_cs :: u32
  tss_ss :: u32
  tss_ds :: u32
  tss_fs :: u32
  tss_gs :: u32
  tss_ldt :: u32
  tss_trap :: u16
  tss_iomap_base :: u16

text \<open>The C functions that are registered as handlers.\<close>

datatype handler = H_kcall | H_fault_generic | H_fault_page | H_fault_double | H_timer

text \<open>
  The table of handlers of a kernel that has booted: the exceptions 0 to 19 without the reserved number 15, the timer at 32 and the kernel call
  at 129.
\<close>

definition kernel_handlers :: "u8 \<Rightarrow> handler option" where
  "kernel_handlers n =
     (if n = 32 then Some H_timer else if n = 129 then Some H_kcall else if n = 14 then Some H_fault_page
      else if n = 8 then Some H_fault_double else if n < 20 \<and> n \<noteq> 15 then Some H_fault_generic else None)"

text \<open>
  \<open>int_stub n\<close> is the address of the assembly entry point \<open>int<n>\<close> and \<open>tss_addr\<close> the address of
  the task state segment, both fixed by the linker.
\<close>

record intr_state = pctx_state +
  is_init :: bool
  int_handler_tab :: "u8 \<Rightarrow> handler option"
  idt :: "u8 \<Rightarrow> idt_entry"
  idt_loaded :: bool
  tss :: tss_seg
  gdt :: "nat \<Rightarrow> u8"
  irq_mask_reg :: u16
  pit_freq :: u32
  int_stub :: "nat \<Rightarrow> u32"
  tss_addr :: u32

section \<open>Descriptor tables\<close>

definition idt_set :: "u8 \<Rightarrow> u32 \<Rightarrow> u16 \<Rightarrow> u8 \<Rightarrow> 'a intr_state_scheme \<Rightarrow> 'a intr_state_scheme" where
  "idt_set n base sg fl s =
     (if base = 0 then s
      else s\<lparr>idt := (idt s)(n :=
             \<lparr>base_l = ucast (base AND 0xFFFF), idt_seg = sg, idt_reserved = 0, idt_flags = fl,
              base_h = ucast (drop_bit 16 base)\<rparr>)\<rparr>)"

definition idt_raw :: "(nat \<Rightarrow> u32) \<Rightarrow> nat \<Rightarrow> u32" where
  "idt_raw stub i = (if i \<le> 19 \<or> 32 \<le> i \<and> i \<le> 47 then stub i else NULL)"

primrec init_idt_loop :: "nat \<Rightarrow> nat \<Rightarrow> 'a intr_state_scheme \<Rightarrow> 'a intr_state_scheme" where
  "init_idt_loop 0 i s = s"
| "init_idt_loop (Suc n) i s =
     init_idt_loop n (Suc i)
       (if idt_raw (int_stub s) i \<noteq> NULL
        then idt_set (of_nat i) (idt_raw (int_stub s) i) 0x08 0x8E s else s)"

definition init_tss :: "'a intr_state_scheme \<Rightarrow> 'a intr_state_scheme" where
  "init_tss s =
     (let base = tss_addr s;
          limit = (ucast (base + 104 - 1) :: u16)
      in s\<lparr>tss := \<lparr>tss_prev = 0, tss_esp0 = 0, tss_ss0 = 0x10, tss_es = 0x10, tss_cs = 0x08, tss_ss = 0,
                  tss_ds = 0x10, tss_fs = 0x10, tss_gs = 0x10, tss_ldt = 0, tss_trap = 0,
                  tss_iomap_base = 104\<rparr>,
           gdt := (gdt s)(56 := ucast (limit AND 0xFF), 57 := ucast (drop_bit 8 limit AND 0xFF),
                  58 := ucast (base AND 0xFF), 59 := ucast (drop_bit 8 base AND 0xFF),
                  60 := ucast (drop_bit 16 base AND 0xFF), 63 := ucast (drop_bit 24 base AND 0xFF))\<rparr>)"

definition init_idt :: "'a intr_state_scheme \<Rightarrow> 'a intr_state_scheme" where
  "init_idt s =
     (let s = init_idt_loop 64 0 s;
          s = idt_set 129 (int_stub s 129) 0x08 0xEE s;
          s = s\<lparr>idt_loaded := True\<rparr>
      in init_tss s)"

definition int_set_handler :: "u8 \<Rightarrow> handler \<Rightarrow> 'a intr_state_scheme \<Rightarrow> 'a intr_state_scheme" where
  "int_set_handler n h s =
     (let s = (if \<not> is_init s then (init_idt s)\<lparr>is_init := True\<rparr> else s)
      in s\<lparr>int_handler_tab := (int_handler_tab s)(n \<mapsto> h)\<rparr>)"

definition set_int_stack :: "ptr \<Rightarrow> 'a intr_state_scheme \<Rightarrow> 'a intr_state_scheme" where
  "set_int_stack p s = s\<lparr>tss := (tss s)\<lparr>tss_esp0 := p\<rparr>\<rparr>"

section \<open>Interrupt controllers\<close>

text \<open>\<open>1 << irq\<close> is a shift of an \<open>int\<close>, which is undefined from 31 on.\<close>

definition irq_bit :: "u8 \<Rightarrow> u16" where
  "irq_bit irq = ucast (push_bit (unat irq) (1 :: u32))"

definition irq_write_mask :: "u8 \<Rightarrow> 'a intr_state_scheme \<Rightarrow> 'a intr_state_scheme" where
  "irq_write_mask irq s =
     (if irq > 7 then outb 0xA1 (ucast (drop_bit 8 (irq_mask_reg s))) s
      else outb 0x21 (ucast (irq_mask_reg s AND 0xFF)) s)"

definition irq_mask :: "u8 \<Rightarrow> 'a intr_state_scheme \<Rightarrow> 'a intr_state_scheme outcome" where
  "irq_mask irq s =
     (if irq \<ge> 31 then Stop Undefined
      else Ok (irq_write_mask irq (s\<lparr>irq_mask_reg := irq_mask_reg s OR irq_bit irq\<rparr>)))"

definition irq_unmask :: "u8 \<Rightarrow> 'a intr_state_scheme \<Rightarrow> 'a intr_state_scheme outcome" where
  "irq_unmask irq s =
     (if irq \<ge> 31 then Stop Undefined
      else Ok (irq_write_mask irq (s\<lparr>irq_mask_reg := irq_mask_reg s AND NOT (irq_bit irq)\<rparr>)))"

definition irq_reset :: "u8 \<Rightarrow> 'a machine_scheme \<Rightarrow> u32 \<times> 'a machine_scheme" where
  "irq_reset irq s =
     (if irq > 16 then (1, s)
      else (0, outb 0x20 0x20 (if irq > 8 then outb 0xA0 0x20 s else s)))"

definition irq_init :: "'a machine_scheme \<Rightarrow> 'a machine_scheme" where
  "irq_init s =
     outb 0xA1 0x00 (outb 0x21 0x00 (outb 0xA1 0x01 (outb 0x21 0x01 (outb 0xA1 0x02 (outb 0x21 0x04
       (outb 0xA1 0x28 (outb 0x21 0x20 (outb 0xA0 0x11 (outb 0x20 0x11 s)))))))))"

section \<open>Timer\<close>

definition timer_set_freq :: "u32 \<Rightarrow> 'a intr_state_scheme \<Rightarrow> (u32 \<times> 'a intr_state_scheme) outcome" where
  "timer_set_freq hertz s =
     (if hertz = 0 then Stop Undefined
      else
        (let divider = 1193180 div hertz
         in if divider = 0 \<or> divider \<ge> 65536 then Ok (1, s)
            else
              (let s = outb 0x43 0x36 s;
                   s = outb 0x40 (ucast (divider AND 0xFF)) s;
                   s = outb 0x40 (ucast (drop_bit 8 divider)) s;
                   s = irq_init s;
                   s = int_set_handler 32 H_timer s
               in Ok (0, s\<lparr>pit_freq := hertz\<rparr>))))"

end
