(* ===== verification/Thread.thy ===== *)
theory Thread
  imports Intr
begin

text \<open>
  Threads (\<open>src/kernel/thread.h\<close> and the first part of \<open>thread.c\<close>): the thread structure, the table
  of threads, allocation and destruction, and the switch of the processor to and from a thread.

  A thread structure is a record in a store indexed by its address, so that two names of the same
  thread alias as they do in C. Members of type \<open>int\<close> are 32-bit words and are compared signed.
  The block of the kernel heap that holds a structure is allocated and freed by the heap of the
  model; its contents are the record. The 512-byte block of FPU data is ordinary virtual memory.
\<close>

abbreviation (input) THREAD_COUNT :: nat where "THREAD_COUNT \<equiv> 1024"
abbreviation (input) TS_FREE :: u32 where "TS_FREE \<equiv> 0"
abbreviation (input) TS_QUEUED :: u32 where "TS_QUEUED \<equiv> 1"
abbreviation (input) TS_RUNNING :: u32 where "TS_RUNNING \<equiv> 2"
abbreviation (input) TS_WAITING :: u32 where "TS_WAITING \<equiv> 3"
abbreviation (input) TS_PAUSED :: u32 where "TS_PAUSED \<equiv> 4"
abbreviation (input) TS_PAUSEDW :: u32 where "TS_PAUSEDW \<equiv> 5"
abbreviation (input) TF_DEAD :: u8 where "TF_DEAD \<equiv> 1"
abbreviation (input) TF_USER :: u8 where "TF_USER \<equiv> 2"
abbreviation (input) EV_COUNT :: nat where "EV_COUNT \<equiv> 256"

record thread =
  t_ds :: u32
  t_edi :: u32
  t_esi :: u32
  t_ebp :: u32
  t_esp :: u32
  t_ebx :: u32
  t_edx :: u32
  t_ecx :: u32
  t_eax :: u32
  t_num :: u32
  t_err :: u32
  t_eip :: u32
  t_cs :: u32
  t_eflags :: u32
  t_useresp :: u32
  t_ss :: u32
  t_vm86_es :: u32
  t_vm86_ds :: u32
  t_vm86_fs :: u32
  t_vm86_gs :: u32
  t_vm86_start :: u32
  t_vm86_active :: u32
  t_vm86_if :: u32
  t_vm86_saved_eip :: u32
  t_vm86_saved_esp :: u32
  t_vm86_saved_eflags :: u32
  t_sys_eip :: u32
  t_sys_esp :: u32
  t_usr_eip :: u32
  t_usr_esp :: u32
  t_fxdata :: ptr
  t_id :: u32
  t_state :: u32
  t_flags :: u8
  t_tick :: u64
  t_next :: ptr
  t_event :: u32
  t_next_evqueue :: ptr
  t_next_dead :: ptr
  t_fault :: u8
  t_fault_addr :: u32
  t_next_fault :: ptr
  t_pctx :: u32

text \<open>The structure has 170 bytes; its members \<open>num\<close>, \<open>vm86_es\<close> and \<open>vm86_start\<close> lie at these offsets.\<close>

abbreviation (input) sizeof_thread :: u32 where "sizeof_thread \<equiv> 170"
abbreviation (input) off_num :: u32 where "off_num \<equiv> 36"
abbreviation (input) off_vm86_es :: u32 where "off_vm86_es \<equiv> 64"
abbreviation (input) off_vm86_start :: u32 where "off_vm86_start \<equiv> 80"

definition zero_thread :: thread where
  "zero_thread =
     \<lparr>t_ds = 0, t_edi = 0, t_esi = 0, t_ebp = 0, t_esp = 0, t_ebx = 0, t_edx = 0, t_ecx = 0, t_eax = 0,
      t_num = 0, t_err = 0, t_eip = 0, t_cs = 0, t_eflags = 0, t_useresp = 0, t_ss = 0,
      t_vm86_es = 0, t_vm86_ds = 0, t_vm86_fs = 0, t_vm86_gs = 0, t_vm86_start = 0, t_vm86_active = 0,
      t_vm86_if = 0, t_vm86_saved_eip = 0, t_vm86_saved_esp = 0, t_vm86_saved_eflags = 0,
      t_sys_eip = 0, t_sys_esp = 0, t_usr_eip = 0, t_usr_esp = 0, t_fxdata = NULL, t_id = 0, t_state = 0,
      t_flags = 0, t_tick = 0, t_next = NULL, t_event = 0, t_next_evqueue = NULL, t_next_dead = NULL,
      t_fault = 0, t_fault_addr = 0, t_next_fault = NULL, t_pctx = 0\<rparr>"

text \<open>
  The variables of \<open>thread.c\<close> and the static \<open>tick\<close> of the timer handler. \<open>fpu\<close> is the image of the FPU
  that \<open>fsave\<close> stores and \<open>frstor\<close> loads, \<open>fpu_reset\<close> the image that \<open>fsave\<close> leaves behind.
\<close>

record thread_state = intr_state +
  threads :: "ptr \<Rightarrow> thread"
  active_thread :: ptr
  thread_table :: "nat \<Rightarrow> ptr"
  sched_head :: ptr
  sched_tail :: ptr
  ev_front :: "nat \<Rightarrow> ptr"
  ev_back :: "nat \<Rightarrow> ptr"
  irqstate :: "nat \<Rightarrow> u32"
  dead_tail :: ptr
  dead_head :: ptr
  reaper_tail :: ptr
  reaper_head :: ptr
  fault_head :: ptr
  fault_tail :: ptr
  debug_head :: ptr
  debug_tail :: ptr
  timer_tick :: u32
  can_use_fpu :: bool
  fpu :: "nat \<Rightarrow> u8"
  fpu_reset :: "nat \<Rightarrow> u8"

definition th_upd :: "ptr \<Rightarrow> (thread \<Rightarrow> thread) \<Rightarrow> 'a thread_state_scheme \<Rightarrow> 'a thread_state_scheme" where
  "th_upd p f s = s\<lparr>threads := (threads s)(p := f (threads s p))\<rparr>"

section \<open>The FPU\<close>

definition fpu_save :: "ptr \<Rightarrow> 'a thread_state_scheme \<Rightarrow> 'a thread_state_scheme outcome" where
  "fpu_save p s =
     (if can_use_fpu s
      then and_then (store_bytes p (map (fpu s) [0..<108]) s) (\<lambda>s. Ok (s\<lparr>fpu := fpu_reset s\<rparr>))
      else Ok s)"

definition fpu_load :: "ptr \<Rightarrow> 'a thread_state_scheme \<Rightarrow> 'a thread_state_scheme outcome" where
  "fpu_load p s =
     (if can_use_fpu s
      then and_then (load_bytes p 108 s) (\<lambda>bs. Ok (s\<lparr>fpu := (\<lambda>i. if i < 108 then bs ! i else 0)\<rparr>))
      else Ok s)"

section \<open>The thread table\<close>

primrec thread_find_free :: "nat \<Rightarrow> nat \<Rightarrow> (nat \<Rightarrow> ptr) \<Rightarrow> nat option" where
  "thread_find_free 0 i tab = None"
| "thread_find_free (Suc n) i tab = (if tab i = NULL then Some i else thread_find_free n (Suc i) tab)"

text \<open>The pointer to the FPU data is stored before the structure is cleared, which loses it.\<close>

definition thread_alloc :: "'a thread_state_scheme \<Rightarrow> (ptr \<times> 'a thread_state_scheme) outcome" where
  "thread_alloc s =
     and_then (heap_alloc sizeof_thread s) (\<lambda>(thread, s).
       and_then (heap_alloc 512 s) (\<lambda>(fxdata, s).
         if thread = NULL then Stop NullDeref
         else
           (let s = th_upd thread (\<lambda>t. t\<lparr>t_fxdata := fxdata\<rparr>) s;
                s = th_upd thread (\<lambda>_. zero_thread) s
            in case thread_find_free THREAD_COUNT 0 (thread_table s) of
                 None \<Rightarrow> Ok (NULL, s)
               | Some i \<Rightarrow>
                   (let s = s\<lparr>thread_table := (thread_table s)(i := thread)\<rparr>;
                        s = th_upd thread (\<lambda>t. t\<lparr>t_id := of_nat i\<rparr>) s;
                        s = th_upd thread (\<lambda>t. t\<lparr>t_state := TS_PAUSED\<rparr>) s
                    in Ok (thread, s)))))"

definition thread_get :: "u32 \<Rightarrow> 'a thread_state_scheme \<Rightarrow> ptr" where
  "thread_get thread s =
     (if sint thread < 0 \<or> sint thread \<ge> int THREAD_COUNT then NULL else thread_table s (unat thread))"

definition thread_kill :: "ptr \<Rightarrow> 'a thread_state_scheme \<Rightarrow> 'a thread_state_scheme outcome" where
  "thread_kill thread s =
     (if unat (t_id (threads s thread)) \<ge> THREAD_COUNT then Stop OutOfBounds
      else
        (let s = s\<lparr>thread_table := (thread_table s)(unat (t_id (threads s thread)) := NULL)\<rparr>
         in and_then
              (if t_fxdata (threads s thread) \<noteq> NULL
               then and_then (heap_free (t_fxdata (threads s thread)) 512 s) (\<lambda>s.
                      Ok (th_upd thread (\<lambda>t. t\<lparr>t_fxdata := NULL\<rparr>) s))
               else Ok s)
              (heap_free thread sizeof_thread)))"

definition thread_get_active :: "'a thread_state_scheme \<Rightarrow> ptr" where
  "thread_get_active s = active_thread s"

text \<open>The result of \<open>pctx_load\<close> is ignored.\<close>

definition thread_load :: "ptr \<Rightarrow> 'a thread_state_scheme \<Rightarrow> 'a thread_state_scheme outcome" where
  "thread_load thread s =
     (let s = (if t_vm86_active (threads s thread) \<noteq> 0 then set_int_stack (thread + off_vm86_start) s
               else set_int_stack (thread + off_vm86_es) s)
      in and_then (if t_fxdata (threads s thread) \<noteq> NULL then fpu_load (t_fxdata (threads s thread)) s else Ok s) (\<lambda>s.
           let pctx = t_pctx (threads s thread);
               s = (if pctx \<noteq> 0 \<and> pctx \<noteq> active_pctx s then snd (pctx_load pctx s) else s)
           in Ok (s\<lparr>active_thread := thread\<rparr>)))"

definition thread_save :: "ptr \<Rightarrow> 'a thread_state_scheme \<Rightarrow> 'a thread_state_scheme outcome" where
  "thread_save thread s =
     and_then (if thread \<noteq> NULL \<and> t_fxdata (threads s thread) \<noteq> NULL
               then fpu_save (t_fxdata (threads s thread)) s else Ok s)
       (\<lambda>s. Ok (s\<lparr>active_thread := NULL\<rparr>))"

definition thread_new :: "'a thread_state_scheme \<Rightarrow> (u32 \<times> 'a thread_state_scheme) outcome" where
  "thread_new s =
     and_then (thread_alloc s) (\<lambda>(thread, s).
       if thread = NULL then
         and_then (debug_printf (''error: thread table full'' @ [newline]) [] s) (\<lambda>s. Ok (- 1, s))
       else Ok (t_id (threads s thread), s))"

section \<open>What the switch of threads changes\<close>

lemma fpu_save_only: "fpu_save p s = Ok s' \<Longrightarrow> \<exists>m f. s' = s\<lparr>pmem := m, fpu := f\<rparr>"
proof -
  assume a: "fpu_save p s = Ok s'"
  show ?thesis
  proof (cases "can_use_fpu s")
    case True
    with a obtain s1 where "store_bytes p (map (fpu s) [0..<108]) s = Ok s1" and s': "s' = s1\<lparr>fpu := fpu_reset s1\<rparr>"
      by (auto simp: fpu_save_def outcome_simps)
    then obtain m where "s1 = s\<lparr>pmem := m\<rparr>" using store_bytes_only by blast
    with s' show ?thesis by auto
  next
    case False
    with a have "s' = s\<lparr>pmem := pmem s, fpu := fpu s\<rparr>" by (simp add: fpu_save_def)
    then show ?thesis by blast
  qed
qed

lemma thread_save_only:
  assumes "thread_save p s = Ok s'"
  obtains m f where "s' = s\<lparr>pmem := m, fpu := f, active_thread := NULL\<rparr>"
proof -
  from assms obtain s1 where s1: "(if p \<noteq> NULL \<and> t_fxdata (threads s p) \<noteq> NULL
      then fpu_save (t_fxdata (threads s p)) s else Ok s) = Ok s1"
    and s': "s' = s1\<lparr>active_thread := NULL\<rparr>"
    by (auto simp: thread_save_def outcome_simps)
  have "\<exists>m f. s1 = s\<lparr>pmem := m, fpu := f\<rparr>"
  proof (cases "p \<noteq> NULL \<and> t_fxdata (threads s p) \<noteq> NULL")
    case True
    with s1 show ?thesis using fpu_save_only by auto
  next
    case False
    with s1 have "s1 = s\<lparr>pmem := pmem s, fpu := fpu s\<rparr>" by auto
    then show ?thesis by blast
  qed
  with s' that show ?thesis by auto
qed

text \<open>A thread without FPU data, or a processor whose FPU is not in use, cannot fault here.\<close>

lemma thread_save_plain:
  "t_fxdata (threads s p) = NULL \<or> \<not> can_use_fpu s \<Longrightarrow> thread_save p s = Ok (s\<lparr>active_thread := NULL\<rparr>)"
  by (auto simp: thread_save_def fpu_save_def)

text \<open>
  What saving a thread needs: it has no FPU data, or there is no FPU, or the 108 bytes of its FPU data are mapped to memory.
\<close>

definition fpu_mapped :: "'a thread_state_scheme \<Rightarrow> ptr \<Rightarrow> bool" where
  "fpu_mapped s p \<longleftrightarrow> t_fxdata (threads s p) = NULL \<or> \<not> can_use_fpu s \<or>
     (\<exists>ls. writable s (t_fxdata (threads s p)) ls \<and> length ls = 108)"

lemma fpu_mapped_cong:
  assumes "t_fxdata (threads s' p) = t_fxdata (threads s p)" and "can_use_fpu s' = can_use_fpu s"
    and "loc s' = loc s \<and> table_frames s' = table_frames s"
  shows "fpu_mapped s' p = fpu_mapped s p"
  using assms writable_other [of s' s] by (simp add: fpu_mapped_def)

lemma thread_save_mapped:
  assumes "fpu_mapped s p"
  obtains m f where "thread_save p s = Ok (s\<lparr>pmem := m, fpu := f, active_thread := NULL\<rparr>)"
    and "loc (s\<lparr>pmem := m, fpu := f, active_thread := NULL\<rparr>) = loc s \<and> table_frames (s\<lparr>pmem := m, fpu := f, active_thread := NULL\<rparr>) = table_frames s"
proof (cases "t_fxdata (threads s p) = NULL \<or> \<not> can_use_fpu s \<or> p = NULL")
  case True
  then have "thread_save p s = Ok (s\<lparr>pmem := pmem s, fpu := fpu s, active_thread := NULL\<rparr>)"
    by (auto simp: thread_save_def fpu_save_def)
  then show thesis by (rule that) (rule loc_cong; simp)
next
  case False
  then obtain ls where "writable s (t_fxdata (threads s p)) ls" "length ls = 108" using assms by (auto simp: fpu_mapped_def)
  then obtain t where t: "store_bytes (t_fxdata (threads s p)) (map (fpu s) [0..<108]) s = Ok t" "writes (set ls) s t"
    using store_bytes_writable [of s _ ls "map (fpu s) [0..<108]"] by auto
  obtain m where m: "t = s\<lparr>pmem := m\<rparr>" using t(2) unfolding writes_def by blast
  let ?s = "s\<lparr>pmem := m, fpu := fpu_reset t, active_thread := NULL\<rparr>"
  have "thread_save p s = Ok ?s" using False t(1) m by (simp add: thread_save_def fpu_save_def)
  moreover have "loc ?s = loc s \<and> table_frames ?s = table_frames s"
    using t(2) loc_cong [of ?s t] m by (simp add: writes_def)
  ultimately show thesis by (rule that)
qed

lemma thread_get_eq: "thread_get t s = (if unat t < THREAD_COUNT then thread_table s (unat t) else NULL)"
  using index_out_of_range_numeral(1) [of t] by (auto simp: thread_get_def)

text \<open>A thread that its number in the table leads to.\<close>

definition live :: "'a thread_state_scheme \<Rightarrow> ptr \<Rightarrow> bool" where
  "live s p \<longleftrightarrow> p \<noteq> NULL \<and> unat (t_id (threads s p)) < THREAD_COUNT \<and> thread_table s (unat (t_id (threads s p))) = p"

lemma live_get: "live s p \<Longrightarrow> thread_get (t_id (threads s p)) s = p"
  by (simp add: live_def thread_get_eq)

section \<open>An example state\<close>

text \<open>
  Four threads: number 0 runs, number 1 is in line, number 2 waits for event 244 and number 3 is paused.
  The memory and the frames are those of the example state of the allocator.
\<close>

definition demo_threads :: thread_state where
  "demo_threads =
     \<lparr>pmem = pmem demo_frames, cr2 = 0, cr3 = 0x1000, out_log = [], in_ports = (\<lambda>_ _. 0x20), in_pos = (\<lambda>_. 0),
      frame_heap = frame_heap demo_frames, out_of_memory = False, frame_list = 0x10, frame_hash = (\<lambda>_. NULL),
      oom_pool = 0x800000, kernel_end = 0xF0100000, heap_bucket = (\<lambda>_. NULL), analysis = (\<lambda>_. 0), brk = KERNEL_HEAP,
      pctx_table = (\<lambda>_. 0)(1 := 0x1000), active_pctx = 0, is_init = True,
      int_handler_tab = kernel_handlers,
      idt = (\<lambda>_. \<lparr>base_l = 0, idt_seg = 0, idt_reserved = 0, idt_flags = 0, base_h = 0\<rparr>), idt_loaded = True,
      tss = \<lparr>tss_prev = 0, tss_esp0 = 0, tss_ss0 = 0x10, tss_es = 0x10, tss_cs = 8, tss_ss = 0, tss_ds = 0x10,
             tss_fs = 0x10, tss_gs = 0x10, tss_ldt = 0, tss_trap = 0, tss_iomap_base = 104\<rparr>,
      gdt = (\<lambda>_. 0), irq_mask_reg = 0, pit_freq = 64, int_stub = (\<lambda>_. 0xF0000100), tss_addr = 0xF0000200,
      threads = (\<lambda>_. zero_thread)
        (0x1000 := zero_thread\<lparr>t_id := 0, t_state := TS_RUNNING, t_num := 32, t_cs := 0x19\<rparr>,
         0x2000 := zero_thread\<lparr>t_id := 1, t_state := TS_QUEUED\<rparr>,
         0x3000 := zero_thread\<lparr>t_id := 2, t_state := TS_WAITING, t_event := 244\<rparr>,
         0x4000 := zero_thread\<lparr>t_id := 3, t_state := TS_PAUSED\<rparr>),
      active_thread = 0x1000,
      thread_table = (\<lambda>_. NULL)(0 := 0x1000, 1 := 0x2000, 2 := 0x3000, 3 := 0x4000),
      sched_head = 0x2000, sched_tail = 0x2000,
      ev_front = (\<lambda>_. NULL)(244 := 0x3000), ev_back = (\<lambda>_. NULL)(244 := 0x3000), irqstate = (\<lambda>_. 0),
      dead_tail = NULL, dead_head = NULL, reaper_tail = NULL, reaper_head = NULL,
      fault_head = NULL, fault_tail = NULL, debug_head = NULL, debug_tail = NULL,
      timer_tick = 0, can_use_fpu = False, fpu = (\<lambda>_. 0), fpu_reset = (\<lambda>_. 0)\<rparr>"

lemma demo_threads_live: "live demo_threads p \<longleftrightarrow> p = 0x1000 \<or> p = 0x2000 \<or> p = 0x3000 \<or> p = 0x4000"
  by (auto simp: live_def demo_threads_def zero_thread_def)

section \<open>New threads\<close>

lemma thread_find_free_first:
  "i \<le> k \<Longrightarrow> k < i + n \<Longrightarrow> tab k = NULL \<Longrightarrow> (\<And>j. i \<le> j \<Longrightarrow> j < k \<Longrightarrow> tab j \<noteq> NULL) \<Longrightarrow> thread_find_free n i tab = Some k"
proof (induction n arbitrary: i)
  case (Suc n)
  show ?case
  proof (cases "i = k")
    case False
    then have "tab i \<noteq> NULL" using Suc.prems by auto
    then show ?thesis using Suc.IH [of "Suc i"] Suc.prems False by simp
  qed (use Suc.prems in simp)
qed simp

lemma thread_find_free_none:
  "(\<And>j. i \<le> j \<Longrightarrow> j < i + n \<Longrightarrow> tab j \<noteq> NULL) \<Longrightarrow> thread_find_free n i tab = None"
  by (induction n arbitrary: i) auto

lemma thread_parts_of_heap:
  assumes "heap_state.more s' = heap_state.more s"
  shows "threads s' = threads s" "thread_table s' = thread_table s"
  using assms by (cases s; cases s'; simp)+

lemma thread_find_free_Some: "thread_find_free n i tab = Some k \<Longrightarrow> i \<le> k \<and> k < i + n \<and> tab k = NULL"
  by (induction n arbitrary: i) (auto split: if_splits, (metis Suc_leD add_Suc add_Suc_right)+)

lemma thread_alloc_block:
  assumes "thread_alloc s = Ok (p, s')"
  obtains th h s1 where "th \<noteq> NULL" and "heap_alloc sizeof_thread s = Ok (th, s1)" and "heap_state.more h = heap_state.more s"
    and "Ok (p, s') =
      (case thread_find_free THREAD_COUNT 0 (thread_table s) of
         None \<Rightarrow> Ok (NULL, h\<lparr>threads := (threads s)(th := zero_thread)\<rparr>)
       | Some i \<Rightarrow> Ok (th, h\<lparr>threads := (threads s)(th := zero_thread\<lparr>t_id := of_nat i, t_state := TS_PAUSED\<rparr>),
           thread_table := (thread_table s)(i := th)\<rparr>))"
proof -
  obtain th s1 q h where a1: "heap_alloc sizeof_thread s = Ok (th, s1)" and a2: "heap_alloc 512 s1 = Ok (q, h)" and th: "th \<noteq> NULL"
    using assms by (auto simp: thread_alloc_def and_then_eq_Ok split: if_splits)
  have m: "heap_state.more h = heap_state.more s" using heap_alloc_keeps [OF a1] heap_alloc_keeps [OF a2] by simp
  note parts = thread_parts_of_heap [OF m]
  show thesis
    by (rule that [OF th a1 m]) (use assms a1 a2 th in
      \<open>auto simp: thread_alloc_def th_upd_def parts Let_def split: option.splits\<close>)
qed

lemma thread_alloc_heap:
  assumes "thread_alloc s = Ok (p, s')"
  obtains th h where "th \<noteq> NULL" and "heap_state.more h = heap_state.more s"
    and "Ok (p, s') =
      (case thread_find_free THREAD_COUNT 0 (thread_table s) of
         None \<Rightarrow> Ok (NULL, h\<lparr>threads := (threads s)(th := zero_thread)\<rparr>)
       | Some i \<Rightarrow> Ok (th, h\<lparr>threads := (threads s)(th := zero_thread\<lparr>t_id := of_nat i, t_state := TS_PAUSED\<rparr>),
           thread_table := (thread_table s)(i := th)\<rparr>))"
  by (rule thread_alloc_block [OF assms]) (rule that)

text \<open>What \<open>thread_new\<close> does when it returns and there is room; the heap's part of the state is in \<open>h\<close>.\<close>

lemma thread_new_first:
  assumes "thread_new s = Ok (r, s')" and "i < THREAD_COUNT" and "thread_table s i = NULL"
    and "\<And>j. j < i \<Longrightarrow> thread_table s j \<noteq> NULL"
  obtains p h where "p \<noteq> NULL" and "heap_state.more h = heap_state.more s" and "r = of_nat i"
    and "s' = h\<lparr>threads := (threads s)(p := zero_thread\<lparr>t_id := of_nat i, t_state := TS_PAUSED\<rparr>),
      thread_table := (thread_table s)(i := p)\<rparr>"
proof -
  obtain p s1 where a: "thread_alloc s = Ok (p, s1)"
    and n: "(if p = NULL then and_then (debug_printf (''error: thread table full'' @ [newline]) [] s1) (\<lambda>s. Ok (- 1, s))
       else Ok (t_id (threads s1 p), s1)) = Ok (r, s')"
    using assms(1) by (auto simp: thread_new_def and_then_eq_Ok split del: if_split)
  obtain th h where th: "th \<noteq> NULL" "heap_state.more h = heap_state.more s"
    and e: "Ok (p, s1) = Ok (th, h\<lparr>threads := (threads s)(th := zero_thread\<lparr>t_id := of_nat i, t_state := TS_PAUSED\<rparr>),
           thread_table := (thread_table s)(i := th)\<rparr>)"
    using thread_alloc_heap [OF a] thread_find_free_first [of 0 i THREAD_COUNT "thread_table s"] assms(2-4)
    by (auto split: option.splits)
  show thesis by (rule that [OF th]) (use e n th(1) in auto)
qed

lemma thread_alloc_full:
  assumes "thread_alloc s = Ok (p, s1)" and "\<And>j. j < THREAD_COUNT \<Longrightarrow> thread_table s j \<noteq> NULL"
  shows "p = NULL" and "thread_table s1 = thread_table s"
proof -
  have f: "thread_find_free THREAD_COUNT 0 (thread_table s) = None"
    by (rule thread_find_free_none) (use assms(2) in simp)
  obtain th h where m: "heap_state.more h = heap_state.more s" and e: "p = NULL" "s1 = h\<lparr>threads := (threads s)(th := zero_thread)\<rparr>"
    by (rule thread_alloc_heap [OF assms(1)]) (use f that in simp)
  show "p = NULL" by fact
  show "thread_table s1 = thread_table s" using e(2) thread_parts_of_heap(2) [OF m] by simp
qed

text \<open>With a free block for the structure and one for the data of the FPU, a new thread is made.\<close>

lemma thread_buckets: "bucket_for sizeof_thread = 6" "bucket_for 512 = 7"
  by (simp_all add: bucket_for_def bucket_loop.simps)

lemma thread_alloc_returns:
  assumes "block_at s 6 ls" and "block_at s 7 ks"
  shows "\<exists>p s'. thread_alloc s = Ok (p, s') \<and> spares (set ls \<union> set ks) s s'"
proof -
  obtain s1 where s1: "heap_alloc sizeof_thread s = Ok (heap_bucket s 6, s1)" "spares (set ls) s s1"
      "\<And>b ks. b \<noteq> 6 \<Longrightarrow> block_at s1 b ks = block_at s b ks"
    by (rule heap_alloc_ready [of s sizeof_thread ls, unfolded thread_buckets]) (use assms in simp_all)
  have "block_at s1 7 ks" using s1(3) [of 7 ks] assms(2) by simp
  obtain s2 where s2: "heap_alloc 512 s1 = Ok (heap_bucket s1 7, s2)" "spares (set ks) s1 s2"
    by (rule heap_alloc_ready [of s1 512, unfolded thread_buckets, OF \<open>block_at s1 7 ks\<close>]) simp_all
  have p: "heap_bucket s 6 \<noteq> NULL" using assms(1) by (simp add: block_at_def)
  have "spares (set ls \<union> set ks) s s2" using spares_trans [OF s1(2) s2(2)] .
  moreover have "spares L s (s2\<lparr>threads := t\<rparr>) = spares L s s2" "spares L s (s2\<lparr>thread_table := u, threads := t\<rparr>) = spares L s s2"
    for L t u using loc_cong [of "s2\<lparr>threads := t\<rparr>" s2] loc_cong [of "s2\<lparr>thread_table := u, threads := t\<rparr>" s2]
    by (simp_all add: spares_def mem_at_def)
  ultimately show ?thesis
    using s1(1) s2(1) p
    by (cases "thread_find_free THREAD_COUNT 0 (thread_table s2)") (auto simp: thread_alloc_def Let_def th_upd_def)
qed

section \<open>Properties\<close>

text \<open>
  C21: \<open>thread_new\<close>, when the heap has the blocks it asks for, takes the smallest free number of the thread table, and the table
  leads from that number to the new structure, which is clear but for the number and the state \<open>PAUSED\<close>; the
  pointer to the FPU data is clear too. No other thread and no other entry of the table changes.
\<close>

theorem thread_new_first_free:
  assumes "block_at s 6 ls" and "block_at s 7 ks" and "i < THREAD_COUNT" and "thread_table s i = NULL"
    and "\<And>j. j < i \<Longrightarrow> thread_table s j \<noteq> NULL"
  shows "\<exists>p s'. thread_new s = Ok (of_nat i, s') \<and> p \<noteq> NULL \<and> thread_get (of_nat i) s' = p \<and>
    thread_table s' = (thread_table s)(i := p) \<and>
    threads s' = (threads s)(p := zero_thread\<lparr>t_id := of_nat i, t_state := TS_PAUSED\<rparr>)"
proof -
  obtain p s1 where a: "thread_alloc s = Ok (p, s1)" using thread_alloc_returns assms(1,2) by blast
  have f: "thread_find_free THREAD_COUNT 0 (thread_table s) = Some i"
    using thread_find_free_first [of 0 i THREAD_COUNT] assms(3-5) by simp
  have "p \<noteq> NULL" by (rule thread_alloc_heap [OF a]) (use f in auto)
  then have n: "thread_new s = Ok (t_id (threads s1 p), s1)" using a by (simp add: thread_new_def)
  have u: "unat (of_nat i :: u32) = i" using assms(3) by (simp add: unat_of_nat)
  show ?thesis
    by (rule thread_new_first [OF n assms(3,4,5)]) (use n u assms(3) in \<open>auto simp: thread_get_eq\<close>)
qed

definition demo_room :: thread_state where
  "demo_room = demo_threads\<lparr>heap_bucket := (\<lambda>_. NULL)(6 := 0x3100, 7 := 0x3400)\<rparr>"

abbreviation (input) demo_block :: "nat \<Rightarrow> nat \<Rightarrow> location list" where
  "demo_block a n \<equiv> map (\<lambda>k. demo_at (a + k)) [0..<n]"

lemma demo_room_ready: "block_at demo_room 6 (demo_block 256 256)" "block_at demo_room 7 (demo_block 1024 512)"
proof -
  have "loc demo_room = loc demo_frames \<and> table_frames demo_room = table_frames demo_frames"
    by (rule loc_cong) (simp_all add: demo_room_def demo_threads_def demo_frames_def)
  then have "writable demo_room p ls = writable demo_frames p ls" for p ls using writable_other by blast
  then have "writable demo_room 0x3100 (demo_block 256 256)" "writable demo_room 0x3400 (demo_block 1024 512)"
    using demo_writable [of 256 256] demo_writable [of 1024 512] by simp_all
  moreover have "heap_bucket demo_room 6 = 0x3100" "heap_bucket demo_room 7 = 0x3400" by (simp_all add: demo_room_def)
  ultimately show "block_at demo_room 6 (demo_block 256 256)" "block_at demo_room 7 (demo_block 1024 512)"
    by (simp_all add: block_at_def)
qed

theorem thread_new_first_free_witness:
  "\<exists>p s'. thread_new demo_room = Ok (4, s') \<and> thread_get 4 s' = p \<and> t_state (threads s' p) = TS_PAUSED \<and>
     t_fxdata (threads s' p) = NULL"
proof -
  have "thread_table demo_room j \<noteq> NULL" if "j < 4" for j
  proof -
    have "j = 0 \<or> j = 1 \<or> j = 2 \<or> j = 3" using that by auto
    then show ?thesis by (auto simp: demo_room_def demo_threads_def)
  qed
  then show ?thesis
    using thread_new_first_free [OF demo_room_ready, of 4]
    by (auto simp: demo_room_def demo_threads_def zero_thread_def)
qed

text \<open>
  C35: When all 1024 numbers are taken, the heap has the two blocks for a thread and the serial port works, \<open>thread_new\<close> sends the line
  \<open>error: thread table full\<close>, and nothing else, to the serial port and returns -1; the table is as before.
\<close>

theorem thread_new_table_full:
  assumes "block_at s 6 ls" and "block_at s 7 ks" and "uart_live s" and "\<And>j. j < THREAD_COUNT \<Longrightarrow> thread_table s j \<noteq> NULL"
  shows "\<exists>s'. thread_new s = Ok (- 1, s') \<and> thread_table s' = thread_table s \<and>
    out_log s' = out_log s @ map (\<lambda>c. (0x3F8, of_char c)) (''error: thread table full'' @ [newline, char_of (13 :: nat)])"
proof -
  let ?m = "''error: thread table full'' @ [newline]"
  obtain p s1 where a: "thread_alloc s = Ok (p, s1)" "spares (set ls \<union> set ks) s s1"
    using thread_alloc_returns [OF assms(1,2)] by blast
  have "uart_live s1" using assms(3) a(2) by (simp add: uart_live_def spares_def)
  moreover have "printf_text ?m [] = Some ?m" by (simp add: newline_def char_of_def)
  ultimately obtain s2 where s2: "debug_printf ?m [] s1 = Ok s2" "emits (serial ?m) s1 s2"
    using debug_printf_returns [of ?m "[]" _ s1] by auto
  have m: "serial ?m = ''error: thread table full'' @ [newline, char_of (13 :: nat)]" by (simp add: serial_def newline_def char_of_def)
  have "out_log s2 = out_log s1 @ map (\<lambda>c. (0x3F8, of_char c)) (serial ?m)" using s2(2) by (rule emits_out_log)
  then have "out_log s2 = out_log s @ map (\<lambda>c. (0x3F8, of_char c)) (''error: thread table full'' @ [newline, char_of (13 :: nat)])"
    unfolding m using a(2) by (simp only: spares_def)
  moreover have "machine.more s2 = machine.more s1" using s2(1) by (rule debug_printf_keeps)
  then have "thread_table s2 = thread_table s1" by (cases s2; cases s1) simp
  ultimately show ?thesis using a(1) s2(1) thread_alloc_full [OF a(1) assms(4)] by (simp add: thread_new_def)
qed

theorem thread_new_table_full_witness:
  "\<exists>s'. thread_new (demo_room\<lparr>thread_table := (\<lambda>_. 0x1000)\<rparr>) = Ok (- 1, s') \<and> thread_table s' 0 = 0x1000"
proof -
  let ?s = "demo_room\<lparr>thread_table := (\<lambda>_. 0x1000)\<rparr>"
  have "loc ?s = loc demo_room \<and> table_frames ?s = table_frames demo_room" by (rule loc_cong) simp_all
  then have "writable ?s p ls = writable demo_room p ls" for p ls using writable_other by blast
  then have "block_at ?s 6 (demo_block 256 256)" "block_at ?s 7 (demo_block 1024 512)"
    using demo_room_ready by (simp_all add: block_at_def)
  moreover have "uart_live ?s" by (simp add: uart_live_def demo_room_def demo_threads_def)
  ultimately show ?thesis using thread_new_table_full [of ?s "demo_block 256 256" "demo_block 1024 512"] by auto
qed

section \<open>Saving and loading the FPU\<close>

lemma load_bytes_tss [simp]: "load_bytes q n (s\<lparr>tss := x\<rparr>) = load_bytes q n s"
  by (induction n arbitrary: q) (simp_all add: vread8_def mmu_walk_def pde_of_def pte_of_def)

lemma pctx_load_fpu [simp]: "fpu (snd (pctx_load pctx s)) = fpu s"
  by (simp add: pctx_load_def cpu_set_cr3_def Let_def split_def)

lemma thread_load_restores:
  assumes "load_bytes q 108 s = Ok (map f [0..<108])" and "can_use_fpu s" and "t_fxdata (threads s p) = q" and "q \<noteq> NULL"
  shows "\<exists>s'. thread_load p s = Ok s' \<and> (\<forall>i < 108. fpu s' i = f i)"
  using assms by (simp add: thread_load_def set_int_stack_def fpu_load_def Let_def)

text \<open>
  C14: The state of the FPU survives a switch: when a thread whose FPU data is mapped to memory is saved on a machine with an FPU, and in any later
  state in which the thread has the same FPU data, its 108 bytes are at the same place in memory (other addresses may have been mapped or another
  paging context loaded since) and nobody has written them, it is loaded again, the FPU holds the 108 bytes that it held before.
\<close>

theorem fpu_survives_switch:
  fixes s :: "'a thread_state_scheme"
  assumes "can_use_fpu s" and "t_fxdata (threads s p) = q" and "q \<noteq> NULL" and "p \<noteq> NULL" and "writable s q ls" and "length ls = 108"
  shows "\<exists>s1. thread_save p s = Ok s1 \<and> readable s1 q ls \<and>
    (\<forall>s2 :: 'a thread_state_scheme. can_use_fpu s2 \<and> t_fxdata (threads s2 p) = q \<and> readable s2 q ls \<and>
        map (mem_at s2) ls = map (mem_at s1) ls \<longrightarrow>
      (\<exists>s3. thread_load p s2 = Ok s3 \<and> (\<forall>i < 108. fpu s3 i = fpu s i)))"
proof -
  obtain t where t: "store_bytes q (map (fpu s) [0..<108]) s = Ok t" "map (mem_at t) ls = map (fpu s) [0..<108]" "writes (set ls) s t"
    using store_bytes_writable [OF assms(5), of "map (fpu s) [0..<108]"] assms(6) by auto
  let ?s1 = "t\<lparr>fpu := fpu_reset t, active_thread := NULL\<rparr>"
  have save: "thread_save p s = Ok ?s1" using assms t(1) by (simp add: thread_save_def fpu_save_def)
  have "loc ?s1 = loc s" using t(3) loc_cong [of ?s1 t] by (simp add: writes_def)
  then have rd: "readable ?s1 q ls" using assms(5) readable_cong [of ?s1 s] by (simp add: writable_def)
  have "mem_at ?s1 = mem_at t" by (simp add: fun_eq_iff mem_at_def)
  then have m1: "map (mem_at ?s1) ls = map (fpu s) [0..<108]" using t(2) by simp
  have "\<exists>s3. thread_load p s2 = Ok s3 \<and> (\<forall>i < 108. fpu s3 i = fpu s i)"
    if s2: "can_use_fpu s2" "t_fxdata (threads s2 p) = q" "readable s2 q ls" "map (mem_at s2) ls = map (mem_at ?s1) ls" for s2 :: "'a thread_state_scheme"
  proof -
    have "load_bytes q 108 s2 = Ok (map (fpu s) [0..<108])"
      using load_readable [OF s2(3)] s2(4) m1 assms(6) by simp
    then show ?thesis using s2(1,2) assms(3) by (rule thread_load_restores)
  qed
  with save rd show ?thesis by blast
qed

theorem fpu_survives_switch_witness:
  "\<exists>(s :: thread_state) s1 s3. fpu s 5 = 7 \<and> thread_save 0x1000 s = Ok s1 \<and> thread_load 0x1000 s1 = Ok s3 \<and> fpu s3 5 = 7"
proof -
  define s where "s = demo_room\<lparr>can_use_fpu := True, fpu := (\<lambda>_. 7),
    threads := (threads demo_room)(0x1000 := (threads demo_room 0x1000)\<lparr>t_fxdata := 0x3400\<rparr>)\<rparr>"
  have "loc s = loc demo_frames \<and> table_frames s = table_frames demo_frames"
    by (rule loc_cong) (simp_all add: s_def demo_room_def demo_threads_def demo_frames_def)
  then have w: "writable s 0x3400 (demo_block 1024 108)"
    using demo_writable [of 1024 108] writable_other [of s demo_frames] by simp
  have f: "can_use_fpu s" "t_fxdata (threads s 0x1000) = 0x3400" "fpu s 5 = 7" by (simp_all add: s_def)
  have "\<exists>s1. thread_save 0x1000 s = Ok s1 \<and> readable s1 0x3400 (demo_block 1024 108) \<and>
      (\<forall>s2 :: thread_state. can_use_fpu s2 \<and> t_fxdata (threads s2 0x1000) = 0x3400 \<and> readable s2 0x3400 (demo_block 1024 108) \<and>
        map (mem_at s2) (demo_block 1024 108) = map (mem_at s1) (demo_block 1024 108) \<longrightarrow>
      (\<exists>s3. thread_load 0x1000 s2 = Ok s3 \<and> (\<forall>i < 108. fpu s3 i = fpu s i)))"
    by (rule fpu_survives_switch [OF f(1,2) _ _ w]) simp_all
  then obtain s1 where s1: "thread_save 0x1000 s = Ok s1" and l: "can_use_fpu s1 \<Longrightarrow> t_fxdata (threads s1 0x1000) = 0x3400 \<Longrightarrow>
      \<exists>s3. thread_load 0x1000 s1 = Ok s3 \<and> (\<forall>i < 108. fpu s3 i = fpu s i)" by blast
  obtain m g where "s1 = s\<lparr>pmem := m, fpu := g, active_thread := NULL\<rparr>" using thread_save_only [OF s1] .
  then have "can_use_fpu s1" "t_fxdata (threads s1 0x1000) = 0x3400" using f by simp_all
  then obtain s3 where "thread_load 0x1000 s1 = Ok s3" "\<forall>i < 108. fpu s3 i = fpu s i" using l by blast
  then show ?thesis using s1 f(3) by auto
qed

end
