(* ===== verification/Queue.thy ===== *)
theory Queue
  imports Prelude
begin

text \<open>
  The contract of the kernel's queues of threads, as a locale: the scheduler, the queues of threads
  that wait for an event, of dead threads, of reapers, of faulting threads and of debuggers are all
  meant to be first-in first-out. The clients' lemmas are proved once from the contract: threads
  leave in the order in which they came, nobody is overtaken, and threads that re-enter the queue
  take turns.
\<close>

section \<open>Histories of a queue\<close>

datatype qop = Push ptr | Pull

primrec queue_op :: "(ptr \<Rightarrow> 's \<Rightarrow> 's) \<Rightarrow> ('s \<Rightarrow> 's) \<Rightarrow> qop \<Rightarrow> 's \<Rightarrow> 's" where
  "queue_op push pull (Push a) = push a"
| "queue_op push pull Pull = pull"

primrec queue_run :: "(ptr \<Rightarrow> 's \<Rightarrow> 's) \<Rightarrow> ('s \<Rightarrow> 's) \<Rightarrow> qop list \<Rightarrow> 's \<Rightarrow> 's" where
  "queue_run push pull [] s = s"
| "queue_run push pull (op # ops) s = queue_run push pull ops (queue_op push pull op s)"

primrec pushed :: "qop list \<Rightarrow> ptr list" where
  "pushed [] = []"
| "pushed (op # ops) = (case op of Push a \<Rightarrow> a # pushed ops | Pull \<Rightarrow> pushed ops)"

primrec pulls :: "qop list \<Rightarrow> nat" where
  "pulls [] = 0"
| "pulls (op # ops) = (case op of Push a \<Rightarrow> pulls ops | Pull \<Rightarrow> Suc (pulls ops))"

primrec drain :: "('s \<Rightarrow> ptr) \<Rightarrow> ('s \<Rightarrow> 's) \<Rightarrow> nat \<Rightarrow> 's \<Rightarrow> ptr list" where
  "drain front pull 0 s = []"
| "drain front pull (Suc n) s = front s # drain front pull n (pull s)"

text \<open>The thread in front goes to the back.\<close>

definition turn :: "(ptr \<Rightarrow> 's \<Rightarrow> 's) \<Rightarrow> ('s \<Rightarrow> ptr) \<Rightarrow> ('s \<Rightarrow> 's) \<Rightarrow> 's \<Rightarrow> 's" where
  "turn push front pull s = push (front s) (pull s)"

section \<open>The contract\<close>

text \<open>
  \<open>holds s xs\<close>: in state \<open>s\<close> the queue consists of the threads \<open>xs\<close>, first to last.
  \<open>ready s a\<close>: the thread \<open>a\<close> may be pushed.
\<close>

locale thread_queue =
  fixes holds :: "'s \<Rightarrow> ptr list \<Rightarrow> bool"
    and ready :: "'s \<Rightarrow> ptr \<Rightarrow> bool"
    and push :: "ptr \<Rightarrow> 's \<Rightarrow> 's"
    and front :: "'s \<Rightarrow> ptr"
    and pull :: "'s \<Rightarrow> 's"
  assumes unique: "holds s xs \<Longrightarrow> holds s ys \<Longrightarrow> xs = ys"
    and no_dup: "holds s xs \<Longrightarrow> distinct xs"
    and no_null: "holds s xs \<Longrightarrow> a \<in> set xs \<Longrightarrow> a \<noteq> NULL"
    and front_empty: "holds s [] \<Longrightarrow> front s = NULL"
    and front_first: "holds s (x # xs) \<Longrightarrow> front s = x"
    and push_last: "holds s xs \<Longrightarrow> ready s a \<Longrightarrow> a \<notin> set xs \<Longrightarrow> holds (push a s) (xs @ [a])"
    and pull_first: "holds s (x # xs) \<Longrightarrow> holds (pull s) xs"
    and push_ready: "holds s xs \<Longrightarrow> ready s a \<Longrightarrow> ready s b \<Longrightarrow> a \<notin> set xs \<Longrightarrow> b \<notin> set xs \<Longrightarrow>
        a \<noteq> b \<Longrightarrow> ready (push a s) b"
    and pull_ready: "holds s (x # xs) \<Longrightarrow> ready s b \<Longrightarrow> b \<notin> set (x # xs) \<Longrightarrow> ready (pull s) b"
begin

lemma front_null_iff: "holds s xs \<Longrightarrow> front s = NULL \<longleftrightarrow> xs = []"
  using front_empty front_first no_null by (cases xs) auto

text \<open>Over any history the queue is what was there and what was pushed, less what was pulled.\<close>

lemma run_contents:
  assumes "holds s xs" and "distinct (xs @ pushed ops)" and "\<And>a. a \<in> set (pushed ops) \<Longrightarrow> ready s a"
    and "pulls ops \<le> length xs"
  shows "holds (queue_run push pull ops s) (drop (pulls ops) (xs @ pushed ops))"
  using assms
proof (induction ops arbitrary: s xs)
  case (Cons op ops)
  show ?case
  proof (cases op)
    case (Push a)
    with Cons.prems have a: "holds (push a s) (xs @ [a])" by (auto intro: push_last)
    have r: "ready (push a s) b" if "b \<in> set (pushed ops)" for b
      using Cons.prems Push that push_ready [of s xs a b] by auto
    from Cons.prems Push have d: "distinct ((xs @ [a]) @ pushed ops)" and n: "pulls ops \<le> length (xs @ [a])"
      by auto
    from Cons.IH [OF a d r n] Push show ?thesis by simp
  next
    case Pull
    with Cons.prems obtain x ys where xs: "xs = x # ys" by (cases xs) auto
    with Cons.prems have p: "holds (pull s) ys" by (auto intro: pull_first)
    have r: "ready (pull s) b" if "b \<in> set (pushed ops)" for b
      using Cons.prems Pull xs that by (intro pull_ready [of s x ys b]) auto
    from Cons.prems Pull xs have d: "distinct (ys @ pushed ops)" and n: "pulls ops \<le> length ys"
      by auto
    from Cons.IH [OF p d r n] Pull xs show ?thesis by simp
  qed
qed simp

text \<open>Nobody is overtaken: the thread in place \<open>k\<close> is in front after exactly \<open>k\<close> pulls.\<close>

lemma no_overtaking:
  assumes "holds s xs" and "distinct (xs @ pushed ops)" and "\<And>a. a \<in> set (pushed ops) \<Longrightarrow> ready s a"
    and "pulls ops < length xs"
  shows "front (queue_run push pull ops s) = xs ! pulls ops"
proof -
  have "holds (queue_run push pull ops s) (drop (pulls ops) (xs @ pushed ops))"
    using assms by (intro run_contents) auto
  moreover have "drop (pulls ops) (xs @ pushed ops) = xs ! pulls ops # drop (Suc (pulls ops)) (xs @ pushed ops)"
    using assms(4) by (simp add: Cons_nth_drop_Suc nth_append flip: Cons_nth_drop_Suc)
  ultimately show ?thesis using front_first by metis
qed

lemma drain_contents: "holds s xs \<Longrightarrow> drain front pull (length xs) s = xs"
  by (induction xs arbitrary: s) (auto simp: front_first pull_first)

lemma run_pushes: "queue_run push pull (map Push ys) s = fold push ys s"
  by (induction ys arbitrary: s) auto

lemma pushed_pushes [simp]: "pushed (map Push ys) = ys" "pulls (map Push ys) = 0"
  by (induction ys) auto

text \<open>First in, first out.\<close>

lemma first_in_first_out:
  assumes "holds s []" and "distinct ys" and "\<And>a. a \<in> set ys \<Longrightarrow> ready s a"
  shows "drain front pull (length ys) (fold push ys s) = ys"
  using run_contents [of s "[]" "map Push ys"] assms
  by (simp add: run_pushes drain_contents)

end

text \<open>A queue whose first thread may be pushed again as soon as it has been pulled.\<close>

locale rotating_queue = thread_queue +
  assumes again_ready: "holds s (x # xs) \<Longrightarrow> ready (pull s) x"
begin

lemma turn_contents: "holds s xs \<Longrightarrow> xs \<noteq> [] \<Longrightarrow> holds (turn push front pull s) (rotate1 xs)"
proof (cases xs)
  case (Cons x ys)
  assume h: "holds s xs"
  with Cons have "x \<notin> set ys" using no_dup by fastforce
  with h Cons show ?thesis
    by (simp add: turn_def front_first push_last pull_first again_ready)
qed simp

lemma turns_contents: "holds s xs \<Longrightarrow> xs \<noteq> [] \<Longrightarrow> holds ((turn push front pull ^^ n) s) (rotate n xs)"
  by (induction n) (simp_all add: turn_contents)

text \<open>Round robin: after \<open>k\<close> turns the thread in place \<open>k\<close> is in front.\<close>

lemma round_robin:
  assumes "holds s xs" and "xs \<noteq> []"
  shows "front ((turn push front pull ^^ k) s) = xs ! (k mod length xs)"
proof -
  have "holds ((turn push front pull ^^ k) s) (rotate k xs)" using assms by (rule turns_contents)
  moreover have "rotate k xs = hd (rotate k xs) # tl (rotate k xs)" using assms(2) by simp
  ultimately have "front ((turn push front pull ^^ k) s) = hd (rotate k xs)" using front_first by metis
  then show ?thesis using assms(2) by (simp add: hd_rotate_conv_nth)
qed

end

end
