(* ===== verification/Sched.thy ===== *)
theory Sched
  imports Thread Queue
begin

text \<open>
  The scheduler (\<open>schedule_push\<close>, \<open>schedule_remv\<close>, \<open>schedule_next\<close> of \<open>src/kernel/thread.c\<close>): one
  queue of threads, linked through \<open>next\<close>. The interface of a queue of threads is a locale with the
  laws of a first-in first-out queue; it is interpreted here on the scheduler, and by the theories
  that follow on the queues of waiting, dead and faulting threads.
\<close>

section \<open>Operations\<close>

definition schedule_push :: "ptr \<Rightarrow> 'a thread_state_scheme \<Rightarrow> 'a thread_state_scheme" where
  "schedule_push thread s =
     (let s = (if sched_tail s = NULL then s\<lparr>sched_head := thread\<rparr>
               else th_upd (sched_tail s) (\<lambda>t. t\<lparr>t_next := thread\<rparr>) s);
          s = s\<lparr>sched_tail := thread\<rparr>
      in th_upd thread (\<lambda>t. t\<lparr>t_next := NULL\<rparr>) s)"

definition schedule_remv :: "ptr \<Rightarrow> 'a thread_state_scheme \<Rightarrow> (u32 \<times> 'a thread_state_scheme) outcome" where
  "schedule_remv thread s =
     (if sched_head s = NULL then Ok (1, s)
      else if thread = sched_head s then
        (let s = s\<lparr>sched_head := t_next (threads s (sched_head s))\<rparr>
         in Ok (0, if sched_head s = NULL then s\<lparr>sched_tail := NULL\<rparr> else s))
      else
        (case find_prev (\<lambda>p. t_next (threads s p)) thread (sched_head s) of
           None \<Rightarrow> Stop Diverge
         | Some t1 \<Rightarrow>
             if t1 = NULL then Ok (1, s)
             else
               (let s = th_upd t1 (\<lambda>t. t\<lparr>t_next := t_next (threads s thread)\<rparr>) s
                in Ok (0, if sched_tail s = thread then s\<lparr>sched_tail := t1\<rparr> else s))))"

definition schedule_next :: "'a thread_state_scheme \<Rightarrow> ptr" where
  "schedule_next s = sched_head s"

section \<open>The store of threads\<close>

text \<open>\<open>next_of s\<close> is the successor function of the scheduler's queue in the state \<open>s\<close>.\<close>

abbreviation next_of :: "'a thread_state_scheme \<Rightarrow> ptr \<Rightarrow> ptr" where
  "next_of s \<equiv> \<lambda>p. t_next (threads s p)"

lemma threads_th_upd [simp]: "threads (th_upd p f s) = (threads s)(p := f (threads s p))"
  by (simp add: th_upd_def)

lemma th_upd_frame [simp]:
  "active_thread (th_upd p f s) = active_thread s"
  "thread_table (th_upd p f s) = thread_table s"
  "sched_head (th_upd p f s) = sched_head s" "sched_tail (th_upd p f s) = sched_tail s"
  "ev_front (th_upd p f s) = ev_front s" "ev_back (th_upd p f s) = ev_back s"
  "irqstate (th_upd p f s) = irqstate s"
  "dead_tail (th_upd p f s) = dead_tail s" "dead_head (th_upd p f s) = dead_head s"
  "reaper_tail (th_upd p f s) = reaper_tail s" "reaper_head (th_upd p f s) = reaper_head s"
  "fault_tail (th_upd p f s) = fault_tail s" "fault_head (th_upd p f s) = fault_head s"
  "debug_tail (th_upd p f s) = debug_tail s" "debug_head (th_upd p f s) = debug_head s"
  "timer_tick (th_upd p f s) = timer_tick s" "pit_freq (th_upd p f s) = pit_freq s"
  "irq_mask_reg (th_upd p f s) = irq_mask_reg s" "out_log (th_upd p f s) = out_log s"
  "pctx_table (th_upd p f s) = pctx_table s" "active_pctx (th_upd p f s) = active_pctx s"
  "cr3 (th_upd p f s) = cr3 s" "cr2 (th_upd p f s) = cr2 s" "pmem (th_upd p f s) = pmem s"
  "int_handler_tab (th_upd p f s) = int_handler_tab s" "tss (th_upd p f s) = tss s"
  by (simp_all add: th_upd_def)

text \<open>Successor functions after an update of one member of a record.\<close>

lemma next_upd: "(\<lambda>q. t_next (((threads s)(p := r)) q)) = (next_of s)(p := t_next r)"
  by (rule ext) simp

section \<open>Contents of the queue\<close>

definition sched_queue :: "'a thread_state_scheme \<Rightarrow> ptr list \<Rightarrow> bool" where
  "sched_queue s xs \<longleftrightarrow> fifo (next_of s) (sched_head s) (sched_tail s) xs"

lemma sched_queue_unique: "sched_queue s xs \<Longrightarrow> sched_queue s ys \<Longrightarrow> xs = ys"
  unfolding sched_queue_def by (rule fifo_unique)

lemma sched_queue_distinct: "sched_queue s xs \<Longrightarrow> distinct xs"
  unfolding sched_queue_def by (rule fifo_distinct)

lemma sched_queue_not_null: "sched_queue s xs \<Longrightarrow> x \<in> set xs \<Longrightarrow> x \<noteq> NULL"
  by (auto simp: sched_queue_def fifo_def dest: chain_in_not_null)

lemma schedule_next_front: "sched_queue s xs \<Longrightarrow> schedule_next s = (case xs of [] \<Rightarrow> NULL | x # _ \<Rightarrow> x)"
  by (auto simp: schedule_next_def sched_queue_def fifo_def split: list.split)

lemma schedule_push_next:
  "next_of (schedule_push a s) =
     (if sched_tail s = NULL then (next_of s)(a := NULL) else (next_of s)(sched_tail s := a, a := NULL))"
  by (auto simp: schedule_push_def Let_def fun_eq_iff)

lemma schedule_push_ends [simp]:
  "sched_head (schedule_push a s) = (if sched_tail s = NULL then a else sched_head s)"
  "sched_tail (schedule_push a s) = a"
  by (simp_all add: schedule_push_def Let_def)

lemma schedule_push_queue:
  assumes "sched_queue s xs" and "a \<noteq> NULL" and "a \<notin> set xs"
  shows "sched_queue (schedule_push a s) (xs @ [a])"
proof (cases "sched_tail s = NULL")
  case True
  then have "xs = []" using assms using fifo_tail_null by (fastforce simp: sched_queue_def)
  with True assms show ?thesis by (simp add: sched_queue_def schedule_push_next)
next
  case False
  with assms fifo_push [of "next_of s" "sched_head s" "sched_tail s" xs a] show ?thesis
    by (simp add: sched_queue_def schedule_push_next)
qed

text \<open>
  \<open>schedule_remv\<close> removes a thread wherever it stands in the queue, and reports 1 without a change
  for a thread that is not in it.
\<close>

lemma schedule_remv_absent:
  assumes "sched_queue s xs" and "a \<notin> set xs"
  shows "schedule_remv a s = Ok (1, s)"
proof (cases xs)
  case Nil
  with assms show ?thesis by (simp add: sched_queue_def schedule_remv_def)
next
  case (Cons x ys)
  with assms have c: "chain (next_of s) (sched_head s) (x # ys)" by (simp add: sched_queue_def fifo_def)
  have "find_prev (next_of s) a (sched_head s) = Some NULL"
    by (rule find_prev_absent [OF c]) (use Cons assms in simp)
  with c Cons assms show ?thesis
    by (simp add: schedule_remv_def)
qed

lemma schedule_remv_front:
  assumes "sched_queue s (a # xs)"
  defines "s' \<equiv> s\<lparr>sched_head := next_of s a, sched_tail := (if next_of s a = NULL then NULL else sched_tail s)\<rparr>"
  shows "schedule_remv a s = Ok (0, s')" and "sched_queue s' xs"
proof -
  from assms(1) have "sched_head s = a" and "a \<noteq> NULL"
    by (simp_all add: sched_queue_def fifo_def)
  then show "schedule_remv a s = Ok (0, s')"
    by (simp add: schedule_remv_def s'_def Let_def)
  show "sched_queue s' xs"
    using fifo_unlink_front assms(1) by (fastforce simp: sched_queue_def s'_def)
qed

text \<open>Updates of the records that keep the links of the scheduler keep its queue.\<close>

lemma sched_queue_th_upd [simp]:
  "(\<And>t. t_next (f t) = t_next t) \<Longrightarrow> sched_queue (th_upd p f s) xs = sched_queue s xs"
proof -
  assume "\<And>t. t_next (f t) = t_next t"
  then have "next_of (th_upd p f s) = next_of s" by (auto simp: fun_eq_iff)
  then show ?thesis by (simp add: sched_queue_def)
qed

text \<open>Both operations change the ends of the queue and links, and nothing else.\<close>

definition sched_only :: "'a thread_state_scheme \<Rightarrow> 'a thread_state_scheme \<Rightarrow> bool" where
  "sched_only s s' \<longleftrightarrow>
     (\<exists>h t m. s' = s\<lparr>sched_head := h, sched_tail := t, threads := m\<rparr> \<and>
        (\<forall>p. \<exists>n. m p = (threads s p)\<lparr>t_next := n\<rparr>))"

lemma sched_only_thread:
  assumes "sched_only s s'"
  obtains n where "threads s' p = (threads s p)\<lparr>t_next := n\<rparr>"
proof -
  from assms have "\<exists>n. threads s' p = (threads s p)\<lparr>t_next := n\<rparr>"
    by (fastforce simp: sched_only_def)
  with that show ?thesis by blast
qed

lemma sched_only_fields:
  assumes "sched_only s s'"
  shows "t_state (threads s' p) = t_state (threads s p)" "t_id (threads s' p) = t_id (threads s p)"
    "t_event (threads s' p) = t_event (threads s p)" "t_eax (threads s' p) = t_eax (threads s p)"
    "t_next_evqueue (threads s' p) = t_next_evqueue (threads s p)"
    "t_next_dead (threads s' p) = t_next_dead (threads s p)"
    "t_next_fault (threads s' p) = t_next_fault (threads s p)"
    "t_fxdata (threads s' p) = t_fxdata (threads s p)" "t_pctx (threads s' p) = t_pctx (threads s p)"
    "t_flags (threads s' p) = t_flags (threads s p)" "t_num (threads s' p) = t_num (threads s p)"
    "t_vm86_active (threads s' p) = t_vm86_active (threads s p)"
    "active_thread s' = active_thread s" "thread_table s' = thread_table s" "irqstate s' = irqstate s"
    "ev_front s' = ev_front s" "ev_back s' = ev_back s" "can_use_fpu s' = can_use_fpu s"
    "dead_tail s' = dead_tail s" "dead_head s' = dead_head s" "reaper_tail s' = reaper_tail s" "reaper_head s' = reaper_head s"
    "fault_tail s' = fault_tail s" "fault_head s' = fault_head s" "debug_tail s' = debug_tail s" "debug_head s' = debug_head s"
    "active_pctx s' = active_pctx s" "pctx_table s' = pctx_table s" "irq_mask_reg s' = irq_mask_reg s"
    "int_handler_tab s' = int_handler_tab s" "timer_tick s' = timer_tick s" "pit_freq s' = pit_freq s"
proof -
  obtain n where "threads s' p = (threads s p)\<lparr>t_next := n\<rparr>" using sched_only_thread [OF assms] .
  then show "t_state (threads s' p) = t_state (threads s p)" "t_id (threads s' p) = t_id (threads s p)"
    "t_event (threads s' p) = t_event (threads s p)" "t_eax (threads s' p) = t_eax (threads s p)"
    "t_next_evqueue (threads s' p) = t_next_evqueue (threads s p)"
    "t_next_dead (threads s' p) = t_next_dead (threads s p)"
    "t_next_fault (threads s' p) = t_next_fault (threads s p)"
    "t_fxdata (threads s' p) = t_fxdata (threads s p)" "t_pctx (threads s' p) = t_pctx (threads s p)"
    "t_flags (threads s' p) = t_flags (threads s p)" "t_num (threads s' p) = t_num (threads s p)"
    "t_vm86_active (threads s' p) = t_vm86_active (threads s p)"
    by simp_all
qed (use assms in \<open>auto simp: sched_only_def\<close>)

lemma sched_only_ends: "sched_only s (s\<lparr>sched_head := h, sched_tail := t\<rparr>)"
proof -
  have "\<exists>n. threads s p = (threads s p)\<lparr>t_next := n\<rparr>" for p
    by (rule exI [of _ "t_next (threads s p)"]) simp
  moreover have "s\<lparr>sched_head := h, sched_tail := t\<rparr> = s\<lparr>sched_head := h, sched_tail := t, threads := threads s\<rparr>"
    by simp
  ultimately show ?thesis unfolding sched_only_def by blast
qed

lemma sched_only_link:
  "sched_only s (s\<lparr>sched_head := h, sched_tail := t, threads := (threads s)(p := (threads s p)\<lparr>t_next := n\<rparr>)\<rparr>)"
proof -
  have "\<exists>n'. ((threads s)(p := (threads s p)\<lparr>t_next := n\<rparr>)) q = (threads s q)\<lparr>t_next := n'\<rparr>" for q
    by (rule exI [of _ "if q = p then n else t_next (threads s q)"]) simp
  then show ?thesis unfolding sched_only_def by blast
qed

lemma upd_threads_tail:
  "s\<lparr>threads := m, sched_tail := t\<rparr> = s\<lparr>sched_tail := t, threads := m\<rparr>"
  by simp

lemma sched_only_trans:
  assumes "sched_only s s'" and "sched_only s' s''"
  shows "sched_only s s''"
proof -
  from assms obtain h t m h' t' m'
    where s': "s' = s\<lparr>sched_head := h, sched_tail := t, threads := m\<rparr>"
      and m: "\<And>p. \<exists>n. m p = (threads s p)\<lparr>t_next := n\<rparr>"
      and s'': "s'' = s'\<lparr>sched_head := h', sched_tail := t', threads := m'\<rparr>"
      and m': "\<And>p. \<exists>n. m' p = (threads s' p)\<lparr>t_next := n\<rparr>"
    unfolding sched_only_def by blast
  have "\<exists>n. m' p = (threads s p)\<lparr>t_next := n\<rparr>" for p
    using m [of p] m' [of p] unfolding s' by auto
  moreover have "s'' = s\<lparr>sched_head := h', sched_tail := t', threads := m'\<rparr>" unfolding s'' s' by simp
  ultimately show ?thesis unfolding sched_only_def by blast
qed

lemma schedule_push_only: "sched_only s (schedule_push a s)"
proof -
  define s1 where "s1 = (if sched_tail s = NULL then s\<lparr>sched_head := a\<rparr>
    else th_upd (sched_tail s) (\<lambda>t. t\<lparr>t_next := a\<rparr>) s)\<lparr>sched_tail := a\<rparr>"
  have "sched_only s s1"
    using sched_only_ends [of s a a]
      sched_only_link [where s = s and h = "sched_head s" and t = a and p = "sched_tail s" and n = a]
    by (cases "sched_tail s = NULL") (simp_all add: s1_def th_upd_def upd_threads_tail)
  moreover have "sched_only s1 (th_upd a (\<lambda>t. t\<lparr>t_next := NULL\<rparr>) s1)"
    using sched_only_link [where s = s1 and h = "sched_head s1" and t = "sched_tail s1" and p = a and n = NULL]
    by (simp add: th_upd_def)
  moreover have "schedule_push a s = th_upd a (\<lambda>t. t\<lparr>t_next := NULL\<rparr>) s1"
    by (simp add: schedule_push_def s1_def Let_def)
  ultimately show ?thesis using sched_only_trans by metis
qed

lemma schedule_remv_frame:
  assumes q: "sched_queue s xs" and a: "a \<in> set xs"
  obtains s' where "schedule_remv a s = Ok (0, s')" and "sched_queue s' (remove1 a xs)" and "sched_only s s'"
    and "\<And>p. p \<notin> set (remove1 a xs) \<Longrightarrow> threads s' p = threads s p"
proof (cases "a = sched_head s")
  case True
  with q a obtain ys where xs: "xs = a # ys" by (cases xs) (auto simp: sched_queue_def fifo_def)
  show ?thesis
    using schedule_remv_front [of s a ys] q xs
    by (intro that [OF _ _ sched_only_ends]) simp_all
next
  case False
  with q a have "a \<noteq> hd xs" by (cases xs) (auto simp: sched_queue_def fifo_def)
  with a obtain us b vs where xs: "xs = us @ b # a # vs" using split_at_pred [of a xs] by blast
  let ?s' = "s\<lparr>sched_head := sched_head s, sched_tail := (if sched_tail s = a then b else sched_tail s),
    threads := (threads s)(b := (threads s b)\<lparr>t_next := next_of s a\<rparr>)\<rparr>"
  have f: "fifo (next_of s) (sched_head s) (sched_tail s) (us @ b # a # vs)"
    using q xs by (simp add: sched_queue_def)
  then have "chain (next_of s) (sched_head s) (us @ b # a # vs)" by (simp add: fifo_def)
  then have "find_prev (next_of s) a (sched_head s) = Some b" by (rule find_prev_found)
  moreover have "b \<noteq> NULL" and "sched_head s \<noteq> NULL"
    using sched_queue_not_null [OF q] xs fifo_head_null [OF f] by auto
  ultimately have run: "schedule_remv a s = Ok (0, ?s')"
    using False by (simp add: schedule_remv_def Let_def th_upd_def)
  have "distinct xs" using q by (rule sched_queue_distinct)
  then have r: "remove1 a xs = us @ b # vs" using xs by (auto simp: remove1_append)
  have "next_of ?s' = (next_of s)(b := next_of s a)" by (auto simp: fun_eq_iff)
  then have "sched_queue ?s' (remove1 a xs)"
    using fifo_unlink [OF f] r by (simp add: sched_queue_def)
  moreover have "threads ?s' p = threads s p" if "p \<notin> set (remove1 a xs)" for p using that r by simp
  ultimately show ?thesis using run sched_only_link by (intro that [of ?s']) blast+
qed

lemma schedule_remv_queue:
  assumes "sched_queue s xs" and "a \<in> set xs"
  obtains s' where "schedule_remv a s = Ok (0, s')" and "sched_queue s' (remove1 a xs)" and "sched_only s s'"
  by (rule schedule_remv_frame [OF assms])

section \<open>The scheduler as a queue\<close>

text \<open>Taking the next thread out of the queue, the way the interrupt dispatcher does it.\<close>

definition sched_pull :: "'a thread_state_scheme \<Rightarrow> 'a thread_state_scheme" where
  "sched_pull s = ok_state s (schedule_remv (schedule_next s) s)"

lemma sched_pull_front:
  assumes "sched_queue s (a # xs)"
  shows "sched_queue (sched_pull s) xs"
  using schedule_remv_front [OF assms] schedule_next_front [OF assms] by (simp add: sched_pull_def)

lemmas schedule_push_fields [simp] = sched_only_fields [OF schedule_push_only]

interpretation sched: rotating_queue sched_queue "\<lambda>s a. a \<noteq> NULL" schedule_push schedule_next sched_pull
proof
  show "xs = ys" if "sched_queue s xs" "sched_queue s ys" for s :: "'a thread_state_scheme" and xs ys
    using that by (rule sched_queue_unique)
qed (auto simp: sched_queue_distinct schedule_next_front schedule_push_queue sched_pull_front
       dest: sched_queue_not_null)

section \<open>Properties\<close>

text \<open>
  C22: Removing a thread from the scheduler ends for every well-formed queue. A thread that is in the queue is taken out of it, wherever it
  stands, and the result is 0; but for the two ends of the queue and the links of the threads that stay in it, the state is as before. For any other thread the result is 1 and the
  state is as before.
\<close>

theorem schedule_remv_removes:
  assumes "sched_queue s xs"
  shows "if a \<in> set xs
    then \<exists>s'. schedule_remv a s = Ok (0, s') \<and> sched_queue s' (remove1 a xs) \<and> sched_only s s' \<and>
      (\<forall>p. p \<notin> set (remove1 a xs) \<longrightarrow> threads s' p = threads s p)
    else schedule_remv a s = Ok (1, s)"
proof (cases "a \<in> set xs")
  case True
  show ?thesis by (rule schedule_remv_frame [OF assms True]) (use True in auto)
qed (simp add: schedule_remv_absent [OF assms])

theorem schedule_remv_removes_witness:
  "\<exists>s'. schedule_remv 0x2000 demo_threads = Ok (0, s') \<and> sched_queue s' []"
proof -
  have "sched_queue demo_threads [0x2000]" by (simp add: sched_queue_def fifo_def demo_threads_def zero_thread_def)
  then show ?thesis using schedule_remv_removes [of demo_threads "[0x2000]" "0x2000"] by auto
qed

end
