(* ===== verification/Event.thy ===== *)
theory Event
  imports Sched
begin

text \<open>
  Event queues (\<open>event_wait\<close>, \<open>event_remv\<close>, \<open>event_send\<close> of \<open>src/kernel/thread.c\<close>): a thread waits
  for one of 256 events; the first 240 are interrupt requests, which are masked and remembered in
  \<open>irqstate\<close> until a thread resets them.
\<close>

section \<open>Operations\<close>

text \<open>A negative event number polls \<open>irqstate[~event]\<close>, without a check of the index.\<close>

definition event_wait :: "u32 \<Rightarrow> u32 \<Rightarrow> 'a thread_state_scheme \<Rightarrow> (u32 \<times> 'a thread_state_scheme) outcome" where
  "event_wait tid event s =
     (let thread = thread_get tid s
      in if thread = NULL then Ok (1, s)
         else if sint event < 0 then
           (if unat (NOT event) \<ge> EV_COUNT then Stop OutOfBounds
            else if irqstate s (unat (NOT event)) \<noteq> 0 then Ok (1, s) else Ok (0, s))
         else if sint event < 0 \<or> sint event \<ge> int EV_COUNT then Ok (1, s)
         else if irqstate s (unat event) \<noteq> 0 then
           and_then (thread_save thread s) (\<lambda>s.
             Ok (0, th_upd thread (\<lambda>t. t\<lparr>t_state := TS_QUEUED\<rparr>) (schedule_push thread s)))
         else
           (let s = (if ev_back s (unat event) = NULL
                     then s\<lparr>ev_front := (ev_front s)(unat event := thread)\<rparr>
                     else th_upd (ev_back s (unat event)) (\<lambda>t. t\<lparr>t_next_evqueue := thread\<rparr>) s);
                s = s\<lparr>ev_back := (ev_back s)(unat event := thread)\<rparr>;
                s = th_upd thread (\<lambda>t. t\<lparr>t_next_evqueue := NULL\<rparr>) s;
                s = th_upd thread (\<lambda>t. t\<lparr>t_event := event\<rparr>) s
            in and_then (thread_save thread s) (\<lambda>s.
                 Ok (0, th_upd thread (\<lambda>t. t\<lparr>t_state := TS_WAITING\<rparr>) s))))"

text \<open>The search and the unlinking go through \<open>next\<close>, the link of the scheduler.\<close>

definition event_remv :: "u32 \<Rightarrow> u32 \<Rightarrow> 'a thread_state_scheme \<Rightarrow> (u32 \<times> 'a thread_state_scheme) outcome" where
  "event_remv tid event s =
     (let thread = thread_get tid s; e = unat event
      in if thread = NULL then Ok (1, s)
         else if sint event < 0 \<or> sint event \<ge> int EV_COUNT then Ok (1, s)
         else if ev_front s e = NULL then Ok (1, s)
         else if ev_front s e = thread then
           (let s = s\<lparr>ev_front := (ev_front s)(e := t_next (threads s thread))\<rparr>
            in Ok (0, if ev_back s e = thread then s\<lparr>ev_back := (ev_back s)(e := NULL)\<rparr> else s))
         else
           (case find_prev (\<lambda>p. t_next (threads s p)) thread (ev_front s e) of
              None \<Rightarrow> Stop Diverge
            | Some t \<Rightarrow>
                if t = NULL then Ok (1, s)
                else
                  (let s = th_upd t (\<lambda>r. r\<lparr>t_next := t_next (threads s thread)\<rparr>) s
                   in Ok (0, if ev_back s e = thread then s\<lparr>ev_back := (ev_back s)(e := t)\<rparr> else s))))"

text \<open>The thread in front of the queue of an event leaves it for the scheduler, with the event as result.\<close>

definition event_wake :: "u32 \<Rightarrow> 'a thread_state_scheme \<Rightarrow> 'a thread_state_scheme outcome" where
  "event_wake event s =
     (let thread = ev_front s (unat event);
          s = s\<lparr>ev_front := (ev_front s)(unat event := t_next_evqueue (threads s thread))\<rparr>;
          s = (if t_next_evqueue (threads s thread) = NULL then s\<lparr>ev_back := (ev_back s)(unat event := NULL)\<rparr> else s);
          s = th_upd thread (\<lambda>t. t\<lparr>t_eax := event\<rparr>) s;
          s = th_upd thread (\<lambda>t. t\<lparr>t_event := - 1\<rparr>) s
      in and_then (if t_state (threads s thread) = TS_RUNNING then thread_save thread s else Ok s) (\<lambda>s.
           Ok (th_upd thread (\<lambda>t. t\<lparr>t_state := TS_QUEUED\<rparr>) (schedule_push thread s))))"

definition event_send :: "u32 \<Rightarrow> u32 \<Rightarrow> 'a thread_state_scheme \<Rightarrow> (u32 \<times> 'a thread_state_scheme) outcome" where
  "event_send tid event s =
     (if sint event < 0 \<or> sint event \<ge> int EV_COUNT then Ok (1, s)
      else
        and_then (if ev_front s (unat event) \<noteq> NULL then event_wake event s else Ok s) (\<lambda>s.
          if sint event < 240 then
            and_then (irq_mask (ucast event) s) (\<lambda>s.
              let s = snd (irq_reset (ucast event) s)
              in Ok (0, s\<lparr>irqstate := (irqstate s)(unat event := 1)\<rparr>))
          else Ok (0, s)))"

section \<open>Waiting\<close>

abbreviation ev_next :: "'a thread_state_scheme \<Rightarrow> ptr \<Rightarrow> ptr" where
  "ev_next s \<equiv> \<lambda>p. t_next_evqueue (threads s p)"

definition ev_queue :: "nat \<Rightarrow> 'a thread_state_scheme \<Rightarrow> ptr list \<Rightarrow> bool" where
  "ev_queue e s xs \<longleftrightarrow> fifo (ev_next s) (ev_front s e) (ev_back s e) xs"

lemma ev_queue_not_null: "ev_queue e s xs \<Longrightarrow> x \<in> set xs \<Longrightarrow> x \<noteq> NULL"
  by (auto simp: ev_queue_def fifo_def dest: chain_in_not_null)

text \<open>The state in which \<open>event_wait\<close> leaves a thread that has to wait.\<close>

definition ev_enqueue :: "ptr \<Rightarrow> u32 \<Rightarrow> 'a thread_state_scheme \<Rightarrow> 'a thread_state_scheme" where
  "ev_enqueue thread event s =
     (let s = (if ev_back s (unat event) = NULL
               then s\<lparr>ev_front := (ev_front s)(unat event := thread)\<rparr>
               else th_upd (ev_back s (unat event)) (\<lambda>t. t\<lparr>t_next_evqueue := thread\<rparr>) s);
          s = s\<lparr>ev_back := (ev_back s)(unat event := thread)\<rparr>;
          s = th_upd thread (\<lambda>t. t\<lparr>t_next_evqueue := NULL\<rparr>) s
      in th_upd thread (\<lambda>t. t\<lparr>t_event := event\<rparr>) s)"

lemma event_wait_cases:
  "event_wait tid event s =
     (if thread_get tid s = NULL then Ok (1, s)
      else if sint event < 0 then
        (if unat (NOT event) \<ge> EV_COUNT then Stop OutOfBounds
         else if irqstate s (unat (NOT event)) \<noteq> 0 then Ok (1, s) else Ok (0, s))
      else if unat event \<ge> EV_COUNT then Ok (1, s)
      else if irqstate s (unat event) \<noteq> 0 then
        and_then (thread_save (thread_get tid s) s) (\<lambda>s'.
          Ok (0, th_upd (thread_get tid s) (\<lambda>t. t\<lparr>t_state := TS_QUEUED\<rparr>) (schedule_push (thread_get tid s) s')))
      else
        and_then (thread_save (thread_get tid s) (ev_enqueue (thread_get tid s) event s)) (\<lambda>s'.
          Ok (0, th_upd (thread_get tid s) (\<lambda>t. t\<lparr>t_state := TS_WAITING\<rparr>) s')))"
  using index_out_of_range_numeral(2) [of event]
  by (auto simp: event_wait_def ev_enqueue_def Let_def)

lemma ev_enqueue_fields [simp]:
  "sched_head (ev_enqueue p event s) = sched_head s" "sched_tail (ev_enqueue p event s) = sched_tail s"
  "active_thread (ev_enqueue p event s) = active_thread s" "thread_table (ev_enqueue p event s) = thread_table s"
  "irqstate (ev_enqueue p event s) = irqstate s" "can_use_fpu (ev_enqueue p event s) = can_use_fpu s"
  by (simp_all add: ev_enqueue_def Let_def th_upd_def)

lemma ev_enqueue_queue:
  assumes "ev_queue (unat event) s xs" and "p \<noteq> NULL" and "p \<notin> set xs"
  shows "ev_queue (unat event) (ev_enqueue p event s) (xs @ [p])"
proof (cases "ev_back s (unat event) = NULL")
  case True
  then have "xs = []" using assms fifo_tail_null by (fastforce simp: ev_queue_def)
  with True assms show ?thesis by (simp add: ev_queue_def ev_enqueue_def)
next
  case False
  have "ev_next (ev_enqueue p event s) = (ev_next s)(ev_back s (unat event) := p, p := NULL)"
    using False by (auto simp: ev_enqueue_def Let_def fun_eq_iff)
  with False assms fifo_push [of "ev_next s" "ev_front s (unat event)" "ev_back s (unat event)" xs p]
  show ?thesis by (simp add: ev_queue_def ev_enqueue_def Let_def)
qed

lemma ev_enqueue_other:
  assumes "ev_queue (unat event) s xs" and "ev_queue e s ys" and "e \<noteq> unat event"
    and "set xs \<inter> set ys = {}" and "p \<notin> set ys"
  shows "ev_queue e (ev_enqueue p event s) ys"
proof -
  have "ev_back s (unat event) \<notin> set ys"
  proof (cases "xs = []")
    case True
    then show ?thesis using assms ev_queue_not_null by (fastforce simp: ev_queue_def)
  next
    case False
    then have "ev_back s (unat event) \<in> set xs" using assms(1) by (simp add: ev_queue_def fifo_def)
    with assms(4) show ?thesis by blast
  qed
  then have "ev_next (ev_enqueue p event s) x = ev_next s x" if "x \<in> set ys" for x
    using that assms(5) by (auto simp: ev_enqueue_def Let_def)
  then have "fifo (ev_next (ev_enqueue p event s)) (ev_front s e) (ev_back s e) ys"
    using assms(2) fifo_cong [of ys "ev_next (ev_enqueue p event s)" "ev_next s"] by (simp add: ev_queue_def)
  moreover have "ev_front (ev_enqueue p event s) e = ev_front s e" "ev_back (ev_enqueue p event s) e = ev_back s e"
    using assms(3) by (simp_all add: ev_enqueue_def Let_def)
  ultimately show ?thesis by (simp add: ev_queue_def)
qed

text \<open>Only the event, the link of the waiting thread and the link of its predecessor change in the records.\<close>

lemma ev_enqueue_thread:
  obtains n e where "threads (ev_enqueue p event s) q = (threads s q)\<lparr>t_next_evqueue := n, t_event := e\<rparr>"
    and "q \<noteq> p \<Longrightarrow> e = t_event (threads s q)" and "q = p \<Longrightarrow> e = event"
proof -
  let ?r = "threads (ev_enqueue p event s) q"
  have "?r = (threads s q)\<lparr>t_next_evqueue := t_next_evqueue ?r, t_event := t_event ?r\<rparr>"
    by (simp add: ev_enqueue_def Let_def)
  moreover have "q \<noteq> p \<Longrightarrow> t_event ?r = t_event (threads s q)" and "q = p \<Longrightarrow> t_event ?r = event"
    by (simp_all add: ev_enqueue_def Let_def)
  ultimately show ?thesis using that by blast
qed

section \<open>Waking\<close>

text \<open>The state after the front of the queue of an event has been taken off and given the event.\<close>

definition ev_dequeue :: "u32 \<Rightarrow> 'a thread_state_scheme \<Rightarrow> 'a thread_state_scheme" where
  "ev_dequeue event s =
     (let thread = ev_front s (unat event);
          s = s\<lparr>ev_front := (ev_front s)(unat event := t_next_evqueue (threads s thread))\<rparr>;
          s = (if t_next_evqueue (threads s thread) = NULL then s\<lparr>ev_back := (ev_back s)(unat event := NULL)\<rparr> else s)
      in th_upd thread (\<lambda>t. t\<lparr>t_eax := event, t_event := - 1\<rparr>) s)"

lemma ev_dequeue_fields [simp]:
  "sched_head (ev_dequeue event s) = sched_head s" "sched_tail (ev_dequeue event s) = sched_tail s"
  "active_thread (ev_dequeue event s) = active_thread s" "thread_table (ev_dequeue event s) = thread_table s"
  "irqstate (ev_dequeue event s) = irqstate s" "can_use_fpu (ev_dequeue event s) = can_use_fpu s"
  "ev_next (ev_dequeue event s) = ev_next s" "next_of (ev_dequeue event s) = next_of s"
  by (auto simp: ev_dequeue_def Let_def th_upd_def fun_eq_iff)

lemma ev_dequeue_threads:
  "threads (ev_dequeue event s) =
     (threads s)(ev_front s (unat event) := (threads s (ev_front s (unat event)))\<lparr>t_eax := event, t_event := - 1\<rparr>)"
  by (simp add: ev_dequeue_def Let_def)

lemma ev_dequeue_queue:
  assumes "ev_queue (unat event) s (p # xs)"
  shows "ev_queue (unat event) (ev_dequeue event s) xs"
proof -
  have "ev_front s (unat event) = p" using assms by (simp add: ev_queue_def fifo_def)
  with assms fifo_pop [of "ev_next s" "ev_front s (unat event)" "ev_back s (unat event)" p xs]
  show ?thesis unfolding ev_queue_def ev_dequeue_fields
    by (auto simp: ev_dequeue_def Let_def)
qed

lemma ev_dequeue_other: "e \<noteq> unat event \<Longrightarrow> ev_queue e s ys \<Longrightarrow> ev_queue e (ev_dequeue event s) ys"
  unfolding ev_queue_def ev_dequeue_fields by (auto simp: ev_dequeue_def Let_def)

lemma event_wake_eq:
  "event_wake event s =
     and_then (if t_state (threads s (ev_front s (unat event))) = TS_RUNNING
               then thread_save (ev_front s (unat event)) (ev_dequeue event s) else Ok (ev_dequeue event s))
       (\<lambda>s'. Ok (th_upd (ev_front s (unat event)) (\<lambda>t. t\<lparr>t_state := TS_QUEUED\<rparr>)
                (schedule_push (ev_front s (unat event)) s')))"
proof -
  have "th_upd p (\<lambda>t. t\<lparr>t_event := - 1\<rparr>) (th_upd p (\<lambda>t. t\<lparr>t_eax := event\<rparr>) s') =
      th_upd p (\<lambda>t. t\<lparr>t_eax := event, t_event := - 1\<rparr>) s'" for p and s' :: "'a thread_state_scheme"
    by (simp add: th_upd_def)
  then show ?thesis
    by (simp add: event_wake_def ev_dequeue_def Let_def)
qed

section \<open>Frame conditions\<close>

lemma ev_queue_th_upd [simp]:
  "(\<And>t. t_next_evqueue (f t) = t_next_evqueue t) \<Longrightarrow> ev_queue e (th_upd p f s) xs = ev_queue e s xs"
proof -
  assume "\<And>t. t_next_evqueue (f t) = t_next_evqueue t"
  then have "ev_next (th_upd p f s) = ev_next s" by (auto simp: fun_eq_iff)
  then show ?thesis by (simp add: ev_queue_def)
qed

lemma sched_only_ev: "sched_only s s' \<Longrightarrow> ev_queue e s' xs = ev_queue e s xs"
  by (simp add: ev_queue_def sched_only_fields)

lemma schedule_push_ev [simp]: "ev_queue e (schedule_push p s) xs = ev_queue e s xs"
  by (simp add: ev_queue_def)

lemma can_use_fpu_kept [simp]:
  "can_use_fpu (th_upd p f s) = can_use_fpu s" "can_use_fpu (schedule_push p s) = can_use_fpu s"
  by (simp_all add: th_upd_def schedule_push_def Let_def)

section \<open>Results\<close>

text \<open>A thread that waits for an event that is not pending joins its queue and gives up the processor.\<close>

lemma event_wait_waits:
  assumes "thread_get tid s = p" and "p \<noteq> NULL" and "unat event < EV_COUNT" and "irqstate s (unat event) = 0"
    and "t_fxdata (threads s p) = NULL \<or> \<not> can_use_fpu s"
  shows "event_wait tid event s =
    Ok (0, th_upd p (\<lambda>t. t\<lparr>t_state := TS_WAITING\<rparr>) ((ev_enqueue p event s)\<lparr>active_thread := NULL\<rparr>))"
proof -
  obtain n e where "threads (ev_enqueue p event s) p = (threads s p)\<lparr>t_next_evqueue := n, t_event := e\<rparr>"
    using ev_enqueue_thread [of p event s p] .
  with assms(5) have "thread_save p (ev_enqueue p event s) = Ok ((ev_enqueue p event s)\<lparr>active_thread := NULL\<rparr>)"
    by (intro thread_save_plain) auto
  with assms show ?thesis by (simp add: event_wait_cases sint_small)
qed

text \<open>A thread that waits for a pending interrupt goes to the end of the scheduler's queue at once.\<close>

lemma event_wait_pending:
  assumes "thread_get tid s = p" and "p \<noteq> NULL" and "unat event < EV_COUNT" and "irqstate s (unat event) \<noteq> 0"
    and "t_fxdata (threads s p) = NULL \<or> \<not> can_use_fpu s"
  shows "event_wait tid event s =
    Ok (0, th_upd p (\<lambda>t. t\<lparr>t_state := TS_QUEUED\<rparr>) (schedule_push p (s\<lparr>active_thread := NULL\<rparr>)))"
  using assms by (simp add: event_wait_cases sint_small thread_save_plain)

text \<open>The same for a thread whose FPU data has to be saved.\<close>

lemma event_wait_queued:
  assumes "thread_get tid s = p" and "p \<noteq> NULL" and "unat event < EV_COUNT" and "irqstate s (unat event) = 0" and "fpu_mapped s p"
  obtains m f where "event_wait tid event s = Ok (0, th_upd p (\<lambda>t. t\<lparr>t_state := TS_WAITING\<rparr>)
      ((ev_enqueue p event s)\<lparr>pmem := m, fpu := f, active_thread := NULL\<rparr>))"
    and "loc (s\<lparr>pmem := m\<rparr>) = loc s \<and> table_frames (s\<lparr>pmem := m\<rparr>) = table_frames s"
proof -
  let ?s = "ev_enqueue p event s"
  have eq: "pmem ?s = pmem s" "cr3 ?s = cr3 s" "can_use_fpu ?s = can_use_fpu s" "t_fxdata (threads ?s p) = t_fxdata (threads s p)"
    by (simp_all add: ev_enqueue_def Let_def th_upd_def)
  have l: "loc ?s = loc s \<and> table_frames ?s = table_frames s" by (rule loc_cong) (simp_all add: eq)
  then have "fpu_mapped ?s p" using assms(5) fpu_mapped_cong [of ?s p s] eq by simp
  then obtain m f where save: "thread_save p ?s = Ok (?s\<lparr>pmem := m, fpu := f, active_thread := NULL\<rparr>)"
    and lt: "loc (?s\<lparr>pmem := m, fpu := f, active_thread := NULL\<rparr>) = loc ?s \<and>
      table_frames (?s\<lparr>pmem := m, fpu := f, active_thread := NULL\<rparr>) = table_frames ?s" by (rule thread_save_mapped)
  let ?t = "?s\<lparr>pmem := m, fpu := f, active_thread := NULL\<rparr>"
  have "loc (s\<lparr>pmem := m\<rparr>) = loc ?t \<and> table_frames (s\<lparr>pmem := m\<rparr>) = table_frames ?t" by (rule loc_cong) (simp_all add: eq)
  then have "loc (s\<lparr>pmem := m\<rparr>) = loc s \<and> table_frames (s\<lparr>pmem := m\<rparr>) = table_frames s" using l lt by simp
  with save assms(1-4) show thesis by (intro that [of f m]) (simp_all add: event_wait_cases sint_small)
qed

lemma event_wait_at_once:
  assumes "thread_get tid s = p" and "p \<noteq> NULL" and "unat event < EV_COUNT" and "irqstate s (unat event) \<noteq> 0" and "fpu_mapped s p"
  obtains m f where "event_wait tid event s = Ok (0, th_upd p (\<lambda>t. t\<lparr>t_state := TS_QUEUED\<rparr>)
      (schedule_push p (s\<lparr>pmem := m, fpu := f, active_thread := NULL\<rparr>)))"
proof -
  obtain m f where "thread_save p s = Ok (s\<lparr>pmem := m, fpu := f, active_thread := NULL\<rparr>)"
    using thread_save_mapped [OF assms(5)] by metis
  with assms show thesis by (intro that [of f m]) (simp add: event_wait_cases sint_small)
qed

lemma event_send_cases:
  "unat event < EV_COUNT \<Longrightarrow>
   event_send tid event s =
     and_then (if ev_front s (unat event) \<noteq> NULL then event_wake event s else Ok s) (\<lambda>s.
       if unat event < 240 then
         and_then (irq_mask (ucast event) s) (\<lambda>s.
           let s = snd (irq_reset (ucast event) s)
           in Ok (0, s\<lparr>irqstate := (irqstate s)(unat event := 1)\<rparr>))
       else Ok (0, s))"
proof -
  assume e: "unat event < EV_COUNT"
  then have "sint event = int (unat event)" by (simp add: sint_small del: of_nat_unat)
  then have "sint event < 240 \<longleftrightarrow> unat event < 240" by linarith
  with e show ?thesis using index_out_of_range_numeral(2) [of event] by (simp add: event_send_def)
qed

lemma event_wake_first:
  assumes "ev_queue (unat event) s (p # xs)" and "t_state (threads s p) \<noteq> TS_RUNNING"
  shows "event_wake event s =
    Ok (th_upd p (\<lambda>t. t\<lparr>t_state := TS_QUEUED\<rparr>) (schedule_push p (ev_dequeue event s)))"
proof -
  have "ev_front s (unat event) = p" using assms(1) by (simp add: ev_queue_def fifo_def)
  with assms(2) show ?thesis by (simp add: event_wake_eq)
qed

lemma ev_queue_front: "ev_queue e s (p # xs) \<Longrightarrow> ev_front s e = p \<and> p \<noteq> NULL"
  by (simp add: ev_queue_def fifo_def)

lemma ev_queue_empty: "ev_queue e s [] \<longleftrightarrow> ev_front s e = NULL \<and> ev_back s e = NULL"
  by (simp add: ev_queue_def)

section \<open>The queue of a virtual timer\<close>

text \<open>
  The events from 240 on are never pending, so their queues are plain queues: waiting enters one,
  and sending the event releases its first thread.
\<close>

definition vt_holds :: "nat \<Rightarrow> 'a thread_state_scheme \<Rightarrow> ptr list \<Rightarrow> bool" where
  "vt_holds e s xs \<longleftrightarrow> 240 \<le> e \<and> e < EV_COUNT \<and> irqstate s e = 0 \<and> ev_queue e s xs \<and>
     (\<forall>p \<in> set xs. t_state (threads s p) \<noteq> TS_RUNNING)"

definition vt_ready :: "'a thread_state_scheme \<Rightarrow> ptr \<Rightarrow> bool" where
  "vt_ready s p \<longleftrightarrow> live s p \<and> fpu_mapped s p"

definition vt_push :: "nat \<Rightarrow> ptr \<Rightarrow> 'a thread_state_scheme \<Rightarrow> 'a thread_state_scheme" where
  "vt_push e p s = ok_state s (event_wait (t_id (threads s p)) (of_nat e) s)"

definition vt_pull :: "nat \<Rightarrow> 'a thread_state_scheme \<Rightarrow> 'a thread_state_scheme" where
  "vt_pull e s = ok_state s (event_send (- 1) (of_nat e) s)"

lemma unat_event [simp]: "e < EV_COUNT \<Longrightarrow> unat (of_nat e :: u32) = e"
  by (simp add: unat_of_nat take_bit_eq_mod)

lemma vt_push_eq:
  assumes "vt_holds e s xs" and "vt_ready s p"
  obtains m f where "event_wait (t_id (threads s p)) (of_nat e) s = Ok (0, vt_push e p s)"
    and "vt_push e p s = th_upd p (\<lambda>t. t\<lparr>t_state := TS_WAITING\<rparr>) ((ev_enqueue p (of_nat e) s)\<lparr>pmem := m, fpu := f, active_thread := NULL\<rparr>)"
    and "loc (s\<lparr>pmem := m\<rparr>) = loc s \<and> table_frames (s\<lparr>pmem := m\<rparr>) = table_frames s"
proof -
  have p: "thread_get (t_id (threads s p)) s = p" "p \<noteq> NULL" "fpu_mapped s p"
    using assms(2) live_get [of s p] by (auto simp: vt_ready_def live_def)
  obtain m f where "event_wait (t_id (threads s p)) (of_nat e) s = Ok (0, th_upd p (\<lambda>t. t\<lparr>t_state := TS_WAITING\<rparr>)
      ((ev_enqueue p (of_nat e) s)\<lparr>pmem := m, fpu := f, active_thread := NULL\<rparr>))"
    "loc (s\<lparr>pmem := m\<rparr>) = loc s \<and> table_frames (s\<lparr>pmem := m\<rparr>) = table_frames s"
    by (rule event_wait_queued [OF p(1,2) _ _ p(3), of "of_nat e"]) (use assms(1) in \<open>simp_all add: vt_holds_def\<close>)
  then show thesis by (intro that [of f m]) (simp_all add: vt_push_def)
qed

lemma vt_pull_eq:
  assumes "vt_holds e s (p # xs)"
  shows "event_send (- 1) (of_nat e) s = Ok (0, vt_pull e s)"
    and "vt_pull e s = th_upd p (\<lambda>t. t\<lparr>t_state := TS_QUEUED\<rparr>) (schedule_push p (ev_dequeue (of_nat e) s))"
proof -
  have e: "unat (of_nat e :: u32) = e" using assms by (simp add: vt_holds_def)
  then have "event_wake (of_nat e) s =
      Ok (th_upd p (\<lambda>t. t\<lparr>t_state := TS_QUEUED\<rparr>) (schedule_push p (ev_dequeue (of_nat e) s)))"
    using assms by (intro event_wake_first [where xs = xs]) (simp_all add: vt_holds_def)
  with e assms show "event_send (- 1) (of_nat e) s = Ok (0, vt_pull e s)"
      "vt_pull e s = th_upd p (\<lambda>t. t\<lparr>t_state := TS_QUEUED\<rparr>) (schedule_push p (ev_dequeue (of_nat e) s))"
    using ev_queue_front [of e s p xs] by (simp_all add: vt_pull_def vt_holds_def event_send_cases)
qed

lemma ev_enqueue_record [simp]:
  "t_state (threads (ev_enqueue p event s) q) = t_state (threads s q)"
  "t_id (threads (ev_enqueue p event s) q) = t_id (threads s q)"
  "t_fxdata (threads (ev_enqueue p event s) q) = t_fxdata (threads s q)"
  "t_next (threads (ev_enqueue p event s) q) = t_next (threads s q)"
  "t_event (threads (ev_enqueue p event s) q) = (if q = p then event else t_event (threads s q))"
  by (simp_all add: ev_enqueue_def Let_def)

lemma vt_push_holds:
  assumes "vt_holds e s xs" and "vt_ready s p" and "p \<notin> set xs"
  shows "vt_holds e (vt_push e p s) (xs @ [p])"
proof -
  have "ev_queue e (ev_enqueue p (of_nat e) s) (xs @ [p])"
    using assms ev_enqueue_queue [of "of_nat e" s xs p] by (simp add: vt_holds_def vt_ready_def live_def)
  moreover obtain m f where "vt_push e p s = th_upd p (\<lambda>t. t\<lparr>t_state := TS_WAITING\<rparr>)
      ((ev_enqueue p (of_nat e) s)\<lparr>pmem := m, fpu := f, active_thread := NULL\<rparr>)"
    using vt_push_eq [OF assms(1,2)] by metis
  moreover from calculation(1) have "ev_queue e ((ev_enqueue p (of_nat e) s)\<lparr>pmem := m, fpu := f, active_thread := NULL\<rparr>) (xs @ [p])"
    by (simp add: ev_queue_def)
  ultimately show ?thesis using assms(1) unfolding vt_holds_def by auto
qed

lemma vt_push_ready:
  assumes "vt_holds e s xs" and "vt_ready s p" and "vt_ready s q"
  shows "vt_ready (vt_push e p s) q"
proof -
  obtain m f where eq: "vt_push e p s = th_upd p (\<lambda>t. t\<lparr>t_state := TS_WAITING\<rparr>)
      ((ev_enqueue p (of_nat e) s)\<lparr>pmem := m, fpu := f, active_thread := NULL\<rparr>)"
    and l: "loc (s\<lparr>pmem := m\<rparr>) = loc s \<and> table_frames (s\<lparr>pmem := m\<rparr>) = table_frames s"
    using vt_push_eq [OF assms(1,2)] by metis
  have "loc (vt_push e p s) = loc (s\<lparr>pmem := m\<rparr>) \<and> table_frames (vt_push e p s) = table_frames (s\<lparr>pmem := m\<rparr>)"
    by (rule loc_cong) (simp_all add: eq th_upd_def ev_enqueue_def Let_def)
  then have "fpu_mapped (vt_push e p s) q = fpu_mapped s q"
    using l by (intro fpu_mapped_cong) (simp_all add: eq)
  with assms(3) show ?thesis by (auto simp: vt_ready_def eq live_def)
qed

lemma vt_pull_holds:
  assumes "vt_holds e s (p # xs)"
  shows "vt_holds e (vt_pull e s) xs"
proof -
  have "p \<notin> set xs" using assms by (auto simp: vt_holds_def ev_queue_def dest: fifo_distinct)
  moreover have "ev_front s e = p" and "unat (of_nat e :: u32) = e"
    using assms ev_queue_front [of e s p xs] by (simp_all add: vt_holds_def)
  moreover have "ev_queue e (ev_dequeue (of_nat e) s) xs"
    using assms ev_dequeue_queue [of "of_nat e" s p xs] by (simp add: vt_holds_def)
  ultimately show ?thesis
    using assms unfolding vt_pull_eq(2) [OF assms] vt_holds_def
    by (auto simp: ev_dequeue_threads)
qed

lemma vt_pull_ready:
  assumes "vt_holds e s (p # xs)" and "vt_ready s q"
  shows "vt_ready (vt_pull e s) q"
proof -
  have "loc (vt_pull e s) = loc s \<and> table_frames (vt_pull e s) = table_frames s"
    by (rule loc_cong) (simp_all add: vt_pull_eq(2) [OF assms(1)] th_upd_def schedule_push_def ev_dequeue_def Let_def)
  then have "fpu_mapped (vt_pull e s) q = fpu_mapped s q"
    by (intro fpu_mapped_cong) (simp_all add: vt_pull_eq(2) [OF assms(1)] ev_dequeue_threads)
  moreover have "live (vt_pull e s) q = live s q"
    using vt_pull_eq(2) [OF assms(1)] by (auto simp: live_def ev_dequeue_threads)
  ultimately show ?thesis using assms(2) by (simp add: vt_ready_def)
qed

lemma vt_holds_distinct: "vt_holds e s xs \<Longrightarrow> distinct xs"
  by (auto simp: vt_holds_def ev_queue_def dest: fifo_distinct)

lemma vt_holds_not_null: "vt_holds e s xs \<Longrightarrow> p \<in> set xs \<Longrightarrow> p \<noteq> NULL"
  by (auto simp: vt_holds_def dest: ev_queue_not_null)

lemma vt_holds_empty: "vt_holds e s [] \<Longrightarrow> ev_front s e = NULL"
  by (simp add: vt_holds_def ev_queue_empty)

lemma vt_holds_front: "vt_holds e s (p # xs) \<Longrightarrow> ev_front s e = p"
  using ev_queue_front [of e s p xs] by (simp add: vt_holds_def)

interpretation vtimer: thread_queue "vt_holds e" vt_ready "vt_push e" "\<lambda>s. ev_front s e" "vt_pull e" for e
proof
  show "xs = ys" if "vt_holds e s xs" "vt_holds e s ys" for s :: "'a thread_state_scheme" and xs ys
    using that fifo_unique by (fastforce simp: vt_holds_def ev_queue_def)
  show "vt_ready (vt_push e a s) b"
    if "vt_holds e s xs" "vt_ready s a" "vt_ready s b" "a \<notin> set xs" "b \<notin> set xs" "a \<noteq> b"
    for s :: "'a thread_state_scheme" and xs a b
    by (rule vt_push_ready [OF that(1-3)])
  show "vt_ready (vt_pull e s) b" if "vt_holds e s (x # xs)" "vt_ready s b" "b \<notin> set (x # xs)"
    for s :: "'a thread_state_scheme" and x xs b
    by (rule vt_pull_ready [OF that(1,2)])
qed (auto simp: vt_push_holds vt_pull_holds dest: vt_holds_distinct vt_holds_not_null vt_holds_empty vt_holds_front)

section \<open>Properties\<close>

lemma event_send_records:
  assumes "unat e < 16" and "ev_front s (unat e) = NULL"
  obtains s1 ws where "event_send (- 1) e s = Ok (0, s1)" and "irq_mask_reg s1 = irq_mask_reg s OR push_bit (unat e) 1"
    and "out_log s1 = out_log s @ (if unat e < 8 then (0x21, ucast (irq_mask_reg s1 AND 0xFF)) else (0xA1, ucast (drop_bit 8 (irq_mask_reg s1)))) # ws"
    and "s1 = s\<lparr>irq_mask_reg := irq_mask_reg s1, out_log := out_log s1, irqstate := (irqstate s)(unat e := 1)\<rparr>"
proof -
  let ?m = "irq_mask_reg s OR irq_bit (ucast e)"
  have u: "unat (ucast e :: u8) = unat e" using assms(1) by (simp add: unsigned_ucast_eq take_bit_nat_eq_self)
  have b: "irq_bit (ucast e) = push_bit (unat e) 1"
    unfolding irq_bit_def u by (rule bit_word_eqI) (use assms(1) in \<open>auto simp: bit_simps\<close>)
  have small: "\<not> 31 \<le> (ucast e :: u8)" "7 < (ucast e :: u8) \<longleftrightarrow> \<not> unat e < 8" using assms(1) by (auto simp: word_le_nat_alt word_less_nat_alt u)
  define w where "w = (if unat e < 8 then (0x21, ucast (?m AND 0xFF)) else (0xA1 :: u16, ucast (drop_bit 8 ?m) :: u8))"
  define ws where "ws = (if 8 < (ucast e :: u8) then [(0xA0 :: u16, 0x20 :: u8)] else []) @ [(0x20, 0x20)]"
  have "\<not> 16 < (ucast e :: u8)" using assms(1) by (simp add: word_less_nat_alt u)
  then have "event_send (- 1) e s = Ok (0, s\<lparr>irq_mask_reg := ?m, out_log := out_log s @ w # ws, irqstate := (irqstate s)(unat e := 1)\<rparr>)"
    using assms small by (simp add: event_send_cases irq_mask_def irq_write_mask_def irq_reset_def outb_def w_def ws_def)
  then show thesis by (rule that) (simp_all add: b w_def)
qed

text \<open>Threads that wait for an event one after the other, and events that are sent one after the other.\<close>

primrec event_waits :: "u32 \<Rightarrow> ptr list \<Rightarrow> 'a thread_state_scheme \<Rightarrow> 'a thread_state_scheme outcome" where
  "event_waits e [] s = Ok s"
| "event_waits e (p # ps) s = and_then (event_wait (t_id (threads s p)) e s) (\<lambda>(_, s). event_waits e ps s)"

primrec send_events :: "u32 list \<Rightarrow> 'a thread_state_scheme \<Rightarrow> 'a thread_state_scheme outcome" where
  "send_events [] s = Ok s"
| "send_events (e # es) s = and_then (event_send (- 1) e s) (\<lambda>(_, s). send_events es s)"

lemma timer_waits:
  assumes "vt_holds e s xs" and "distinct (xs @ ps)" and "\<And>p. p \<in> set ps \<Longrightarrow> vt_ready s p"
    and "sched_queue s q" and "\<And>p. p \<in> set xs \<Longrightarrow> t_state (threads s p) = TS_WAITING"
  shows "\<exists>s'. event_waits (of_nat e) ps s = Ok s' \<and> vt_holds e s' (xs @ ps) \<and> sched_queue s' q \<and>
    (\<forall>p \<in> set (xs @ ps). t_state (threads s' p) = TS_WAITING)"
  using assms
proof (induction ps arbitrary: s xs)
  case (Cons p ps)
  let ?s = "vt_push e p s"
  have p: "vt_ready s p" "p \<notin> set xs" using Cons.prems by simp_all
  obtain m f where w: "event_wait (t_id (threads s p)) (of_nat e) s = Ok (0, ?s)"
    and eq: "?s = th_upd p (\<lambda>t. t\<lparr>t_state := TS_WAITING\<rparr>) ((ev_enqueue p (of_nat e) s)\<lparr>pmem := m, fpu := f, active_thread := NULL\<rparr>)"
    using vt_push_eq [OF Cons.prems(1) p(1)] by metis
  have "sched_queue ((ev_enqueue p (of_nat e) s)\<lparr>pmem := m, fpu := f, active_thread := NULL\<rparr>) q"
    using Cons.prems(4) by (simp add: sched_queue_def)
  then have q: "sched_queue ?s q" by (simp add: eq)
  have h: "vt_holds e ?s (xs @ [p])" by (rule vt_push_holds [OF Cons.prems(1) p])
  have "\<exists>s'. event_waits (of_nat e) ps ?s = Ok s' \<and> vt_holds e s' ((xs @ [p]) @ ps) \<and> sched_queue s' q \<and>
      (\<forall>p \<in> set ((xs @ [p]) @ ps). t_state (threads s' p) = TS_WAITING)"
    using Cons.prems by (intro Cons.IH [OF h _ _ q] vt_push_ready [OF Cons.prems(1) p(1)]) (auto simp: eq)
  then show ?case using w by simp
qed auto

lemma timer_sends:
  assumes "vt_holds e s ps" and "sched_queue s q" and "set ps \<inter> set q = {}" and "n \<le> length ps"
  shows "\<exists>s'. send_events (replicate n (of_nat e)) s = Ok s' \<and> vt_holds e s' (drop n ps) \<and> sched_queue s' (q @ take n ps) \<and>
    (\<forall>p \<in> set (take n ps). t_state (threads s' p) = TS_QUEUED \<and> t_eax (threads s' p) = of_nat e) \<and>
    (\<forall>p. p \<notin> set (take n ps) \<longrightarrow> t_state (threads s' p) = t_state (threads s p) \<and> t_eax (threads s' p) = t_eax (threads s p))"
  using assms
proof (induction n arbitrary: s ps q)
  case (Suc n)
  then obtain p xs where ps: "ps = p # xs" by (cases ps) auto
  let ?s = "vt_pull e s"
  have v: "vt_holds e s (p # xs)" using Suc.prems(1) ps by simp
  have p: "p \<noteq> NULL" "p \<notin> set xs" "ev_front s e = p" "e < EV_COUNT"
    using vt_holds_not_null [OF v] vt_holds_distinct [OF v] vt_holds_front [OF v] v by (auto simp: vt_holds_def)
  have eq: "?s = th_upd p (\<lambda>t. t\<lparr>t_state := TS_QUEUED\<rparr>) (schedule_push p (ev_dequeue (of_nat e) s))" by (rule vt_pull_eq(2) [OF v])
  have "sched_queue (ev_dequeue (of_nat e) s) q" using Suc.prems(2) unfolding sched_queue_def ev_dequeue_fields .
  from schedule_push_queue [OF this p(1)] have q: "sched_queue ?s (q @ [p])" using Suc.prems(3) ps by (simp add: eq)
  have one: "t_state (threads ?s p) = TS_QUEUED" "t_eax (threads ?s p) = of_nat e"
    "\<And>x. x \<noteq> p \<Longrightarrow> t_state (threads ?s x) = t_state (threads s x) \<and> t_eax (threads ?s x) = t_eax (threads s x)"
    using p(3,4) by (simp_all add: eq ev_dequeue_threads)
  have "\<exists>s'. send_events (replicate n (of_nat e)) ?s = Ok s' \<and> vt_holds e s' (drop n xs) \<and> sched_queue s' ((q @ [p]) @ take n xs) \<and>
    (\<forall>p \<in> set (take n xs). t_state (threads s' p) = TS_QUEUED \<and> t_eax (threads s' p) = of_nat e) \<and>
    (\<forall>p. p \<notin> set (take n xs) \<longrightarrow> t_state (threads s' p) = t_state (threads ?s p) \<and> t_eax (threads s' p) = t_eax (threads ?s p))"
    by (rule Suc.IH [OF vt_pull_holds [OF v] q]) (use Suc.prems(3,4) p(2) ps in auto)
  then show ?case using vt_pull_eq(1) [OF v] one in_set_takeD [of p n xs] p(2) by (fastforce simp: ps)
qed auto

text \<open>
  C23: Threads that wait for a virtual timer (the events from 240 on, which are never pending) are released first come, first served. When nobody waits for the timer and
  the threads \<open>ps\<close>, which are not in line for the processor and whose FPU data, if any, is mapped, wait for it one after the other, they are all
  waiting, in the queue of the timer; after \<open>n\<close> firings the first \<open>n\<close> of them are at the end of the scheduler's queue, in this order, marked as queued and with the
  event as result, and the others wait on. All the calls succeed.
\<close>

theorem timer_waiters_fifo:
  assumes "240 \<le> e" and "e < EV_COUNT" and "irqstate s e = 0" and "ev_queue e s []" and "sched_queue s q"
    and "distinct ps" and "set ps \<inter> set q = {}" and "\<And>p. p \<in> set ps \<Longrightarrow> live s p \<and> fpu_mapped s p" and "n \<le> length ps"
  shows "\<exists>s1 s2. event_waits (of_nat e) ps s = Ok s1 \<and> ev_queue e s1 ps \<and> (\<forall>p \<in> set ps. t_state (threads s1 p) = TS_WAITING) \<and>
    send_events (replicate n (of_nat e)) s1 = Ok s2 \<and> ev_queue e s2 (drop n ps) \<and> sched_queue s2 (q @ take n ps) \<and>
    (\<forall>p \<in> set (take n ps). t_state (threads s2 p) = TS_QUEUED \<and> t_eax (threads s2 p) = of_nat e) \<and>
    (\<forall>p \<in> set (drop n ps). t_state (threads s2 p) = TS_WAITING)"
proof -
  have "vt_holds e s []" using assms(1-4) by (simp add: vt_holds_def)
  then obtain s1 where s1: "event_waits (of_nat e) ps s = Ok s1" "vt_holds e s1 ps" "sched_queue s1 q" "\<forall>p \<in> set ps. t_state (threads s1 p) = TS_WAITING"
    using timer_waits [of e s "[]" ps q] assms(5,6,8) by (auto simp: vt_ready_def)
  obtain s2 where s2: "send_events (replicate n (of_nat e)) s1 = Ok s2" "vt_holds e s2 (drop n ps)" "sched_queue s2 (q @ take n ps)"
    "\<forall>p \<in> set (take n ps). t_state (threads s2 p) = TS_QUEUED \<and> t_eax (threads s2 p) = of_nat e"
    "\<forall>p. p \<notin> set (take n ps) \<longrightarrow> t_state (threads s2 p) = t_state (threads s1 p)"
    using timer_sends [OF s1(2,3) assms(7,9)] by blast
  have "set (take n ps) \<inter> set (drop n ps) = {}" using assms(6) by (rule set_take_disj_set_drop_if_distinct) simp
  then have "\<forall>p \<in> set (drop n ps). t_state (threads s2 p) = TS_WAITING" using s1(4) s2(5) in_set_dropD by fastforce
  then show ?thesis using s1 s2 by (auto simp: vt_holds_def)
qed

theorem timer_waiters_fifo_witness:
  "\<exists>s1 s2. event_waits 250 [0x4000, 0x1000] demo_threads = Ok s1 \<and> send_events [250] s1 = Ok s2 \<and>
     ev_queue 250 s2 [0x1000] \<and> sched_queue s2 [0x2000, 0x4000]"
proof -
  have "ev_queue 250 demo_threads []" "irqstate demo_threads 250 = 0" "sched_queue demo_threads [0x2000]"
    by (simp add: ev_queue_empty, simp_all add: demo_threads_def sched_queue_def fifo_def zero_thread_def)
  moreover have "live demo_threads p \<and> fpu_mapped demo_threads p" if "p \<in> set [0x4000, 0x1000]" for p
    using that by (auto simp: demo_threads_live fpu_mapped_def) (simp_all add: demo_threads_def)
  ultimately have "\<exists>s1 s2. event_waits (of_nat 250) [0x4000, 0x1000] demo_threads = Ok s1 \<and>
      send_events (replicate (Suc 0) (of_nat 250)) s1 = Ok s2 \<and> ev_queue 250 s2 (drop (Suc 0) [0x4000, 0x1000]) \<and>
      sched_queue s2 ([0x2000] @ take (Suc 0) [0x4000, 0x1000])"
    using timer_waiters_fifo [of 250 demo_threads "[0x2000]" "[0x4000, 0x1000]" "Suc 0"] by fastforce
  then show ?thesis by simp
qed

text \<open>
  C15: An interrupt that arrives before the thread that handles it waits is not lost: it is recorded, its line is masked, in the variable and with a write of the mask to
  the controller of the line, and a thread that then waits for it, with its FPU data, if any, mapped, does not block but goes to the end of the scheduler's queue.
\<close>

theorem interrupt_not_lost:
  assumes "unat e < 16" and "ev_front s (unat e) = NULL" and "thread_get tid s = p" and "p \<noteq> NULL" and "sched_queue s xs" and "p \<notin> set xs"
    and "fpu_mapped s p"
  shows "\<exists>s1 s2 ws. event_send (- 1) e s = Ok (0, s1) \<and> irqstate s1 (unat e) = 1 \<and>
    irq_mask_reg s1 = irq_mask_reg s OR push_bit (unat e) 1 \<and>
    out_log s1 = out_log s @ (if unat e < 8 then (0x21, ucast (irq_mask_reg s1 AND 0xFF)) else (0xA1, ucast (drop_bit 8 (irq_mask_reg s1)))) # ws \<and>
    event_wait tid e s1 = Ok (0, s2) \<and> t_state (threads s2 p) = TS_QUEUED \<and> sched_queue s2 (xs @ [p])"
proof -
  obtain s1 ws where send: "event_send (- 1) e s = Ok (0, s1)" "irq_mask_reg s1 = irq_mask_reg s OR push_bit (unat e) 1"
    "out_log s1 = out_log s @ (if unat e < 8 then (0x21, ucast (irq_mask_reg s1 AND 0xFF)) else (0xA1, ucast (drop_bit 8 (irq_mask_reg s1)))) # ws"
    and "s1 = s\<lparr>irq_mask_reg := irq_mask_reg s1, out_log := out_log s1, irqstate := (irqstate s)(unat e := 1)\<rparr>"
    by (rule event_send_records [OF assms(1,2)])
  then obtain m l where eq: "s1 = s\<lparr>irq_mask_reg := m, out_log := l, irqstate := (irqstate s)(unat e := 1)\<rparr>" by blast
  have "loc s1 = loc s \<and> table_frames s1 = table_frames s" by (rule loc_cong) (simp_all add: eq)
  then have mapped: "fpu_mapped s1 p" using assms(7) fpu_mapped_cong [of s1 p s] by (simp add: eq)
  have got: "thread_get tid s1 = p" using assms(3) by (auto simp: eq thread_get_eq split: if_splits)
  obtain n f where w: "event_wait tid e s1 = Ok (0, th_upd p (\<lambda>t. t\<lparr>t_state := TS_QUEUED\<rparr>)
      (schedule_push p (s1\<lparr>pmem := n, fpu := f, active_thread := NULL\<rparr>)))"
    by (rule event_wait_at_once [OF got assms(4) _ _ mapped, of e]) (use assms(1) in \<open>simp_all add: eq\<close>)
  have "sched_queue (s1\<lparr>pmem := n, fpu := f, active_thread := NULL\<rparr>) xs" using assms(5) by (simp add: sched_queue_def eq)
  from schedule_push_queue [OF this assms(4,6)]
  have "sched_queue (th_upd p (\<lambda>t. t\<lparr>t_state := TS_QUEUED\<rparr>) (schedule_push p (s1\<lparr>pmem := n, fpu := f, active_thread := NULL\<rparr>))) (xs @ [p])"
    by simp
  moreover have "irqstate s1 (unat e) = 1" by (simp add: eq)
  ultimately show ?thesis using w send by (intro exI conjI) (assumption | simp)+
qed

theorem interrupt_not_lost_witness:
  "\<exists>s1 s2. event_send (- 1) 1 demo_threads = Ok (0, s1) \<and> out_log s1 ! 0 = (0x21, 2) \<and>
     event_wait 3 1 s1 = Ok (0, s2) \<and> sched_queue s2 [0x2000, 0x4000]"
proof -
  have "sched_queue demo_threads [0x2000]" by (simp add: sched_queue_def fifo_def demo_threads_def zero_thread_def)
  moreover have "thread_get 3 demo_threads = 0x4000" by (simp add: thread_get_eq demo_threads_def)
  moreover have "fpu_mapped demo_threads 0x4000" "ev_front demo_threads 1 = NULL" "irq_mask_reg demo_threads = 0" "out_log demo_threads = []"
    by (simp_all add: fpu_mapped_def demo_threads_def zero_thread_def)
  ultimately show ?thesis using interrupt_not_lost [of 1 demo_threads 3 "0x4000" "[0x2000]"] by auto
qed

end
