(* ===== verification/Dead.thy ===== *)
theory Dead
  imports Event
begin

text \<open>
  Dead and faulting threads (the last part of \<open>src/kernel/thread.c\<close>). Each of the two services is a
  pair of queues that meet: threads that died and reapers that wait for one, linked through
  \<open>next_dead\<close>, and threads that faulted and debuggers that wait for one, linked through
  \<open>next_fault\<close>. The pointer named \<open>tail\<close> is the end that leaves first.
\<close>

section \<open>Dead threads and reapers\<close>

definition dead_push :: "ptr \<Rightarrow> 'a thread_state_scheme \<Rightarrow> 'a thread_state_scheme" where
  "dead_push thread s =
     (if reaper_tail s \<noteq> NULL then
        (let reaper = reaper_tail s;
             s = s\<lparr>reaper_tail := t_next_dead (threads s (reaper_tail s))\<rparr>;
             s = (if reaper_tail s = NULL then s\<lparr>reaper_head := NULL\<rparr> else s);
             s = th_upd reaper (\<lambda>t. t\<lparr>t_eax := t_id (threads s thread)\<rparr>) s;
             s = schedule_push reaper s
         in th_upd reaper (\<lambda>t. t\<lparr>t_state := TS_QUEUED\<rparr>) s)
      else if dead_head s \<noteq> NULL then
        (let s = th_upd (dead_head s) (\<lambda>t. t\<lparr>t_next_dead := thread\<rparr>) s;
             s = th_upd thread (\<lambda>t. t\<lparr>t_next_dead := NULL\<rparr>) s
         in s\<lparr>dead_head := thread\<rparr>)
      else s\<lparr>dead_head := thread, dead_tail := thread\<rparr>)"

definition dead_peek :: "'a thread_state_scheme \<Rightarrow> ptr" where
  "dead_peek s = dead_tail s"

definition dead_pull :: "'a thread_state_scheme \<Rightarrow> ptr \<times> 'a thread_state_scheme" where
  "dead_pull s =
     (if dead_tail s = NULL then (NULL, s)
      else
        (let dead = dead_tail s;
             s = s\<lparr>dead_tail := t_next_dead (threads s (dead_tail s))\<rparr>
         in (dead, if dead_tail s = NULL then s\<lparr>dead_head := NULL\<rparr> else s)))"

definition dead_wait :: "ptr \<Rightarrow> 'a thread_state_scheme \<Rightarrow> 'a thread_state_scheme" where
  "dead_wait reaper s =
     (if dead_tail s \<noteq> NULL then
        (let (dead, s) = dead_pull s;
             s = th_upd reaper (\<lambda>t. t\<lparr>t_eax := t_id (threads s dead)\<rparr>) s;
             s = schedule_push reaper s
         in th_upd reaper (\<lambda>t. t\<lparr>t_state := TS_QUEUED\<rparr>) s)
      else if reaper_head s \<noteq> NULL then
        (let s = th_upd (reaper_head s) (\<lambda>t. t\<lparr>t_next_dead := reaper\<rparr>) s;
             s = th_upd reaper (\<lambda>t. t\<lparr>t_next_dead := NULL\<rparr>) s
         in s\<lparr>reaper_head := reaper\<rparr>)
      else s\<lparr>reaper_head := reaper, reaper_tail := reaper\<rparr>)"

section \<open>Faulting threads and debuggers\<close>

definition fault_push :: "ptr \<Rightarrow> 'a thread_state_scheme \<Rightarrow> 'a thread_state_scheme" where
  "fault_push fault s =
     (if debug_tail s \<noteq> NULL then
        (let debug = debug_tail s;
             s = s\<lparr>debug_tail := t_next_fault (threads s (debug_tail s))\<rparr>;
             s = (if debug_tail s = NULL then s\<lparr>debug_head := NULL\<rparr> else s);
             s = th_upd debug (\<lambda>t. t\<lparr>t_eax := t_id (threads s fault)\<rparr>) s;
             s = schedule_push debug s
         in th_upd debug (\<lambda>t. t\<lparr>t_state := TS_QUEUED\<rparr>) s)
      else if fault_head s \<noteq> NULL then
        (let s = th_upd (fault_head s) (\<lambda>t. t\<lparr>t_next_fault := fault\<rparr>) s;
             s = th_upd fault (\<lambda>t. t\<lparr>t_next_fault := NULL\<rparr>) s
         in s\<lparr>fault_head := fault\<rparr>)
      else s\<lparr>fault_head := fault, fault_tail := fault\<rparr>)"

definition fault_peek :: "'a thread_state_scheme \<Rightarrow> ptr" where
  "fault_peek s = fault_tail s"

text \<open>The queue advances through \<open>next\<close>, although it is linked through \<open>next_fault\<close>.\<close>

definition fault_pull :: "'a thread_state_scheme \<Rightarrow> ptr \<times> 'a thread_state_scheme" where
  "fault_pull s =
     (if fault_tail s = NULL then (NULL, s)
      else
        (let fault = fault_tail s;
             s = s\<lparr>fault_tail := t_next (threads s (fault_tail s))\<rparr>
         in (fault, if fault_tail s = NULL then s\<lparr>fault_head := NULL\<rparr> else s)))"

definition fault_wait :: "ptr \<Rightarrow> 'a thread_state_scheme \<Rightarrow> 'a thread_state_scheme" where
  "fault_wait debug s =
     (if fault_tail s \<noteq> NULL then
        (let (fault, s) = fault_pull s;
             s = th_upd debug (\<lambda>t. t\<lparr>t_eax := t_id (threads s fault)\<rparr>) s;
             s = schedule_push debug s
         in th_upd debug (\<lambda>t. t\<lparr>t_state := TS_QUEUED\<rparr>) s)
      else if debug_head s \<noteq> NULL then
        (let s = th_upd (debug_head s) (\<lambda>t. t\<lparr>t_next_fault := debug\<rparr>) s;
             s = th_upd debug (\<lambda>t. t\<lparr>t_next_fault := NULL\<rparr>) s
         in s\<lparr>debug_head := debug\<rparr>)
      else s\<lparr>debug_head := debug, debug_tail := debug\<rparr>)"

section \<open>Contents of the queues\<close>

abbreviation dead_next :: "'a thread_state_scheme \<Rightarrow> ptr \<Rightarrow> ptr" where
  "dead_next s \<equiv> \<lambda>p. t_next_dead (threads s p)"

abbreviation fault_next :: "'a thread_state_scheme \<Rightarrow> ptr \<Rightarrow> ptr" where
  "fault_next s \<equiv> \<lambda>p. t_next_fault (threads s p)"

definition dead_queue :: "'a thread_state_scheme \<Rightarrow> ptr list \<Rightarrow> bool" where
  "dead_queue s xs \<longleftrightarrow> fifo (dead_next s) (dead_tail s) (dead_head s) xs"

definition reaper_queue :: "'a thread_state_scheme \<Rightarrow> ptr list \<Rightarrow> bool" where
  "reaper_queue s xs \<longleftrightarrow> fifo (dead_next s) (reaper_tail s) (reaper_head s) xs"

definition fault_queue :: "'a thread_state_scheme \<Rightarrow> ptr list \<Rightarrow> bool" where
  "fault_queue s xs \<longleftrightarrow> fifo (fault_next s) (fault_tail s) (fault_head s) xs"

definition debug_queue :: "'a thread_state_scheme \<Rightarrow> ptr list \<Rightarrow> bool" where
  "debug_queue s xs \<longleftrightarrow> fifo (fault_next s) (debug_tail s) (debug_head s) xs"

lemmas dead_fault_queues = dead_queue_def reaper_queue_def fault_queue_def debug_queue_def

text \<open>The two queues of one service share a link, so only one of them may be in use at a time.\<close>

definition dead_waiting :: "'a thread_state_scheme \<Rightarrow> ptr list \<Rightarrow> bool" where
  "dead_waiting s xs \<longleftrightarrow> dead_queue s xs \<and> reaper_queue s []"

definition reapers_waiting :: "'a thread_state_scheme \<Rightarrow> ptr list \<Rightarrow> bool" where
  "reapers_waiting s xs \<longleftrightarrow> reaper_queue s xs \<and> dead_queue s []"

definition faults_waiting :: "'a thread_state_scheme \<Rightarrow> ptr list \<Rightarrow> bool" where
  "faults_waiting s xs \<longleftrightarrow> fault_queue s xs \<and> debug_queue s []"

definition debuggers_waiting :: "'a thread_state_scheme \<Rightarrow> ptr list \<Rightarrow> bool" where
  "debuggers_waiting s xs \<longleftrightarrow> debug_queue s xs \<and> fault_queue s []"

lemmas waiting_defs = dead_waiting_def reapers_waiting_def faults_waiting_def debuggers_waiting_def

text \<open>
  A thread that enters an empty queue keeps its old link, so that a queue stays well formed only if
  the link was clear.
\<close>

definition dead_clear :: "'a thread_state_scheme \<Rightarrow> ptr \<Rightarrow> bool" where
  "dead_clear s p \<longleftrightarrow> p \<noteq> NULL \<and> t_next_dead (threads s p) = NULL"

definition fault_clear :: "'a thread_state_scheme \<Rightarrow> ptr \<Rightarrow> bool" where
  "fault_clear s p \<longleftrightarrow> p \<noteq> NULL \<and> t_next_fault (threads s p) = NULL"

text \<open>A reaper or debugger that is handed a thread: the number in \<open>eax\<close>, and back to the scheduler.\<close>

definition hand_over :: "ptr \<Rightarrow> u32 \<Rightarrow> 'a thread_state_scheme \<Rightarrow> 'a thread_state_scheme" where
  "hand_over p n s =
     th_upd p (\<lambda>t. t\<lparr>t_state := TS_QUEUED\<rparr>) (schedule_push p (th_upd p (\<lambda>t. t\<lparr>t_eax := n\<rparr>) s))"

lemma hand_over_links [simp]:
  "dead_next (hand_over p n s) = dead_next s" "fault_next (hand_over p n s) = fault_next s"
  "dead_tail (hand_over p n s) = dead_tail s" "dead_head (hand_over p n s) = dead_head s"
  "reaper_tail (hand_over p n s) = reaper_tail s" "reaper_head (hand_over p n s) = reaper_head s"
  "fault_tail (hand_over p n s) = fault_tail s" "fault_head (hand_over p n s) = fault_head s"
  "debug_tail (hand_over p n s) = debug_tail s" "debug_head (hand_over p n s) = debug_head s"
  by (auto simp: hand_over_def fun_eq_iff)

lemma hand_over_record [simp]:
  "t_next_dead (threads (hand_over p n s) q) = t_next_dead (threads s q)"
  "t_next_fault (threads (hand_over p n s) q) = t_next_fault (threads s q)"
  "t_id (threads (hand_over p n s) q) = t_id (threads s q)"
  "t_eax (threads (hand_over p n s) q) = (if q = p then n else t_eax (threads s q))"
  "t_state (threads (hand_over p n s) q) = (if q = p then TS_QUEUED else t_state (threads s q))"
  by (auto simp: hand_over_def)

lemma hand_over_sched:
  assumes "sched_queue s q" and "p \<noteq> NULL" and "p \<notin> set q"
  shows "sched_queue (hand_over p n s) (q @ [p])"
  unfolding hand_over_def using assms by (simp add: schedule_push_queue)

lemma dead_push_reaper:
  "reaper_tail s \<noteq> NULL \<Longrightarrow>
   dead_push d s = hand_over (reaper_tail s) (t_id (threads s d))
     (s\<lparr>reaper_tail := dead_next s (reaper_tail s),
        reaper_head := (if dead_next s (reaper_tail s) = NULL then NULL else reaper_head s)\<rparr>)"
  by (simp add: dead_push_def hand_over_def Let_def)

lemma fault_push_debugger:
  "debug_tail s \<noteq> NULL \<Longrightarrow>
   fault_push f s = hand_over (debug_tail s) (t_id (threads s f))
     (s\<lparr>debug_tail := fault_next s (debug_tail s),
        debug_head := (if fault_next s (debug_tail s) = NULL then NULL else debug_head s)\<rparr>)"
  by (simp add: fault_push_def hand_over_def Let_def)

text \<open>Entering a queue, first of an empty one and then of one with a last thread \<open>t\<close>.\<close>

lemma fifo_enter:
  assumes "fifo nx h t xs" and "a \<noteq> NULL" and "a \<notin> set xs" and "nx a = NULL"
  shows "if t = NULL then fifo nx a a [a] \<and> xs = [] else fifo (nx(t := a, a := NULL)) h a (xs @ [a])"
  using assms fifo_push [of nx h t xs a] fifo_tail_null [of nx h t xs] by auto

lemma dead_push_waiting:
  assumes "dead_waiting s xs" and "dead_clear s a" and "a \<notin> set xs"
  shows "dead_waiting (dead_push a s) (xs @ [a])"
proof (cases "dead_head s = NULL")
  case True
  with assms fifo_enter [of "dead_next s" "dead_tail s" "dead_head s" xs a] show ?thesis
    by (simp add: waiting_defs dead_fault_queues dead_push_def dead_clear_def)
next
  case False
  then have "dead_next (dead_push a s) = (dead_next s)(dead_head s := a, a := NULL)"
    using assms by (auto simp: dead_push_def waiting_defs dead_fault_queues Let_def fun_eq_iff)
  with False assms fifo_enter [of "dead_next s" "dead_tail s" "dead_head s" xs a] show ?thesis
    by (simp add: waiting_defs dead_fault_queues dead_push_def dead_clear_def Let_def)
qed

lemma dead_pull_waiting: "dead_waiting s (x # xs) \<Longrightarrow> dead_waiting (snd (dead_pull s)) xs"
  using fifo_pop [of "dead_next s" "dead_tail s" "dead_head s" x xs] fifo_head_null [of "dead_next s" "dead_tail s" "dead_head s" "x # xs"]
  by (auto simp: waiting_defs dead_fault_queues dead_pull_def Let_def)

lemma dead_wait_waiting:
  assumes "reapers_waiting s xs" and "dead_clear s a" and "a \<notin> set xs"
  shows "reapers_waiting (dead_wait a s) (xs @ [a])"
proof (cases "reaper_head s = NULL")
  case True
  with assms fifo_enter [of "dead_next s" "reaper_tail s" "reaper_head s" xs a] show ?thesis
    by (simp add: waiting_defs dead_fault_queues dead_wait_def dead_clear_def)
next
  case False
  then have "dead_next (dead_wait a s) = (dead_next s)(reaper_head s := a, a := NULL)"
    using assms by (auto simp: dead_wait_def waiting_defs dead_fault_queues Let_def fun_eq_iff)
  with False assms fifo_enter [of "dead_next s" "reaper_tail s" "reaper_head s" xs a] show ?thesis
    by (simp add: waiting_defs dead_fault_queues dead_wait_def dead_clear_def Let_def)
qed

lemma dead_push_releases: "reapers_waiting s (x # xs) \<Longrightarrow> reapers_waiting (dead_push d s) xs"
  using fifo_pop [of "dead_next s" "reaper_tail s" "reaper_head s" x xs]
    fifo_head_null [of "dead_next s" "reaper_tail s" "reaper_head s" "x # xs"]
  by (auto simp: waiting_defs dead_fault_queues dead_push_reaper)

lemma fault_wait_waiting:
  assumes "debuggers_waiting s xs" and "fault_clear s a" and "a \<notin> set xs"
  shows "debuggers_waiting (fault_wait a s) (xs @ [a])"
proof (cases "debug_head s = NULL")
  case True
  with assms fifo_enter [of "fault_next s" "debug_tail s" "debug_head s" xs a] show ?thesis
    by (simp add: waiting_defs dead_fault_queues fault_wait_def fault_clear_def)
next
  case False
  then have "fault_next (fault_wait a s) = (fault_next s)(debug_head s := a, a := NULL)"
    using assms by (auto simp: fault_wait_def waiting_defs dead_fault_queues Let_def fun_eq_iff)
  with False assms fifo_enter [of "fault_next s" "debug_tail s" "debug_head s" xs a] show ?thesis
    by (simp add: waiting_defs dead_fault_queues fault_wait_def fault_clear_def Let_def)
qed

lemma fault_push_releases: "debuggers_waiting s (x # xs) \<Longrightarrow> debuggers_waiting (fault_push d s) xs"
  using fifo_pop [of "fault_next s" "debug_tail s" "debug_head s" x xs]
    fifo_head_null [of "fault_next s" "debug_tail s" "debug_head s" "x # xs"]
  by (auto simp: waiting_defs dead_fault_queues fault_push_debugger)

lemma fault_push_waiting:
  assumes "faults_waiting s xs" and "fault_clear s a" and "a \<notin> set xs"
  shows "faults_waiting (fault_push a s) (xs @ [a])"
proof (cases "fault_head s = NULL")
  case True
  with assms fifo_enter [of "fault_next s" "fault_tail s" "fault_head s" xs a] show ?thesis
    by (simp add: waiting_defs dead_fault_queues fault_push_def fault_clear_def)
next
  case False
  then have "fault_next (fault_push a s) = (fault_next s)(fault_head s := a, a := NULL)"
    using assms by (auto simp: fault_push_def waiting_defs dead_fault_queues Let_def fun_eq_iff)
  with False assms fifo_enter [of "fault_next s" "fault_tail s" "fault_head s" xs a] show ?thesis
    by (simp add: waiting_defs dead_fault_queues fault_push_def fault_clear_def Let_def)
qed

section \<open>Interpretations of the contract\<close>

lemma waiting_unique:
  "dead_waiting s xs \<Longrightarrow> dead_waiting s ys \<Longrightarrow> xs = ys"
  "reapers_waiting s xs \<Longrightarrow> reapers_waiting s ys \<Longrightarrow> xs = ys"
  "debuggers_waiting s xs \<Longrightarrow> debuggers_waiting s ys \<Longrightarrow> xs = ys"
  by (auto simp: waiting_defs dead_fault_queues dest: fifo_unique)

lemma waiting_distinct:
  "dead_waiting s xs \<Longrightarrow> distinct xs" "reapers_waiting s xs \<Longrightarrow> distinct xs" "debuggers_waiting s xs \<Longrightarrow> distinct xs"
  by (auto simp: waiting_defs dead_fault_queues dest: fifo_distinct)

lemma waiting_not_null:
  "dead_waiting s xs \<Longrightarrow> p \<in> set xs \<Longrightarrow> p \<noteq> NULL" "reapers_waiting s xs \<Longrightarrow> p \<in> set xs \<Longrightarrow> p \<noteq> NULL"
  "debuggers_waiting s xs \<Longrightarrow> p \<in> set xs \<Longrightarrow> p \<noteq> NULL"
  by (auto simp: waiting_defs dead_fault_queues fifo_def dest: chain_in_not_null)

lemma waiting_front:
  "dead_waiting s [] \<Longrightarrow> dead_peek s = NULL" "dead_waiting s (x # xs) \<Longrightarrow> dead_peek s = x"
  "reapers_waiting s [] \<Longrightarrow> reaper_tail s = NULL" "reapers_waiting s (x # xs) \<Longrightarrow> reaper_tail s = x"
  "debuggers_waiting s [] \<Longrightarrow> debug_tail s = NULL" "debuggers_waiting s (x # xs) \<Longrightarrow> debug_tail s = x"
  by (auto simp: waiting_defs dead_fault_queues dead_peek_def fifo_def)

lemma last_waiting:
  "dead_waiting s xs \<Longrightarrow> dead_head s \<noteq> NULL \<Longrightarrow> dead_head s \<in> set xs"
  "reapers_waiting s xs \<Longrightarrow> reaper_head s \<noteq> NULL \<Longrightarrow> reaper_head s \<in> set xs"
  "debuggers_waiting s xs \<Longrightarrow> debug_head s \<noteq> NULL \<Longrightarrow> debug_head s \<in> set xs"
  by (auto simp: waiting_defs dead_fault_queues fifo_def split: if_splits)

interpretation dead: thread_queue dead_waiting dead_clear dead_push dead_peek "\<lambda>s. snd (dead_pull s)"
proof
  show "dead_clear (dead_push a s) b"
    if "dead_waiting s xs" "dead_clear s a" "dead_clear s b" "a \<notin> set xs" "b \<notin> set xs" "a \<noteq> b"
    for s :: "'a thread_state_scheme" and xs a b
    using that last_waiting(1) [of s xs] by (auto simp: dead_push_def dead_clear_def waiting_defs dead_fault_queues Let_def)
  show "dead_clear (snd (dead_pull s)) b" if "dead_clear s b" for s :: "'a thread_state_scheme" and b
    using that by (simp add: dead_pull_def dead_clear_def Let_def)
qed (auto simp: dead_push_waiting dead_pull_waiting waiting_front waiting_distinct
       dest: waiting_unique waiting_not_null)

interpretation reapers: thread_queue reapers_waiting dead_clear dead_wait reaper_tail "dead_push d" for d
proof
  show "dead_clear (dead_wait a s) b"
    if "reapers_waiting s xs" "dead_clear s a" "dead_clear s b" "a \<notin> set xs" "b \<notin> set xs" "a \<noteq> b"
    for s :: "'a thread_state_scheme" and xs a b
    using that last_waiting(2) [of s xs] by (auto simp: dead_wait_def dead_clear_def waiting_defs dead_fault_queues Let_def)
  show "dead_clear (dead_push d s) b" if "reapers_waiting s (x # xs)" "dead_clear s b" "b \<notin> set (x # xs)"
    for s :: "'a thread_state_scheme" and x xs b
    using that waiting_front(4) [of s x xs] waiting_not_null(2) [of s "x # xs" x]
    by (simp add: dead_push_reaper dead_clear_def)
qed (auto simp: dead_wait_waiting dead_push_releases waiting_front waiting_distinct
       dest: waiting_unique waiting_not_null)

interpretation debuggers: thread_queue debuggers_waiting fault_clear fault_wait debug_tail "fault_push d" for d
proof
  show "fault_clear (fault_wait a s) b"
    if "debuggers_waiting s xs" "fault_clear s a" "fault_clear s b" "a \<notin> set xs" "b \<notin> set xs" "a \<noteq> b"
    for s :: "'a thread_state_scheme" and xs a b
    using that last_waiting(3) [of s xs] by (auto simp: fault_wait_def fault_clear_def waiting_defs dead_fault_queues Let_def)
  show "fault_clear (fault_push d s) b" if "debuggers_waiting s (x # xs)" "fault_clear s b" "b \<notin> set (x # xs)"
    for s :: "'a thread_state_scheme" and x xs b
    using that waiting_front(6) [of s x xs] waiting_not_null(3) [of s "x # xs" x]
    by (simp add: fault_push_debugger fault_clear_def)
qed (auto simp: fault_wait_waiting fault_push_releases waiting_front waiting_distinct
       dest: waiting_unique waiting_not_null)

section \<open>Properties\<close>

lemma deaths_served:
  assumes "reapers_waiting s rs" and "sched_queue s q" and "set q \<inter> set rs = {}" and "length ds \<le> length rs"
  defines "n \<equiv> length ds" and "s' \<equiv> fold dead_push ds s"
  shows "reapers_waiting s' (drop n rs) \<and> sched_queue s' (q @ take n rs) \<and>
    (\<forall>k < n. t_eax (threads s' (rs ! k)) = t_id (threads s (ds ! k)) \<and> t_state (threads s' (rs ! k)) = TS_QUEUED) \<and>
    (\<forall>p. t_id (threads s' p) = t_id (threads s p)) \<and>
    (\<forall>p. p \<notin> set rs \<longrightarrow> t_eax (threads s' p) = t_eax (threads s p) \<and> t_state (threads s' p) = t_state (threads s p))"
  using assms(1-4) unfolding n_def s'_def
proof (induction ds arbitrary: s rs q)
  case (Cons d ds)
  then obtain r rs' where rs: "rs = r # rs'" by (cases rs) auto
  let ?s = "dead_push d s"
  have r: "reaper_tail s = r" "r \<noteq> NULL" using waiting_front(4) [of s r rs'] waiting_not_null(2) [OF Cons.prems(1), of r] Cons.prems(1) by (simp_all add: rs)
  have push: "?s = hand_over r (t_id (threads s d)) (s\<lparr>reaper_tail := dead_next s r,
      reaper_head := (if dead_next s r = NULL then NULL else reaper_head s)\<rparr>)"
    using dead_push_reaper [of s d] r by simp
  have d: "r \<notin> set rs'" using waiting_distinct(2) [OF Cons.prems(1)] by (simp add: rs)
  have w: "reapers_waiting ?s rs'" using dead_push_releases Cons.prems(1) by (simp add: rs)
  have "sched_queue (s\<lparr>reaper_tail := dead_next s r, reaper_head := (if dead_next s r = NULL then NULL else reaper_head s)\<rparr>) q"
    using Cons.prems(2) by (simp add: sched_queue_def)
  then have q: "sched_queue ?s (q @ [r])" unfolding push using r(2) Cons.prems(3) rs by (intro hand_over_sched) auto
  have ids: "t_id (threads ?s p) = t_id (threads s p)" for p by (simp add: push)
  have rest: "p \<noteq> r \<Longrightarrow> t_eax (threads ?s p) = t_eax (threads s p) \<and> t_state (threads ?s p) = t_state (threads s p)" for p
    by (simp add: push)
  have rr: "t_eax (threads ?s r) = t_id (threads s d)" "t_state (threads ?s r) = TS_QUEUED" by (simp_all add: push)
  have IH: "reapers_waiting (fold dead_push ds ?s) (drop (length ds) rs') \<and> sched_queue (fold dead_push ds ?s) ((q @ [r]) @ take (length ds) rs') \<and>
    (\<forall>k < length ds. t_eax (threads (fold dead_push ds ?s) (rs' ! k)) = t_id (threads ?s (ds ! k)) \<and> t_state (threads (fold dead_push ds ?s) (rs' ! k)) = TS_QUEUED) \<and>
    (\<forall>p. t_id (threads (fold dead_push ds ?s) p) = t_id (threads ?s p)) \<and>
    (\<forall>p. p \<notin> set rs' \<longrightarrow> t_eax (threads (fold dead_push ds ?s) p) = t_eax (threads ?s p) \<and> t_state (threads (fold dead_push ds ?s) p) = t_state (threads ?s p))"
    by (rule Cons.IH [OF w q]) (use Cons.prems(3,4) rs d in auto)
  show ?case
    using IH d rest rr ids by (auto simp: rs nth_Cons split: nat.split)
qed simp

lemma dead_wait_keeps:
  assumes "dead_tail s = NULL"
  shows "dead_tail (dead_wait r s) = NULL" and "sched_queue (dead_wait r s) q = sched_queue s q"
    and "t_id (threads (dead_wait r s) p) = t_id (threads s p)"
proof -
  have "next_of (dead_wait r s) = next_of s" using assms by (auto simp: dead_wait_def Let_def fun_eq_iff)
  then show "sched_queue (dead_wait r s) q = sched_queue s q"
    using assms by (simp add: sched_queue_def) (simp add: dead_wait_def Let_def)
qed (use assms in \<open>simp_all add: dead_wait_def Let_def\<close>)

lemma dead_waits_keep:
  "dead_tail s = NULL \<Longrightarrow> sched_queue (fold dead_wait rs s) q = sched_queue s q \<and> t_id (threads (fold dead_wait rs s) p) = t_id (threads s p)"
  by (induction rs arbitrary: s) (simp_all add: dead_wait_keeps)

text \<open>
  C24: Reapers that wait are served in the order of their arrival, each with the next thread that dies, if nobody waited before, no dead thread is kept and the link
  \<open>next_dead\<close> of every reaper is clear when it begins to wait, as it is in a thread that has never been in one of the two queues (the code does not clear it
  for the first one that enters). After at most as many deaths as there are reapers, the first
  reapers are at the end of the scheduler's queue, in this order, marked as queued and with the numbers of the dead threads as results, and the others wait on.
\<close>

theorem reapers_served_in_order:
  assumes "reapers_waiting s []" and "distinct rs" and "\<And>r. r \<in> set rs \<Longrightarrow> dead_clear s r"
    and "sched_queue s q" and "set q \<inter> set rs = {}" and "length ds \<le> length rs"
  shows "let s' = fold dead_push ds (fold dead_wait rs s) in reapers_waiting s' (drop (length ds) rs) \<and>
    sched_queue s' (q @ take (length ds) rs) \<and>
    (\<forall>k < length ds. t_eax (threads s' (rs ! k)) = t_id (threads s (ds ! k)) \<and> t_state (threads s' (rs ! k)) = TS_QUEUED)"
proof -
  have w: "reapers_waiting (fold dead_wait rs s) rs"
    using reapers.run_contents [of s "[]" "map Push rs"] assms(1-3) by (simp add: reapers.run_pushes)
  have "dead_tail s = NULL" using assms(1) by (simp add: waiting_defs dead_fault_queues)
  note keep = dead_waits_keep [OF this, of rs]
  show ?thesis
    using deaths_served [OF w _ assms(5,6)] assms(4) keep by (simp add: Let_def)
qed

theorem reapers_served_in_order_witness:
  "let s' = fold dead_push [0x1000] (fold dead_wait [0x4000, 0x3000] demo_threads) in
     reapers_waiting s' [0x3000] \<and> sched_queue s' [0x2000, 0x4000] \<and> t_eax (threads s' 0x4000) = 0"
proof -
  have "reapers_waiting demo_threads []" "sched_queue demo_threads [0x2000]" "dead_clear demo_threads 0x4000" "dead_clear demo_threads 0x3000"
    by (simp_all add: waiting_defs dead_fault_queues sched_queue_def dead_clear_def demo_threads_def zero_thread_def)
  moreover have "t_id (threads demo_threads 0x1000) = 0" by (simp add: demo_threads_def)
  ultimately show ?thesis
    using reapers_served_in_order [of demo_threads "[0x4000, 0x3000]" "[0x2000]" "[0x1000]"] by (auto simp: Let_def)
qed

primrec dead_pulls :: "nat \<Rightarrow> 'a thread_state_scheme \<Rightarrow> ptr list \<times> 'a thread_state_scheme" where
  "dead_pulls 0 s = ([], s)"
| "dead_pulls (Suc n) s = (let (d, s) = dead_pull s; (ds, s) = dead_pulls n s in (d # ds, s))"

lemma dead_pulls_contents:
  "dead_waiting s xs \<Longrightarrow> fst (dead_pulls (length xs) s) = xs \<and> dead_waiting (snd (dead_pulls (length xs) s)) []"
proof (induction xs arbitrary: s)
  case (Cons x xs)
  have "dead_tail s = x" "x \<noteq> NULL" using Cons.prems waiting_not_null(1) [OF Cons.prems, of x] by (simp_all add: waiting_defs dead_fault_queues fifo_def)
  then have "fst (dead_pull s) = x" by (simp add: dead_pull_def Let_def)
  moreover have "dead_waiting (snd (dead_pull s)) xs" using Cons.prems by (rule dead.pull_first)
  ultimately show ?case using Cons.IH by (simp add: split_def Let_def)
qed simp

text \<open>
  C25: When no reaper waits and no dead thread is kept, threads that die one after the other are kept, if the link \<open>next_dead\<close> of each of them is clear when it dies, as it is in a
  thread that has never been in the queue of dead threads or of reapers; \<open>dead_pull\<close> then returns them in the order in which they died, and the queue is empty afterwards.
\<close>

theorem dead_kept_in_order:
  assumes "dead_waiting s []" and "distinct ds" and "\<And>d. d \<in> set ds \<Longrightarrow> dead_clear s d"
  shows "fst (dead_pulls (length ds) (fold dead_push ds s)) = ds \<and> dead_waiting (snd (dead_pulls (length ds) (fold dead_push ds s))) []"
proof -
  have "dead_waiting (fold dead_push ds s) ds"
    using dead.run_contents [of s "[]" "map Push ds"] assms by (simp add: dead.run_pushes)
  then show ?thesis by (rule dead_pulls_contents)
qed

theorem dead_kept_in_order_witness:
  "fst (dead_pulls (Suc (Suc 0)) (fold dead_push [0x4000, 0x3000] demo_threads)) = [0x4000, 0x3000]"
proof -
  have "dead_waiting demo_threads []" "dead_clear demo_threads 0x4000" "dead_clear demo_threads 0x3000"
    by (simp_all add: waiting_defs dead_fault_queues dead_clear_def demo_threads_def zero_thread_def)
  then show ?thesis using dead_kept_in_order [of demo_threads "[0x4000, 0x3000]"] by auto
qed

end
