(* ===== verification/Fault.thy ===== *)
theory Fault
  imports Dead
begin

text \<open>The handlers of processor exceptions (\<open>src/kernel/fault.c\<close>).\<close>

abbreviation (input) FV_PAGE :: u8 where "FV_PAGE \<equiv> 1"
abbreviation (input) FV_ACCS :: u8 where "FV_ACCS \<equiv> 2"

text \<open>The test of the privilege level is the opposite of the one in \<open>fault_page\<close>.\<close>

definition fault_generic :: "ptr \<Rightarrow> 'a thread_state_scheme \<Rightarrow> 'a thread_state_scheme outcome" where
  "fault_generic img s =
     and_then
       (if t_cs (threads s img) AND 0x3 \<noteq> 0 then
          and_then (debug_printf (''EIP:%x NUM:%d ERR:%x'' @ [newline])
              [VInt (t_eip (threads s img)), VInt (t_num (threads s img)), VInt (t_err (threads s img))] s)
            (debug_panic ''unknown exception'')
        else Ok s)
       (\<lambda>s. and_then (thread_save img s) (\<lambda>s.
          let s = th_upd img (\<lambda>t. t\<lparr>t_state := TS_PAUSED\<rparr>) s;
              s = th_upd img (\<lambda>t. t\<lparr>t_fault := FV_ACCS\<rparr>) s
          in Ok (fault_push img s)))"

definition fault_page :: "ptr \<Rightarrow> 'a thread_state_scheme \<Rightarrow> 'a thread_state_scheme outcome" where
  "fault_page img s =
     (let addr = cpu_get_cr2 s
      in and_then
           (if t_cs (threads s img) AND 0x3 = 0 then
              and_then (page_get addr s) (\<lambda>e.
                and_then (debug_printf (''page fault at %x, ip = %x, frame %x, esp = %x'' @ [newline])
                    [VInt addr, VInt (t_eip (threads s img)), VInt e, VInt (t_esp (threads s img))] s)
                  (debug_panic ''page fault exception''))
            else Ok s)
           (\<lambda>s. and_then (thread_save img s) (\<lambda>s.
              let s = th_upd img (\<lambda>t. t\<lparr>t_fault_addr := addr\<rparr>) s;
                  s = th_upd img (\<lambda>t. t\<lparr>t_fault := FV_PAGE\<rparr>) s;
                  s = th_upd img (\<lambda>t. t\<lparr>t_state := TS_PAUSED\<rparr>) s
              in Ok (fault_push img s))))"

definition fault_double :: "ptr \<Rightarrow> 'a thread_state_scheme \<Rightarrow> 'a thread_state_scheme outcome" where
  "fault_double img s =
     and_then (debug_printf (''DS:%x CS:%x'' @ [newline])
         [VInt (t_ds (threads s img)), VInt (t_cs (threads s img))] s)
       (debug_panic ''double fault exception'')"

end
