(* ===== verification/Kcall.thy ===== *)
theory Kcall
  imports Fault
begin

text \<open>
  Kernel calls (\<open>src/kernel/kcall.c\<close>): one definition for each case of the switch on \<open>eax\<close>, and the
  dispatch. \<open>img\<close> is the calling thread. Structures in the memory of the caller are read and written
  field by field through the translation of the machine, at any alignment; the kernel does not
  check the pointers.
\<close>

abbreviation (input) TE_STATE :: u32 where "TE_STATE \<equiv> 1"
abbreviation (input) TE_EXIST :: u32 where "TE_EXIST \<equiv> 2"

definition set_eax :: "ptr \<Rightarrow> u32 \<Rightarrow> 'a thread_state_scheme \<Rightarrow> 'a thread_state_scheme" where
  "set_eax img v s = th_upd img (\<lambda>t. t\<lparr>t_eax := v\<rparr>) s"

section \<open>The information structure\<close>

text \<open>
  Offsets of the members of \<open>struct t_info\<close> (packed), of which \<open>regs\<close> starts at 36: the registers of
  the thread, and from 76 on 512 bytes of FPU data.
\<close>

abbreviation (input) off_id :: u32 where "off_id \<equiv> 0"
abbreviation (input) off_pctx :: u32 where "off_pctx \<equiv> 4"
abbreviation (input) off_state :: u32 where "off_state \<equiv> 8"
abbreviation (input) off_flags :: u32 where "off_flags \<equiv> 9"
abbreviation (input) off_event :: u32 where "off_event \<equiv> 10"
abbreviation (input) off_fault :: u32 where "off_fault \<equiv> 11"
abbreviation (input) off_fault_addr :: u32 where "off_fault_addr \<equiv> 12"
abbreviation (input) off_usr_ip :: u32 where "off_usr_ip \<equiv> 28"
abbreviation (input) off_usr_sp :: u32 where "off_usr_sp \<equiv> 32"
abbreviation (input) off_edi :: u32 where "off_edi \<equiv> 36"
abbreviation (input) off_esi :: u32 where "off_esi \<equiv> 40"
abbreviation (input) off_ebp :: u32 where "off_ebp \<equiv> 44"
abbreviation (input) off_esp :: u32 where "off_esp \<equiv> 48"
abbreviation (input) off_ebx :: u32 where "off_ebx \<equiv> 52"
abbreviation (input) off_edx :: u32 where "off_edx \<equiv> 56"
abbreviation (input) off_ecx :: u32 where "off_ecx \<equiv> 60"
abbreviation (input) off_eax :: u32 where "off_eax \<equiv> 64"
abbreviation (input) off_eip :: u32 where "off_eip \<equiv> 68"
abbreviation (input) off_eflags :: u32 where "off_eflags \<equiv> 72"
abbreviation (input) off_fxdata :: u32 where "off_fxdata \<equiv> 76"

text \<open>The stores of a sequence of words, each at its address.\<close>

primrec store_words :: "(u32 \<times> u32) list \<Rightarrow> 'a machine_scheme \<Rightarrow> 'a machine_scheme outcome" where
  "store_words [] s = Ok s"
| "store_words (w # ws) s = and_then (store32 (fst w) (snd w) s) (store_words ws)"

definition save_info :: "ptr \<Rightarrow> ptr \<Rightarrow> 'a thread_state_scheme \<Rightarrow> 'a thread_state_scheme outcome" where
  "save_info dest src s =
     (let t = threads s src
      in and_then (store_words [(dest + off_id, t_id t), (dest + off_pctx, t_pctx t)] s) (\<lambda>s.
         and_then (vwrite8 (dest + off_state) (ucast (t_state t)) s) (\<lambda>s.
         and_then (vwrite8 (dest + off_event) (ucast (t_event t)) s) (\<lambda>s.
         and_then (vwrite8 (dest + off_flags) (t_flags t) s) (\<lambda>s.
         and_then (vwrite8 (dest + off_fault) (t_fault t) s) (\<lambda>s.
         and_then (store32 (dest + off_fault_addr) (t_fault_addr t) s) (\<lambda>s.
         and_then
           (if t_state t \<noteq> TS_RUNNING then
              and_then (store_words
                [(dest + off_edi, t_edi t), (dest + off_esi, t_esi t), (dest + off_ebp, t_ebp t),
                 (dest + off_esp, t_useresp t), (dest + off_ebx, t_ebx t), (dest + off_edx, t_edx t),
                 (dest + off_ecx, t_ecx t), (dest + off_eax, t_eax t), (dest + off_eip, t_eip t),
                 (dest + off_eflags, t_eflags t)] s) (\<lambda>s.
                if t_fxdata t \<noteq> NULL then memcpy (dest + off_fxdata) (t_fxdata t) 512 s else Ok s)
            else Ok s) (\<lambda>s.
         store_words [(dest + off_usr_ip, t_usr_eip t), (dest + off_usr_sp, t_usr_esp t)] s))))))))"

section \<open>Threads\<close>

text \<open>A call from user mode is a system call: the thread enters its system layer.\<close>

definition user_syscall :: "ptr \<Rightarrow> 'a thread_state_scheme \<Rightarrow> 'a thread_state_scheme" where
  "user_syscall img s =
     th_upd img (\<lambda>t. t\<lparr>t_usr_eip := t_eip t, t_usr_esp := t_useresp t, t_ss := 0x21, t_ds := 0x21, t_cs := 0x19,
       t_flags := t_flags t AND NOT TF_USER, t_eip := t_sys_eip t, t_useresp := t_sys_esp t\<rparr>) s"

definition kcall_spawn :: "ptr \<Rightarrow> 'a thread_state_scheme \<Rightarrow> 'a thread_state_scheme outcome" where
  "kcall_spawn img s =
     and_then (thread_new s) (\<lambda>(tid, s).
       if tid = - 1 then Ok (set_eax img (- 1) s)
       else
         (let thread = thread_get tid s; state = t_ebx (threads s img)
          in and_then (load32 (state + off_esp) s) (\<lambda>v_esp.
             and_then (load32 (state + off_eip) s) (\<lambda>v_eip.
             and_then (load32 (state + off_ebp) s) (\<lambda>v_ebp.
             and_then (load32 (state + off_esi) s) (\<lambda>v_esi.
             and_then (load32 (state + off_edi) s) (\<lambda>v_edi.
             and_then (load32 (state + off_edx) s) (\<lambda>v_edx.
             and_then (load32 (state + off_ecx) s) (\<lambda>v_ecx.
             and_then (load32 (state + off_ebx) s) (\<lambda>v_ebx.
             and_then (load32 (state + off_eax) s) (\<lambda>v_eax.
               let s = th_upd thread (\<lambda>t. t\<lparr>t_useresp := v_esp, t_esp := thread + off_num, t_ss := 0x21,
                     t_ds := 0x21, t_cs := 0x19, t_eflags := t_eflags (threads s img), t_eip := v_eip,
                     t_ebp := v_ebp, t_esi := v_esi, t_edi := v_edi, t_edx := v_edx, t_ecx := v_ecx,
                     t_ebx := v_ebx, t_eax := v_eax, t_state := TS_QUEUED\<rparr>) s;
                   s = schedule_push thread s
               in Ok (set_eax img tid s))))))))))))"

text \<open>The result of \<open>thread_get\<close> is not checked here.\<close>

definition kcall_reap :: "ptr \<Rightarrow> 'a thread_state_scheme \<Rightarrow> 'a thread_state_scheme outcome" where
  "kcall_reap img s =
     (let target = thread_get (t_ebx (threads s img)) s
      in if target = NULL then Stop NullDeref
         else if t_state (threads s target) \<noteq> TS_PAUSED then Ok (set_eax img TE_STATE s)
         else
           and_then (if t_ecx (threads s img) \<noteq> NULL then save_info (t_ecx (threads s img)) target s else Ok s)
             (\<lambda>s. thread_kill target (set_eax img 0 s)))"

definition kcall_gettid :: "ptr \<Rightarrow> 'a thread_state_scheme \<Rightarrow> 'a thread_state_scheme" where
  "kcall_gettid img s = set_eax img (t_id (threads s img)) s"

definition kcall_yield :: "ptr \<Rightarrow> 'a thread_state_scheme \<Rightarrow> 'a thread_state_scheme outcome" where
  "kcall_yield img s =
     and_then (thread_save img s) (\<lambda>s.
       Ok (th_upd img (\<lambda>t. t\<lparr>t_state := TS_QUEUED\<rparr>) (schedule_push img s)))"

text \<open>\<open>thread_get(image->ebx)\<close>, where -1 names the caller.\<close>

definition kcall_target :: "ptr \<Rightarrow> 'a thread_state_scheme \<Rightarrow> ptr" where
  "kcall_target img s =
     (if t_ebx (threads s img) = - 1 then img else thread_get (t_ebx (threads s img)) s)"

definition kcall_pause :: "ptr \<Rightarrow> 'a thread_state_scheme \<Rightarrow> 'a thread_state_scheme outcome" where
  "kcall_pause img s =
     (let target = kcall_target img s
      in if target = NULL then Ok (set_eax img TE_EXIST s)
         else if t_state (threads s target) = TS_RUNNING then
           and_then (thread_save target s) (\<lambda>s.
             Ok (set_eax img 0 (th_upd target (\<lambda>t. t\<lparr>t_state := TS_PAUSED\<rparr>) s)))
         else if t_state (threads s target) = TS_QUEUED then
           and_then (schedule_remv target s) (\<lambda>(_, s).
             Ok (set_eax img 0 (th_upd target (\<lambda>t. t\<lparr>t_state := TS_PAUSED\<rparr>) s)))
         else if t_state (threads s target) = TS_WAITING then
           and_then (event_remv (t_id (threads s target)) (t_event (threads s target)) s) (\<lambda>(_, s).
             Ok (set_eax img 0 (th_upd target (\<lambda>t. t\<lparr>t_state := TS_PAUSEDW\<rparr>) s)))
         else Ok (set_eax img TE_STATE s))"

definition kcall_resume :: "ptr \<Rightarrow> 'a thread_state_scheme \<Rightarrow> 'a thread_state_scheme outcome" where
  "kcall_resume img s =
     (let target = thread_get (t_ebx (threads s img)) s
      in if target = NULL then Ok (set_eax img TE_EXIST s)
         else if t_state (threads s target) = TS_PAUSED then
           Ok (set_eax img 0 (th_upd target (\<lambda>t. t\<lparr>t_state := TS_QUEUED\<rparr>) (schedule_push target s)))
         else if t_state (threads s target) = TS_PAUSEDW then
           and_then (event_wait (t_id (threads s target)) (t_event (threads s target)) s) (\<lambda>(_, s).
             Ok (set_eax img 0 (th_upd target (\<lambda>t. t\<lparr>t_state := TS_WAITING\<rparr>) s)))
         else Ok (set_eax img TE_STATE s))"

definition kcall_getstate :: "ptr \<Rightarrow> 'a thread_state_scheme \<Rightarrow> 'a thread_state_scheme outcome" where
  "kcall_getstate img s =
     (let target = kcall_target img s
      in if target = NULL then Ok (set_eax img TE_EXIST s)
         else if t_state (threads s target) \<noteq> TS_PAUSED \<and> t_state (threads s target) \<noteq> TS_PAUSEDW \<and> target \<noteq> img
         then Ok (set_eax img TE_STATE s)
         else and_then (save_info (t_ecx (threads s img)) target s) (\<lambda>s. Ok (set_eax img 0 s)))"

text \<open>The registers and the FPU data that a thread which is not running gets from the structure at \<open>src\<close>.\<close>

definition set_registers :: "ptr \<Rightarrow> ptr \<Rightarrow> 'a thread_state_scheme \<Rightarrow> 'a thread_state_scheme outcome" where
  "set_registers target src s =
     and_then (load32 (src + off_edi) s) (\<lambda>v_edi.
     and_then (load32 (src + off_esi) s) (\<lambda>v_esi.
     and_then (load32 (src + off_ebp) s) (\<lambda>v_ebp.
     and_then (load32 (src + off_esp) s) (\<lambda>v_esp.
     and_then (load32 (src + off_ebx) s) (\<lambda>v_ebx.
     and_then (load32 (src + off_edx) s) (\<lambda>v_edx.
     and_then (load32 (src + off_ecx) s) (\<lambda>v_ecx.
     and_then (load32 (src + off_eax) s) (\<lambda>v_eax.
     and_then (load32 (src + off_eip) s) (\<lambda>v_eip.
     and_then (load32 (src + off_eflags) s) (\<lambda>v_eflags.
       let s = th_upd target (\<lambda>t. t\<lparr>t_edi := v_edi, t_esi := v_esi, t_ebp := v_ebp, t_useresp := v_esp,
             t_ebx := v_ebx, t_edx := v_edx, t_ecx := v_ecx, t_eax := v_eax, t_eip := v_eip,
             t_eflags := v_eflags\<rparr>) s
       in and_then
            (if t_fxdata (threads s target) = NULL
             then and_then (heap_alloc 512 s) (\<lambda>(p, s). Ok (th_upd target (\<lambda>t. t\<lparr>t_fxdata := p\<rparr>) s))
             else Ok s) (\<lambda>s.
            memcpy (t_fxdata (threads s target)) (src + off_fxdata) 512 s)))))))))))"

text \<open>A thread that is declared dead stops, and is reported to a reaper.\<close>

definition set_dead :: "ptr \<Rightarrow> ptr \<Rightarrow> 'a thread_state_scheme \<Rightarrow> 'a thread_state_scheme outcome" where
  "set_dead target src s =
     and_then (vread8 (src + off_flags) s) (\<lambda>flags.
       if flags AND TF_DEAD \<noteq> 0 then
         and_then
           (if t_state (threads s target) = TS_RUNNING
            then and_then (thread_save target s) (\<lambda>s. Ok (th_upd target (\<lambda>t. t\<lparr>t_state := TS_PAUSED\<rparr>) s))
            else Ok s)
           (\<lambda>s. Ok (dead_push target s))
       else Ok s)"

definition set_info :: "ptr \<Rightarrow> ptr \<Rightarrow> 'a thread_state_scheme \<Rightarrow> 'a thread_state_scheme outcome" where
  "set_info target src s =
     and_then (load32 (src + off_pctx) s) (\<lambda>pctx.
     let s = (if t_pctx (threads s target) \<noteq> pctx then snd (pctx_load pctx s) else s)
     in and_then (load32 (src + off_pctx) s) (\<lambda>pctx.
     and_then (vread8 (src + off_flags) s) (\<lambda>flags.
     and_then (vread8 (src + off_fault) s) (\<lambda>fault.
     let s = th_upd target (\<lambda>t. t\<lparr>t_pctx := pctx, t_flags := flags, t_fault := fault\<rparr>) s
     in and_then
          (if t_state (threads s target) \<noteq> TS_RUNNING then set_registers target src s else Ok s) (\<lambda>s.
        and_then (load32 (src + off_usr_ip) s) (\<lambda>usr_ip.
        and_then (load32 (src + off_usr_sp) s) (\<lambda>usr_sp.
          Ok (th_upd target (\<lambda>t. t\<lparr>t_usr_eip := usr_ip, t_usr_esp := usr_sp\<rparr>) s))))))))"

definition kcall_setstate :: "ptr \<Rightarrow> 'a thread_state_scheme \<Rightarrow> 'a thread_state_scheme outcome" where
  "kcall_setstate img s =
     (let target = kcall_target img s
      in if target = NULL then Ok (set_eax img TE_EXIST s)
         else if t_state (threads s target) = TS_PAUSED \<or> t_state (threads s target) = TS_PAUSEDW \<or>
                 t_state (threads s target) = TS_RUNNING then
           (let src = t_ecx (threads s img)
            in and_then (set_dead target src s) (\<lambda>s.
               and_then (set_info target src s) (\<lambda>s. Ok (set_eax img 0 s))))
         else Ok (set_eax img TE_STATE s))"

definition kcall_getdead :: "ptr \<Rightarrow> 'a thread_state_scheme \<Rightarrow> 'a thread_state_scheme outcome" where
  "kcall_getdead img s =
     (if dead_peek s \<noteq> NULL then
        (let (dead, s) = dead_pull s in Ok (set_eax img (t_id (threads s dead)) s))
      else
        and_then (thread_save img s) (\<lambda>s.
          Ok (dead_wait img (th_upd img (\<lambda>t. t\<lparr>t_state := TS_PAUSED\<rparr>) s))))"

definition kcall_getfault :: "ptr \<Rightarrow> 'a thread_state_scheme \<Rightarrow> 'a thread_state_scheme outcome" where
  "kcall_getfault img s =
     (if fault_peek s \<noteq> NULL then
        (let (fault, s) = fault_pull s in Ok (set_eax img (t_id (threads s fault)) s))
      else
        and_then (thread_save img s) (\<lambda>s.
          Ok (fault_wait img (th_upd img (\<lambda>t. t\<lparr>t_state := TS_PAUSED\<rparr>) s))))"

definition kcall_wait :: "ptr \<Rightarrow> 'a thread_state_scheme \<Rightarrow> 'a thread_state_scheme outcome" where
  "kcall_wait img s =
     and_then (event_wait (t_id (threads s img)) (t_ebx (threads s img)) s) (\<lambda>(r, s). Ok (set_eax img r s))"

definition kcall_reset :: "ptr \<Rightarrow> 'a thread_state_scheme \<Rightarrow> 'a thread_state_scheme outcome" where
  "kcall_reset img s =
     (let e = t_ebx (threads s img)
      in and_then
           (if e < 240 then irq_unmask (ucast e) (s\<lparr>irqstate := (irqstate s)(unat e := 0)\<rparr>) else Ok s)
           (\<lambda>s. Ok (set_eax img 0 s)))"

definition kcall_sysret :: "ptr \<Rightarrow> 'a thread_state_scheme \<Rightarrow> 'a thread_state_scheme" where
  "kcall_sysret img s =
     th_upd img (\<lambda>t. t\<lparr>t_sys_eip := t_eip t, t_sys_esp := t_useresp t, t_eax := t_ebp t, t_ss := 0x33, t_ds := 0x33,
       t_cs := 0x2B, t_flags := t_flags t OR TF_USER, t_eip := t_usr_eip t, t_useresp := t_usr_esp t\<rparr>) s"

section \<open>Paging\<close>

definition kcall_newpctx :: "ptr \<Rightarrow> 'a thread_state_scheme \<Rightarrow> 'a thread_state_scheme outcome" where
  "kcall_newpctx img s = and_then (pctx_new s) (\<lambda>(r, s). Ok (set_eax img r s))"

definition kcall_freepctx :: "ptr \<Rightarrow> 'a thread_state_scheme \<Rightarrow> 'a thread_state_scheme outcome" where
  "kcall_freepctx img s = and_then (pctx_free (t_ebx (threads s img)) s) (\<lambda>(r, s). Ok (set_eax img r s))"

definition kcall_setframe :: "ptr \<Rightarrow> 'a thread_state_scheme \<Rightarrow> 'a thread_state_scheme outcome" where
  "kcall_setframe img s =
     (let page = t_ebx (threads s img)
      in and_then (page_get page s) (\<lambda>e.
           and_then (page_set page (page_fmt (t_ecx (threads s img)) e) s) (\<lambda>s. Ok (set_eax img 0 s))))"

definition kcall_setflags :: "ptr \<Rightarrow> 'a thread_state_scheme \<Rightarrow> 'a thread_state_scheme outcome" where
  "kcall_setflags img s =
     (let page = t_ebx (threads s img)
      in and_then (page_get page s) (\<lambda>e.
           and_then (page_set page (page_fmt (page_ufmt e) (t_ecx (threads s img))) s) (\<lambda>s. Ok (set_eax img 0 s))))"

definition kcall_getframe :: "ptr \<Rightarrow> 'a thread_state_scheme \<Rightarrow> 'a thread_state_scheme outcome" where
  "kcall_getframe img s =
     (let off = t_ebx (threads s img) AND 0xFFF; page = t_ebx (threads s img) AND NOT 0xFFF
      in and_then (page_get page s) (\<lambda>e. Ok (set_eax img (page_ufmt e OR off) s)))"

definition kcall_getflags :: "ptr \<Rightarrow> 'a thread_state_scheme \<Rightarrow> 'a thread_state_scheme outcome" where
  "kcall_getflags img s =
     and_then (page_get (t_ebx (threads s img)) s) (\<lambda>e. Ok (set_eax img (e AND PF_MASK) s))"

text \<open>Frame numbers have 32 bits, so the upper half of the 64-bit result is zero.\<close>

definition kcall_newframe :: "ptr \<Rightarrow> 'a thread_state_scheme \<Rightarrow> 'a thread_state_scheme outcome" where
  "kcall_newframe img s =
     and_then (frame_new s) (\<lambda>(f, s).
       let frame = (ucast f :: u64)
       in Ok (th_upd img (\<lambda>t. t\<lparr>t_eax := ucast (frame AND 0xFFFFFFFF), t_ebx := ucast (drop_bit 32 frame)\<rparr>) s))"

definition kcall_freeframe :: "ptr \<Rightarrow> 'a thread_state_scheme \<Rightarrow> 'a thread_state_scheme outcome" where
  "kcall_freeframe img s = and_then (frame_free (t_ebx (threads s img)) s) (\<lambda>s. Ok (set_eax img 0 s))"

definition kcall_takeframe :: "ptr \<Rightarrow> 'a thread_state_scheme \<Rightarrow> 'a thread_state_scheme" where
  "kcall_takeframe img s = set_eax img 1 s"

definition kcall_unknown :: "ptr \<Rightarrow> 'a thread_state_scheme \<Rightarrow> 'a thread_state_scheme outcome" where
  "kcall_unknown img s =
     and_then (debug_printf (''warning: unimplemented kcall %d'' @ [newline]) [VInt (t_eax (threads s img))] s)
       (\<lambda>s. Ok (set_eax img (- 1) s))"

section \<open>Dispatch\<close>

definition kcall :: "ptr \<Rightarrow> 'a thread_state_scheme \<Rightarrow> 'a thread_state_scheme outcome" where
  "kcall img s =
     (if t_flags (threads s img) AND TF_USER \<noteq> 0 then Ok (user_syscall img s)
      else
        (let n = t_eax (threads s img)
         in if n = 0x02 then kcall_spawn img s
            else if n = 0x0B then kcall_reap img s
            else if n = 0x03 then Ok (kcall_gettid img s)
            else if n = 0x04 then kcall_yield img s
            else if n = 0x05 then kcall_pause img s
            else if n = 0x06 then kcall_resume img s
            else if n = 0x07 then kcall_getstate img s
            else if n = 0x08 then kcall_setstate img s
            else if n = 0x0A then kcall_getdead img s
            else if n = 0x09 then kcall_getfault img s
            else if n = 0x0D then kcall_wait img s
            else if n = 0x0E then kcall_reset img s
            else if n = 0x0F then Ok (kcall_sysret img s)
            else if n = 0x10 then kcall_newpctx img s
            else if n = 0x11 then kcall_freepctx img s
            else if n = 0x12 then kcall_setframe img s
            else if n = 0x13 then kcall_setflags img s
            else if n = 0x14 then kcall_getframe img s
            else if n = 0x15 then kcall_getflags img s
            else if n = 0x1C then kcall_newframe img s
            else if n = 0x1D then kcall_freeframe img s
            else if n = 0x1E then Ok (kcall_takeframe img s)
            else kcall_unknown img s))"

end
