(* ===== verification/Dispatch.thy ===== *)
theory Dispatch
  imports Kcall
begin

text \<open>
  The timer handler and the interrupt dispatcher (\<open>timer_handler\<close> and \<open>int_handler\<close> of
  \<open>src/kernel/interrupt.c\<close>): every entry into the kernel goes through \<open>int_handler\<close>, which picks the
  thread to continue with.
\<close>

section \<open>Timer\<close>

text \<open>The bits of \<open>time\<close>, of which bit \<open>15 - i\<close> fires the virtual timer \<open>i\<close>.\<close>

definition vtimer_mask :: "u32 \<Rightarrow> u32 \<Rightarrow> u32" where
  "vtimer_mask tick freq =
     (let ptime = push_bit 10 (tick - 1) div freq;
          ctime = push_bit 10 tick div freq;
          time = ptime XOR ctime
      in time + (time AND - time) - 1)"

text \<open>The loop over the 16 virtual timers: \<open>n\<close> more, the next one \<open>i\<close>.\<close>

primrec vtimer_loop :: "nat \<Rightarrow> nat \<Rightarrow> u32 \<Rightarrow> 'a thread_state_scheme \<Rightarrow> 'a thread_state_scheme outcome" where
  "vtimer_loop 0 i time s = Ok s"
| "vtimer_loop (Suc n) i time s =
     and_then (if time AND push_bit (15 - i) 1 \<noteq> 0
               then and_then (event_send (- 1) (255 - of_nat i) s) (\<lambda>(_, s). Ok s)
               else Ok s)
       (vtimer_loop n (Suc i) time)"

definition timer_handler :: "ptr \<Rightarrow> 'a thread_state_scheme \<Rightarrow> 'a thread_state_scheme outcome" where
  "timer_handler img s =
     (let s = s\<lparr>timer_tick := timer_tick s + 1\<rparr>
      in if pit_freq s = 0 then Stop Undefined
         else and_then (vtimer_loop 16 0 (vtimer_mask (timer_tick s) (pit_freq s)) s) (\<lambda>s.
           let s = th_upd img (\<lambda>t. t\<lparr>t_tick := t_tick t + 1\<rparr>) s
           in if t_state (threads s img) = TS_RUNNING
              then and_then (thread_save img s) (\<lambda>s.
                     Ok (th_upd img (\<lambda>t. t\<lparr>t_state := TS_QUEUED\<rparr>) (schedule_push img s)))
              else Ok s))"

section \<open>Dispatcher\<close>

primrec run_handler :: "handler \<Rightarrow> ptr \<Rightarrow> 'a thread_state_scheme \<Rightarrow> 'a thread_state_scheme outcome" where
  "run_handler H_kcall = kcall"
| "run_handler H_fault_generic = fault_generic"
| "run_handler H_fault_page = fault_page"
| "run_handler H_fault_double = fault_double"
| "run_handler H_timer = timer_handler"

definition irq_entry :: "u32 \<Rightarrow> 'a thread_state_scheme \<Rightarrow> 'a thread_state_scheme outcome" where
  "irq_entry num s =
     (if 32 \<le> num \<and> num < 32 + 16 then
        if num - 32 \<noteq> 0 then and_then (event_send (- 1) (num - 32) s) (\<lambda>(_, s). Ok s)
        else Ok (snd (irq_reset (ucast (num - 32)) s))
      else Ok s)"

text \<open>
  The thread to return to: the active one, or else the next one of the scheduler. The result
  \<open>None\<close> is \<open>cpu_idle\<close>: the processor halts in the state left behind until an interrupt arrives.
\<close>

definition int_exit :: "'a thread_state_scheme \<Rightarrow> (ptr option \<times> 'a thread_state_scheme) outcome" where
  "int_exit s =
     (let img = thread_get_active s
      in if img \<noteq> NULL then Ok (Some img, s)
         else
           (let img = schedule_next s
            in if img = NULL then Ok (None, s)
               else and_then (schedule_remv img s) (\<lambda>(_, s).
                 and_then (thread_load img s) (\<lambda>s.
                   Ok (Some img, th_upd img (\<lambda>t. t\<lparr>t_state := TS_RUNNING\<rparr>) s)))))"

definition int_handler :: "ptr \<Rightarrow> 'a thread_state_scheme \<Rightarrow> (ptr option \<times> 'a thread_state_scheme) outcome" where
  "int_handler img s =
     and_then (irq_entry (t_num (threads s img)) s) (\<lambda>s.
       if t_num (threads s img) \<ge> 256 then Stop OutOfBounds
       else and_then
         (case int_handler_tab s (ucast (t_num (threads s img))) of
            None \<Rightarrow> Ok s
          | Some h \<Rightarrow> run_handler h img s) int_exit)"

section \<open>The virtual timers\<close>

text \<open>
  The time that separates two ticks flips the low bits of the counter up to the first zero, so the
  mask consists of all the bits up to the highest one that changed.
\<close>

lemma odd_part: "0 < (n :: nat) \<Longrightarrow> \<exists>k m. n = 2 ^ k * m \<and> odd m"
proof (induction n rule: less_induct)
  case (less n)
  show ?case
  proof (cases "odd n")
    case True
    then have "n = 2 ^ 0 * n \<and> odd n" by simp
    then show ?thesis by blast
  next
    case False
    then obtain q where q: "n = 2 * q" by blast
    with less.prems have "q < n" and "0 < q" by auto
    with less.IH [of q] obtain k m where "q = 2 ^ k * m \<and> odd m" by blast
    with q have "n = 2 ^ Suc k * m \<and> odd m" by simp
    then show ?thesis by blast
  qed
qed

lemma xor_pred:
  fixes m :: nat
  assumes "odd m"
  shows "(2 ^ k * m - 1) XOR (2 ^ k * m) = mask (Suc k)"
proof -
  obtain q where m: "m = 2 * q + 1" using assms by (rule oddE)
  have "2 ^ k * m - 1 = push_bit k (2 * q) + mask k"
    by (simp add: m push_bit_eq_mult mask_eq_exp_minus_1 algebra_simps)
  also have "push_bit k (2 * q) + mask k = push_bit k (2 * q) OR mask k"
    by (rule disjunctive_add) (auto simp: bit_simps)
  finally have p: "2 ^ k * m - 1 = push_bit k (2 * q) OR mask k" .
  have "2 ^ k * m = push_bit k (2 * q + 1)" by (simp add: m push_bit_eq_mult mult.commute)
  moreover have b: "bit (Suc (2 * q)) j \<longleftrightarrow> j = 0 \<or> 0 < j \<and> bit q (j - 1)" for j
    using even_bit_succ_iff [of "2 * q" j] by (auto simp: bit_simps)
  ultimately show ?thesis unfolding p
    by (intro bit_eqI) (auto simp: bit_simps)
qed

lemma lowest_bit_fill:
  assumes "0 < n" and "n < 23"
  shows "push_bit 4 (mask n) + (push_bit 4 (mask n) AND - push_bit 4 (mask n)) - 1 = (mask (n + 4) :: u32)"
proof -
  have "n \<in> set [1..<23]" using assms by simp
  then show ?thesis by (auto simp: upt_rec mask_eq_exp_minus_1)
qed

text \<open>
  At 64 Hz, the frequency the kernel boots with, the virtual timer \<open>i\<close> fires at every tick that
  \<open>2^(11 - i)\<close> divides.
\<close>

lemma scaled_tick:
  assumes "unat tick < 4194304"
  shows "unat (push_bit 10 tick div 64 :: u32) = 16 * unat tick"
proof -
  have "unat (push_bit 10 tick) = unat tick * 1024"
    using assms by (simp only: unsigned_push_bit_eq) (simp add: take_bit_eq_mod push_bit_eq_mult)
  then have "unat (push_bit 10 tick div 64) = unat tick * 1024 div 64"
    by (simp only: unat_div) simp
  then show ?thesis by simp
qed

lemma vtimer_mask_64:
  assumes "0 < unat tick" and "unat tick < 4194304" and "unat tick = 2 ^ k * m" and "odd m"
  shows "vtimer_mask tick 64 = mask (k + 5)"
proof -
  let ?t = "unat tick"
  have k: "Suc k < 23"
  proof -
    have "2 ^ k \<le> ?t" using assms by (cases m) auto
    with assms(2) have "(2 :: nat) ^ k < 2 ^ 22" by simp
    then show ?thesis using power_less_imp_less_exp [of 2 k 22] by simp
  qed
  have p: "unat (tick - 1) = ?t - 1"
    using assms(1) by (metis One_nat_def unat_eq_zero unat_minus_one gr_implies_not0)
  have c: "unat (push_bit 10 tick div 64) = 16 * ?t" "unat (push_bit 10 (tick - 1) div 64) = 16 * (?t - 1)"
    using assms(2) p scaled_tick [of tick] scaled_tick [of "tick - 1"] by simp_all
  have "unat (push_bit 10 (tick - 1) div 64 XOR push_bit 10 tick div 64) = (16 * (?t - 1)) XOR (16 * ?t)"
    by (simp only: unsigned_xor_eq c)
  also have "\<dots> = push_bit 4 ((?t - 1) XOR ?t)"
  proof -
    have "16 * x = push_bit 4 x" for x :: nat by (simp add: push_bit_eq_mult)
    then show ?thesis by (simp only: push_bit_xor)
  qed
  also have "\<dots> = push_bit 4 (mask (Suc k))"
    using xor_pred [OF assms(4), of k] assms(3) by simp
  also have "\<dots> = unat (push_bit 4 (mask (Suc k)) :: u32)"
    using k by (intro bit_eqI) (auto simp: bit_simps)
  finally have "push_bit 10 (tick - 1) div 64 XOR push_bit 10 tick div 64 = push_bit 4 (mask (Suc k))"
    by (simp only: word_unat_eq_iff)
  then show ?thesis
    using lowest_bit_fill [of "Suc k"] k by (simp add: vtimer_mask_def Let_def add.commute)
qed

lemma vtimer_fires_64:
  assumes "0 < unat tick" and "unat tick < 4194304" and "i < 16"
  shows "vtimer_mask tick 64 AND push_bit (15 - i) 1 \<noteq> 0 \<longleftrightarrow> 2 ^ (11 - i) dvd unat tick"
proof -
  obtain k m where t: "unat tick = 2 ^ k * m" and m: "odd m" using odd_part assms(1) by blast
  have "vtimer_mask tick 64 AND push_bit (15 - i) 1 \<noteq> 0 \<longleftrightarrow> bit (vtimer_mask tick 64) (15 - i)"
    by (simp add: bit_iff_and_push_bit_not_eq_0)
  also have "\<dots> \<longleftrightarrow> 15 - i < k + 5"
    using vtimer_mask_64 [OF assms(1,2) t m] by (auto simp: bit_simps)
  also have "\<dots> \<longleftrightarrow> 11 - i \<le> k" by arith
  also have "\<dots> \<longleftrightarrow> (2 :: nat) ^ (11 - i) dvd 2 ^ k" by (simp add: dvd_power_iff_le)
  also have "\<dots> \<longleftrightarrow> 2 ^ (11 - i) dvd unat tick"
    unfolding t using m by (simp add: coprime_dvd_mult_left_iff)
  finally show ?thesis .
qed

lemma vtimer_loop_sends:
  "vtimer_loop n i time s = send_events (map (\<lambda>j. 255 - of_nat j) (filter (\<lambda>j. time AND push_bit (15 - j) 1 \<noteq> 0) [i..<i + n])) s"
proof (induction n arbitrary: i s)
  case (Suc n)
  have "[i..<i + Suc n] = i # [Suc i..<Suc i + n]" by (simp add: upt_rec)
  then show ?case using Suc.IH by (auto simp: split_def)
qed simp

text \<open>
  The number of the tick is shifted left by ten bits, so its upper ten bits do not count; a tick whose other bits are zero has all
  the low bits change.
\<close>

lemma vtimer_mask_low: "vtimer_mask tick freq = vtimer_mask (take_bit 22 tick) freq"
proof -
  have "push_bit 10 tick = push_bit 10 (take_bit 22 tick)" by (rule bit_word_eqI) (auto simp: bit_simps)
  moreover have "push_bit 10 (x - 1) = push_bit 10 x - 1024" for x :: u32 by (simp add: push_bit_eq_mult algebra_simps)
  ultimately show ?thesis by (simp add: vtimer_mask_def)
qed

lemma vtimer_fires:
  assumes "i < 16"
  shows "vtimer_mask tick 64 AND push_bit (15 - i) 1 \<noteq> 0 \<longleftrightarrow> 2 ^ (11 - i) dvd unat tick"
proof -
  let ?t = "take_bit 22 tick"
  have u: "unat ?t = unat tick mod 4194304" by (simp add: take_bit_eq_mod unat_mod)
  have "2 ^ (11 - i) dvd (4194304 :: nat)"
  proof -
    have "(2 :: nat) ^ (11 - i) dvd 2 ^ 22" by (rule le_imp_power_dvd) simp
    then show ?thesis by simp
  qed
  then have d: "2 ^ (11 - i) dvd unat ?t \<longleftrightarrow> 2 ^ (11 - i) dvd unat tick" unfolding u by (simp add: dvd_mod_iff)
  show ?thesis
  proof (cases "?t = 0")
    case True
    have "i \<in> set [0..<16]" using assms by simp
    moreover have "vtimer_mask 0 64 = 0x3FFFFFF" by code_simp
    ultimately have "vtimer_mask 0 64 AND push_bit (15 - i) 1 \<noteq> 0" by (auto simp: upt_rec)
    moreover have "2 ^ (11 - i) dvd unat tick" unfolding d [symmetric] True by simp
    ultimately show ?thesis unfolding vtimer_mask_low [of tick] True by blast
  next
    case False
    then have "0 < unat ?t" by (simp add: unat_gt_0)
    moreover have "unat ?t < 4194304" by (simp add: u)
    ultimately show ?thesis using vtimer_fires_64 [of ?t i] assms d unfolding vtimer_mask_low [of tick] by blast
  qed
qed

section \<open>Properties\<close>

text \<open>
  C16: At the 64 Hz to which the kernel sets the timer, each tick adds one to the counter of \<open>timer_handler\<close> and, before the running thread is preempted, sends the event of the virtual timer
  \<open>i\<close> exactly when \<open>2^(11 - i)\<close> divides the new count, in the order of the timers. So a timer \<open>i\<close> up to 11 fires \<open>2^(i - 5)\<close> times a second; the timers
  from 12 on, for which the documentation promises more, fire at every tick, as timer 11 does.
\<close>

theorem vtimer_rate:
  assumes "pit_freq s = 64"
  shows "timer_handler img s =
    and_then (send_events (map (\<lambda>i. 255 - of_nat i) (filter (\<lambda>i. 2 ^ (11 - i) dvd unat (timer_tick s + 1)) [0..<16]))
        (s\<lparr>timer_tick := timer_tick s + 1\<rparr>))
      (\<lambda>s. let s = th_upd img (\<lambda>t. t\<lparr>t_tick := t_tick t + 1\<rparr>) s
        in if t_state (threads s img) = TS_RUNNING
           then and_then (thread_save img s) (\<lambda>s. Ok (th_upd img (\<lambda>t. t\<lparr>t_state := TS_QUEUED\<rparr>) (schedule_push img s)))
           else Ok s)"
proof -
  let ?n = "timer_tick s + 1"
  have "filter (\<lambda>i. vtimer_mask ?n 64 AND push_bit (15 - i) 1 \<noteq> 0) [0..<16] = filter (\<lambda>i. 2 ^ (11 - i) dvd unat ?n) [0..<16]"
    using vtimer_fires by (intro filter_cong) auto
  then have "vtimer_loop 16 0 (vtimer_mask ?n 64) t =
      send_events (map (\<lambda>i. 255 - of_nat i) (filter (\<lambda>i. 2 ^ (11 - i) dvd unat ?n) [0..<16])) t" for t :: "'a thread_state_scheme"
    by (simp only: vtimer_loop_sends add_0)
  then show ?thesis by (simp add: timer_handler_def assms Let_def)
qed

theorem vtimer_rate_witness:
  "timer_handler 0x3000 (demo_threads\<lparr>timer_tick := 5\<rparr>) =
     and_then (send_events [245, 244, 243, 242, 241, 240] (demo_threads\<lparr>timer_tick := 6\<rparr>))
       (\<lambda>s. let s = th_upd 0x3000 (\<lambda>t. t\<lparr>t_tick := t_tick t + 1\<rparr>) s
         in if t_state (threads s 0x3000) = TS_RUNNING
            then and_then (thread_save 0x3000 s) (\<lambda>s. Ok (th_upd 0x3000 (\<lambda>t. t\<lparr>t_state := TS_QUEUED\<rparr>) (schedule_push 0x3000 s)))
            else Ok s)"
proof -
  have "map (\<lambda>i. 255 - of_nat i :: u32) (filter (\<lambda>i. 2 ^ (11 - i) dvd (6 :: nat)) [0..<16]) = [245, 244, 243, 242, 241, 240]"
    by (simp add: upt_rec)
  moreover have "pit_freq (demo_threads\<lparr>timer_tick := 5\<rparr>) = 64" by (simp add: demo_threads_def)
  from vtimer_rate [OF this, of "0x3000"] have "timer_handler 0x3000 (demo_threads\<lparr>timer_tick := 5\<rparr>) =
    and_then (send_events (map (\<lambda>i. 255 - of_nat i) (filter (\<lambda>i. 2 ^ (11 - i) dvd (6 :: nat)) [0..<16])) (demo_threads\<lparr>timer_tick := 6\<rparr>))
      (\<lambda>s. let s = th_upd 0x3000 (\<lambda>t. t\<lparr>t_tick := t_tick t + 1\<rparr>) s
        in if t_state (threads s 0x3000) = TS_RUNNING
           then and_then (thread_save 0x3000 s) (\<lambda>s. Ok (th_upd 0x3000 (\<lambda>t. t\<lparr>t_state := TS_QUEUED\<rparr>) (schedule_push 0x3000 s)))
           else Ok s)" by simp
  ultimately show ?thesis by (simp only:)
qed

end
