(* ===== verification/SchedSpec.thy ===== *)
theory SchedSpec
  imports Dispatch
begin

text \<open>
  What the thread subsystem promises, stated without links and tables: a thread is running, in a
  line for the processor, in the line of one event, or paused. The operations of the kernel on
  threads are shown to implement the moves of this abstract machine.
\<close>

section \<open>The abstract machine\<close>

record sched_spec =
  running :: "ptr option"
  ready :: "ptr list"
  waiting :: "nat \<Rightarrow> ptr list"
  paused :: "ptr set"

definition members :: "sched_spec \<Rightarrow> ptr set" where
  "members A = set_option (running A) \<union> set (ready A) \<union> (\<Union>e<EV_COUNT. set (waiting A e)) \<union> paused A"

text \<open>The running thread goes to the end of the line.\<close>

definition spec_preempt :: "sched_spec \<Rightarrow> sched_spec" where
  "spec_preempt A =
     (case running A of None \<Rightarrow> A | Some p \<Rightarrow> A\<lparr>running := None, ready := ready A @ [p]\<rparr>)"

text \<open>The running thread joins the line of an event.\<close>

definition spec_block :: "nat \<Rightarrow> sched_spec \<Rightarrow> sched_spec" where
  "spec_block e A =
     (case running A of None \<Rightarrow> A
      | Some p \<Rightarrow> A\<lparr>running := None, waiting := (waiting A)(e := waiting A e @ [p])\<rparr>)"

text \<open>The first thread in the line of an event moves to the end of the line for the processor.\<close>

definition spec_wake :: "nat \<Rightarrow> sched_spec \<Rightarrow> sched_spec" where
  "spec_wake e A =
     (case waiting A e of [] \<Rightarrow> A
      | p # ps \<Rightarrow> A\<lparr>ready := ready A @ [p], waiting := (waiting A)(e := ps)\<rparr>)"

definition spec_pause :: "ptr \<Rightarrow> sched_spec \<Rightarrow> sched_spec" where
  "spec_pause p A =
     A\<lparr>running := (if running A = Some p then None else running A), ready := remove1 p (ready A),
       paused := insert p (paused A)\<rparr>"

definition spec_resume :: "ptr \<Rightarrow> sched_spec \<Rightarrow> sched_spec" where
  "spec_resume p A = A\<lparr>ready := ready A @ [p], paused := paused A - {p}\<rparr>"

text \<open>An idle processor takes the first thread in the line.\<close>

definition spec_dispatch :: "sched_spec \<Rightarrow> sched_spec" where
  "spec_dispatch A =
     (case running A of Some p \<Rightarrow> A
      | None \<Rightarrow> (case ready A of [] \<Rightarrow> A | p # ps \<Rightarrow> A\<lparr>running := Some p, ready := ps\<rparr>))"

section \<open>Simulation\<close>

definition sim :: "'a thread_state_scheme \<Rightarrow> sched_spec \<Rightarrow> bool" where
  "sim s A \<longleftrightarrow>
     sched_queue s (ready A) \<and> (\<forall>e < EV_COUNT. ev_queue e s (waiting A e)) \<and>
     active_thread s = (case running A of None \<Rightarrow> NULL | Some p \<Rightarrow> p) \<and>
     {p. live s p} = members A \<and>
     (\<forall>i < THREAD_COUNT. thread_table s i \<noteq> NULL \<longrightarrow> t_id (threads s (thread_table s i)) = of_nat i) \<and>
     (\<forall>p. running A = Some p \<longrightarrow> t_state (threads s p) = TS_RUNNING) \<and>
     (\<forall>p \<in> set (ready A). t_state (threads s p) = TS_QUEUED) \<and>
     (\<forall>e < EV_COUNT. \<forall>p \<in> set (waiting A e). t_state (threads s p) = TS_WAITING \<and> t_event (threads s p) = of_nat e) \<and>
     (\<forall>p \<in> paused A. t_state (threads s p) = TS_PAUSED)"

lemma sim_live: "sim s A \<Longrightarrow> p \<in> members A \<Longrightarrow> live s p"
  unfolding sim_def by blast

lemma sim_states:
  assumes "sim s A"
  shows "running A = Some p \<Longrightarrow> t_state (threads s p) = TS_RUNNING \<and> active_thread s = p \<and> live s p"
    and "p \<in> set (ready A) \<Longrightarrow> t_state (threads s p) = TS_QUEUED \<and> live s p"
    and "e < EV_COUNT \<Longrightarrow> p \<in> set (waiting A e) \<Longrightarrow>
      t_state (threads s p) = TS_WAITING \<and> t_event (threads s p) = of_nat e \<and> live s p"
    and "p \<in> paused A \<Longrightarrow> t_state (threads s p) = TS_PAUSED \<and> live s p"
  using assms sim_live [OF assms, of p] by (auto simp: sim_def members_def)

text \<open>The state of a thread decides where it is.\<close>

lemma sim_place:
  assumes "sim s A" and "live s p"
  shows "t_state (threads s p) = TS_RUNNING \<Longrightarrow> running A = Some p"
    and "t_state (threads s p) = TS_QUEUED \<Longrightarrow> p \<in> set (ready A)"
    and "t_state (threads s p) = TS_WAITING \<Longrightarrow>
      unat (t_event (threads s p)) < EV_COUNT \<and> p \<in> set (waiting A (unat (t_event (threads s p))))"
    and "t_state (threads s p) = TS_PAUSED \<Longrightarrow> p \<in> paused A"
proof -
  have "p \<in> members A" using assms unfolding sim_def by blast
  then have "running A = Some p \<or> p \<in> set (ready A) \<or> (\<exists>e < EV_COUNT. p \<in> set (waiting A e)) \<or> p \<in> paused A"
    by (auto simp: members_def)
  then show "t_state (threads s p) = TS_RUNNING \<Longrightarrow> running A = Some p"
    and "t_state (threads s p) = TS_QUEUED \<Longrightarrow> p \<in> set (ready A)"
    and "t_state (threads s p) = TS_WAITING \<Longrightarrow>
      unat (t_event (threads s p)) < EV_COUNT \<and> p \<in> set (waiting A (unat (t_event (threads s p))))"
    and "t_state (threads s p) = TS_PAUSED \<Longrightarrow> p \<in> paused A"
    using sim_states [OF assms(1)] by fastforce+
qed

text \<open>Only these parts of a state matter to the simulation.\<close>

lemma sim_cong:
  assumes "sched_head s' = sched_head s" "sched_tail s' = sched_tail s" "ev_front s' = ev_front s"
    "ev_back s' = ev_back s" "active_thread s' = active_thread s" "thread_table s' = thread_table s"
    and "\<And>p. t_next (threads s' p) = t_next (threads s p)"
    and "\<And>p. t_next_evqueue (threads s' p) = t_next_evqueue (threads s p)"
    and "\<And>p. t_state (threads s' p) = t_state (threads s p)"
    and "\<And>p. t_event (threads s' p) = t_event (threads s p)" and "\<And>p. t_id (threads s' p) = t_id (threads s p)"
  shows "sim s' A = sim s A"
  by (simp add: sim_def sched_queue_def ev_queue_def live_def assms)

lemma active_upd [simp]:
  "sched_queue (s\<lparr>active_thread := a\<rparr>) xs = sched_queue s xs"
  "ev_queue e (s\<lparr>active_thread := a\<rparr>) xs = ev_queue e s xs"
  "live (s\<lparr>active_thread := a\<rparr>) p = live s p"
  by (simp_all add: sched_queue_def ev_queue_def live_def)

lemma live_th_upd [simp]: "(\<And>t. t_id (f t) = t_id t) \<Longrightarrow> live (th_upd q f s) p = live s p"
  by (simp add: live_def)

lemma live_schedule_push [simp]: "live (schedule_push q s) p = live s p"
  by (simp add: live_def)

lemma live_ev_enqueue [simp]: "live (ev_enqueue q e s) p = live s p"
  by (simp add: live_def)

lemma live_ev_dequeue [simp]: "live (ev_dequeue e s) p = live s p"
  by (simp add: live_def ev_dequeue_threads)

text \<open>
  A thread \<open>p\<close> that changes its place: every other thread keeps its state, and its place in the
  new abstract state \<open>B\<close> is a place it had in \<open>A\<close>.
\<close>

lemma sim_move:
  assumes "sim s A" and "members B = members A"
    and "sched_queue s' (ready B)" and "\<And>e. e < EV_COUNT \<Longrightarrow> ev_queue e s' (waiting B e)"
    and "active_thread s' = (case running B of None \<Rightarrow> NULL | Some q \<Rightarrow> q)"
    and "thread_table s' = thread_table s \<and> (\<forall>q. t_id (threads s' q) = t_id (threads s q))"
    and "\<And>q. q \<noteq> p \<Longrightarrow> t_state (threads s' q) = t_state (threads s q) \<and> t_event (threads s' q) = t_event (threads s q)"
    and "\<And>q. q \<noteq> p \<Longrightarrow> running B = Some q \<Longrightarrow> running A = Some q"
    and "\<And>q. q \<noteq> p \<Longrightarrow> q \<in> set (ready B) \<Longrightarrow> q \<in> set (ready A)"
    and "\<And>q e. q \<noteq> p \<Longrightarrow> e < EV_COUNT \<Longrightarrow> q \<in> set (waiting B e) \<Longrightarrow> q \<in> set (waiting A e)"
    and "\<And>q. q \<noteq> p \<Longrightarrow> q \<in> paused B \<Longrightarrow> q \<in> paused A"
    and "running B = Some p \<Longrightarrow> t_state (threads s' p) = TS_RUNNING"
    and "p \<in> set (ready B) \<Longrightarrow> t_state (threads s' p) = TS_QUEUED"
    and "\<And>e. e < EV_COUNT \<Longrightarrow> p \<in> set (waiting B e) \<Longrightarrow>
      t_state (threads s' p) = TS_WAITING \<and> t_event (threads s' p) = of_nat e"
    and "p \<in> paused B \<Longrightarrow> t_state (threads s' p) = TS_PAUSED"
  shows "sim s' B"
  unfolding sim_def
proof (intro conjI allI ballI impI)
  show "{q. live s' q} = members B" using assms(1,2,6) by (simp add: sim_def live_def)
  show "t_id (threads s' (thread_table s' i)) = of_nat i" if "i < THREAD_COUNT" "thread_table s' i \<noteq> NULL" for i
    using that assms(1,6) by (simp add: sim_def)
  show "t_state (threads s' q) = TS_RUNNING" if "running B = Some q" for q
    using that assms(7,8,12) sim_states(1) [OF assms(1)] by metis
  show "t_state (threads s' q) = TS_QUEUED" if "q \<in> set (ready B)" for q
    using that assms(7,9,13) sim_states(2) [OF assms(1)] by metis
  show "t_state (threads s' q) = TS_WAITING" and "t_event (threads s' q) = of_nat e"
    if "e < EV_COUNT" "q \<in> set (waiting B e)" for q e
    using that assms(7,10,14) sim_states(3) [OF assms(1)] by metis+
  show "t_state (threads s' q) = TS_PAUSED" if "q \<in> paused B" for q
    using that assms(7,11,15) sim_states(4) [OF assms(1)] by metis
qed (use assms in simp_all)

text \<open>Where a thread is not.\<close>

lemma sim_elsewhere:
  assumes "sim s A"
  shows "t_state (threads s p) \<noteq> TS_RUNNING \<Longrightarrow> running A \<noteq> Some p"
    and "t_state (threads s p) \<noteq> TS_QUEUED \<Longrightarrow> p \<notin> set (ready A)"
    and "t_state (threads s p) \<noteq> TS_WAITING \<Longrightarrow> e < EV_COUNT \<Longrightarrow> p \<notin> set (waiting A e)"
    and "t_state (threads s p) \<noteq> TS_PAUSED \<Longrightarrow> p \<notin> paused A"
    and "live s p \<Longrightarrow> p \<noteq> NULL"
  using sim_states [OF assms] by (auto simp: live_def)

lemma sim_queues:
  assumes "sim s A"
  shows "sched_queue s (ready A)" and "\<And>e. e < EV_COUNT \<Longrightarrow> ev_queue e s (waiting A e)"
    and "active_thread s = (case running A of None \<Rightarrow> NULL | Some p \<Rightarrow> p)"
  using assms by (simp_all add: sim_def)

text \<open>What a number that a caller passes leads to.\<close>

lemma sim_thread_get:
  assumes "sim s A" and "thread_get n s \<noteq> NULL"
  shows "live s (thread_get n s)" and "t_id (threads s (thread_get n s)) = n"
proof -
  have n: "unat n < THREAD_COUNT" "thread_get n s = thread_table s (unat n)"
    using assms(2) by (simp_all add: thread_get_eq split: if_splits)
  with assms have "t_id (threads s (thread_get n s)) = of_nat (unat n)" by (auto simp: sim_def)
  then show "t_id (threads s (thread_get n s)) = n" by simp
  with n assms(2) show "live s (thread_get n s)" by (simp add: live_def)
qed

section \<open>Moves\<close>

lemma sim_preempt:
  assumes "sim s A" and "running A = Some p"
  shows "sim (th_upd p (\<lambda>t. t\<lparr>t_state := TS_QUEUED\<rparr>) (schedule_push p (s\<lparr>active_thread := NULL\<rparr>))) (spec_preempt A)"
    (is "sim ?s' ?B")
proof -
  have p: "t_state (threads s p) = TS_RUNNING" "live s p" using sim_states(1) [OF assms] by simp_all
  have B: "?B = A\<lparr>running := None, ready := ready A @ [p]\<rparr>" using assms(2) by (simp add: spec_preempt_def)
  have places: "p \<notin> set (ready A)" "p \<notin> paused A" "p \<noteq> NULL" "\<And>e. e < EV_COUNT \<Longrightarrow> p \<notin> set (waiting A e)"
    using sim_elsewhere [OF assms(1), of p] p by simp_all
  have q: "sched_queue ?s' (ready ?B)"
    using sim_queues(1) [OF assms(1)] places by (simp add: B schedule_push_queue)
  have m: "members ?B = members A" using assms(2) by (auto simp: B members_def)
  show ?thesis
    by (rule sim_move [OF assms(1) m q, where p = p]) (use places in \<open>auto simp: B sim_queues [OF assms(1)]\<close>)
qed

text \<open>The members, with the line of one event set apart from the others.\<close>

definition others_waiting :: "nat \<Rightarrow> sched_spec \<Rightarrow> ptr set" where
  "others_waiting k A = (\<Union>e\<in>{..<EV_COUNT} - {k}. set (waiting A e))"

lemma members_split:
  "k < EV_COUNT \<Longrightarrow>
   members A = set_option (running A) \<union> set (ready A) \<union> set (waiting A k) \<union> others_waiting k A \<union> paused A"
  unfolding members_def others_waiting_def by blast

lemma others_waiting_cong: "(\<And>e. e \<noteq> k \<Longrightarrow> waiting B e = waiting A e) \<Longrightarrow> others_waiting k B = others_waiting k A"
  by (simp add: others_waiting_def)

lemma ev_queue_ops_sched [simp]:
  "sched_queue (ev_enqueue p event s) xs = sched_queue s xs"
  "sched_queue (ev_dequeue event s) xs = sched_queue s xs"
  by (simp_all add: sched_queue_def)

lemma sim_waiting_disjoint:
  assumes "sim s A" and "e < EV_COUNT" and "e' < EV_COUNT" and "e \<noteq> e'"
  shows "set (waiting A e) \<inter> set (waiting A e') = {}"
proof -
  have False if "q \<in> set (waiting A e)" "q \<in> set (waiting A e')" for q
  proof -
    have "(of_nat e :: u32) = of_nat e'"
      using sim_states(3) [OF assms(1,2) that(1)] sim_states(3) [OF assms(1,3) that(2)] by simp
    then have "unat (of_nat e :: u32) = unat (of_nat e' :: u32)" by simp
    with assms(2-4) show False by (simp only: unat_event)
  qed
  then show ?thesis by blast
qed

lemma sim_block:
  assumes "sim s A" and "running A = Some p" and "unat event < EV_COUNT"
  shows "sim (th_upd p (\<lambda>t. t\<lparr>t_state := TS_WAITING\<rparr>) ((ev_enqueue p event s)\<lparr>active_thread := NULL\<rparr>))
    (spec_block (unat event) A)" (is "sim ?s' ?B")
proof -
  let ?e = "unat event"
  have p: "t_state (threads s p) = TS_RUNNING" "live s p" using sim_states(1) [OF assms(1,2)] by simp_all
  have B: "?B = A\<lparr>running := None, waiting := (waiting A)(?e := waiting A ?e @ [p])\<rparr>"
    using assms(2) by (simp add: spec_block_def)
  have places: "p \<notin> set (ready A)" "p \<notin> paused A" "p \<noteq> NULL" "\<And>e. e < EV_COUNT \<Longrightarrow> p \<notin> set (waiting A e)"
    using sim_elsewhere [OF assms(1), of p] p by simp_all
  note evq = sim_queues(2) [OF assms(1)]
  have w: "ev_queue e ?s' (waiting ?B e)" if "e < EV_COUNT" for e
  proof (cases "e = ?e")
    case True
    have "ev_queue ?e (ev_enqueue p event s) (waiting A ?e @ [p])"
      by (rule ev_enqueue_queue) (use assms(3) evq places in auto)
    with True show ?thesis by (simp add: B)
  next
    case False
    have "ev_queue e (ev_enqueue p event s) (waiting A e)"
      by (rule ev_enqueue_other [OF evq [OF assms(3)] evq [OF that] False])
        (use places that assms sim_waiting_disjoint [OF assms(1,3) that] False in auto)
    with False show ?thesis by (simp add: B)
  qed
  have q: "sched_queue ?s' (ready ?B)"
    using sim_queues(1) [OF assms(1)] by (simp add: B)
  have m: "members ?B = members A"
    using members_split [OF assms(3)] others_waiting_cong [of ?e ?B A] assms(2) by (auto simp: B)
  show ?thesis
    by (rule sim_move [OF assms(1) m q w, where p = p])
      (use places in \<open>auto simp: B split: if_splits\<close>)
qed

lemma sim_wake:
  assumes "sim s A" and "unat event < EV_COUNT" and "waiting A (unat event) = p # ps"
  shows "sim (th_upd p (\<lambda>t. t\<lparr>t_state := TS_QUEUED\<rparr>) (schedule_push p (ev_dequeue event s)))
    (spec_wake (unat event) A)" (is "sim ?s' ?B")
proof -
  let ?e = "unat event"
  have in_w: "p \<in> set (waiting A ?e)" using assms(3) by simp
  have p: "t_state (threads s p) = TS_WAITING" "live s p" using sim_states(3) [OF assms(1,2) in_w] by simp_all
  have B: "?B = A\<lparr>ready := ready A @ [p], waiting := (waiting A)(?e := ps)\<rparr>"
    using assms(3) by (simp add: spec_wake_def)
  have places: "p \<notin> set (ready A)" "p \<notin> paused A" "p \<noteq> NULL" "running A \<noteq> Some p"
    using sim_elsewhere [OF assms(1), of p] p by simp_all
  note evq = sim_queues(2) [OF assms(1)]
  have front: "ev_front s ?e = p" and "p \<notin> set ps"
    using evq [OF assms(2)] ev_queue_front fifo_distinct unfolding assms(3) ev_queue_def by fastforce+
  moreover have "p \<notin> set (waiting A e)" if "e < EV_COUNT" "e \<noteq> ?e" for e
    using sim_waiting_disjoint [OF assms(1) that(1) assms(2) that(2)] in_w by blast
  ultimately have nw: "p \<notin> set (waiting ?B e)" if "e < EV_COUNT" for e
    using that by (auto simp: B)
  have w: "ev_queue e ?s' (waiting ?B e)" if "e < EV_COUNT" for e
    using ev_dequeue_queue [of event s p ps] ev_dequeue_other [of e event s "waiting A e"] evq [OF that] evq [OF assms(2)] assms(3)
    by (auto simp: B)
  have "sched_queue (ev_dequeue event s) (ready A)"
    using sim_queues(1) [OF assms(1)] by simp
  then have q: "sched_queue ?s' (ready ?B)"
    using places by (simp add: B schedule_push_queue)
  have m: "members ?B = members A"
    using members_split [OF assms(2)] others_waiting_cong [of ?e ?B A] assms(3) by (auto simp: B)
  show ?thesis
    by (rule sim_move [OF assms(1) m q w, where p = p])
      (use places nw assms(3) sim_queues(3) [OF assms(1)] in \<open>auto simp: B ev_dequeue_threads front split: if_splits\<close>)
qed

lemma sim_pause_running:
  assumes "sim s A" and "running A = Some p"
  shows "sim (th_upd p (\<lambda>t. t\<lparr>t_state := TS_PAUSED\<rparr>) (s\<lparr>active_thread := NULL\<rparr>)) (spec_pause p A)" (is "sim ?s' ?B")
proof -
  have p: "t_state (threads s p) = TS_RUNNING" "live s p" using sim_states(1) [OF assms] by simp_all
  have places: "p \<notin> set (ready A)" "p \<notin> paused A" "p \<noteq> NULL" "\<And>e. e < EV_COUNT \<Longrightarrow> p \<notin> set (waiting A e)"
    using sim_elsewhere [OF assms(1), of p] p by simp_all
  have B: "?B = A\<lparr>running := None, paused := insert p (paused A)\<rparr>"
    using assms(2) places by (simp add: spec_pause_def remove1_idem)
  have q: "sched_queue ?s' (ready ?B)" using sim_queues(1) [OF assms(1)] by (simp add: B)
  have m: "members ?B = members A" using assms(2) by (auto simp: B members_def)
  show ?thesis
    by (rule sim_move [OF assms(1) m q, where p = p]) (use places in \<open>auto simp: B sim_queues [OF assms(1)]\<close>)
qed

lemma sim_pause_queued:
  assumes "sim s A" and "p \<in> set (ready A)" and "sched_only s s'" and "sched_queue s' (remove1 p (ready A))"
  shows "sim (th_upd p (\<lambda>t. t\<lparr>t_state := TS_PAUSED\<rparr>) s') (spec_pause p A)" (is "sim ?s' ?B")
proof -
  have p: "t_state (threads s p) = TS_QUEUED" "live s p" using sim_states(2) [OF assms(1,2)] by simp_all
  have places: "running A \<noteq> Some p" "p \<notin> paused A" "p \<noteq> NULL" "\<And>e. e < EV_COUNT \<Longrightarrow> p \<notin> set (waiting A e)"
    using sim_elsewhere [OF assms(1), of p] p by simp_all
  have B: "?B = A\<lparr>ready := remove1 p (ready A), paused := insert p (paused A)\<rparr>"
    using places by (simp add: spec_pause_def)
  have d: "distinct (ready A)" using sim_queues(1) [OF assms(1)] by (rule sched_queue_distinct)
  have q: "sched_queue ?s' (ready ?B)" using assms(4) by (simp add: B)
  have m: "members ?B = members A" using assms(2) d by (auto simp: B members_def set_remove1_eq)
  show ?thesis
    by (rule sim_move [OF assms(1) m q, where p = p])
      (use places d in \<open>auto simp: B sim_queues [OF assms(1)] sched_only_ev [OF assms(3)] sched_only_fields [OF assms(3)]\<close>)
qed

lemma sim_resume:
  assumes "sim s A" and "p \<in> paused A"
  shows "sim (th_upd p (\<lambda>t. t\<lparr>t_state := TS_QUEUED\<rparr>) (schedule_push p s)) (spec_resume p A)" (is "sim ?s' ?B")
proof -
  have p: "t_state (threads s p) = TS_PAUSED" "live s p" using sim_states(4) [OF assms] by simp_all
  have places: "running A \<noteq> Some p" "p \<notin> set (ready A)" "p \<noteq> NULL" "\<And>e. e < EV_COUNT \<Longrightarrow> p \<notin> set (waiting A e)"
    using sim_elsewhere [OF assms(1), of p] p by simp_all
  have q: "sched_queue ?s' (ready ?B)"
    using sim_queues(1) [OF assms(1)] places by (simp add: spec_resume_def schedule_push_queue)
  have m: "members ?B = members A" using assms(2) by (auto simp: spec_resume_def members_def)
  show ?thesis
    by (rule sim_move [OF assms(1) m q, where p = p])
      (use places in \<open>auto simp: spec_resume_def sim_queues [OF assms(1)]\<close>)
qed

lemma sim_dispatch:
  assumes "sim s A" and "running A = None" and "ready A = p # ps" and "sched_only s s'" and "sched_queue s' ps"
  shows "sim (th_upd p (\<lambda>t. t\<lparr>t_state := TS_RUNNING\<rparr>) (s'\<lparr>active_thread := p\<rparr>)) (spec_dispatch A)" (is "sim ?s' ?B")
proof -
  have in_r: "p \<in> set (ready A)" using assms(3) by simp
  have p: "t_state (threads s p) = TS_QUEUED" "live s p" using sim_states(2) [OF assms(1) in_r] by simp_all
  have places: "p \<notin> paused A" "p \<noteq> NULL" "\<And>e. e < EV_COUNT \<Longrightarrow> p \<notin> set (waiting A e)"
    using sim_elsewhere [OF assms(1), of p] p by simp_all
  have B: "?B = A\<lparr>running := Some p, ready := ps\<rparr>" using assms(2,3) by (simp add: spec_dispatch_def)
  have np: "p \<notin> set ps" using sched_queue_distinct [OF sim_queues(1) [OF assms(1)]] assms(3) by simp
  have q: "sched_queue ?s' (ready ?B)" using assms(5) by (simp add: B)
  have m: "members ?B = members A" using assms(2,3) by (auto simp: B members_def)
  show ?thesis
    by (rule sim_move [OF assms(1) m q, where p = p])
      (use places assms(2,3) np in
        \<open>auto simp: B sim_queues [OF assms(1)] sched_only_ev [OF assms(4)] sched_only_fields [OF assms(4)]\<close>)
qed

section \<open>An example\<close>

text \<open>The abstract state for the example of \<open>Thread\<close>.\<close>

definition demo_spec :: sched_spec where
  "demo_spec = \<lparr>running = Some 0x1000, ready = [0x2000], waiting = (\<lambda>_. [])(244 := [0x3000]), paused = {0x4000}\<rparr>"

lemma demo_sim: "sim demo_threads demo_spec"
proof -
  have m: "members demo_spec = {0x1000, 0x2000, 0x3000, 0x4000}"
    by (auto simp: members_def demo_spec_def split: if_splits)
  have "{p. live demo_threads p} = members demo_spec" unfolding m demo_threads_live by blast
  then show ?thesis unfolding sim_def
    by (auto simp: demo_spec_def sched_queue_def ev_queue_def, auto simp: demo_threads_def zero_thread_def)
qed

end
