(* ===== verification/Refine.thy ===== *)
theory Refine
  imports SchedSpec
begin

text \<open>
  The kernel implements the abstract scheduler: every operation of \<open>thread.c\<close>, \<open>kcall.c\<close> and
  \<open>interrupt.c\<close> that moves a thread, when it returns, has made the move of \<open>SchedSpec\<close> that it stands
  for.
\<close>

section \<open>Parts of the state that the scheduler does not see\<close>

lemma sim_memory [simp]: "sim (s\<lparr>pmem := m, fpu := f\<rparr>) A = sim s A"
  by (rule sim_cong) simp_all

lemma sim_hardware:
  "sim (s\<lparr>irq_mask_reg := v\<rparr>) A = sim s A" "sim (s\<lparr>out_log := l\<rparr>) A = sim s A"
  "sim (s\<lparr>irqstate := i\<rparr>) A = sim s A" "sim (s\<lparr>timer_tick := n\<rparr>) A = sim s A"
  by (rule sim_cong; simp)+

lemma sim_th_upd [simp]:
  assumes "\<And>t. t_next (f t) = t_next t" "\<And>t. t_next_evqueue (f t) = t_next_evqueue t"
    "\<And>t. t_state (f t) = t_state t" "\<And>t. t_event (f t) = t_event t" "\<And>t. t_id (f t) = t_id t"
  shows "sim (th_upd p f s) A = sim s A"
  by (rule sim_cong) (simp_all add: assms)

lemma sim_set_eax [simp]: "sim (set_eax p v s) A = sim s A"
  by (simp add: set_eax_def)

lemma irq_mask_sim: "irq_mask n s = Ok s' \<Longrightarrow> sim s' A = sim s A"
  by (auto simp: irq_mask_def irq_write_mask_def outb_def sim_hardware split: if_splits)

lemma irq_unmask_sim: "irq_unmask n s = Ok s' \<Longrightarrow> sim s' A = sim s A"
  by (auto simp: irq_unmask_def irq_write_mask_def outb_def sim_hardware split: if_splits)

lemma irq_reset_sim: "sim (snd (irq_reset n s)) A = sim s A"
  by (simp add: irq_reset_def outb_def sim_hardware)

section \<open>Switching threads\<close>

lemma thread_save_sim_yield:
  assumes "sim s A" and "running A = Some p" and "thread_save p s = Ok s1"
  shows "sim (th_upd p (\<lambda>t. t\<lparr>t_state := TS_QUEUED\<rparr>) (schedule_push p s1)) (spec_preempt A)"
proof -
  obtain m f where s1: "s1 = s\<lparr>pmem := m, fpu := f, active_thread := NULL\<rparr>"
    using thread_save_only [OF assms(3)] .
  have "sim (s\<lparr>pmem := m, fpu := f\<rparr>) A" using assms(1) by simp
  from sim_preempt [OF this assms(2)] show ?thesis unfolding s1 .
qed

lemma thread_load_only:
  assumes "thread_load p s = Ok s'"
  obtains ts f c a where "s' = s\<lparr>tss := ts, fpu := f, cr3 := c, active_pctx := a, active_thread := p\<rparr>"
proof -
  define s1 where "s1 = (if t_vm86_active (threads s p) \<noteq> 0 then set_int_stack (p + off_vm86_start) s
    else set_int_stack (p + off_vm86_es) s)"
  have "\<exists>ts. s1 = s\<lparr>tss := ts\<rparr>" unfolding s1_def set_int_stack_def by (metis (full_types))
  then obtain ts where s1': "s1 = s\<lparr>tss := ts\<rparr>" ..
  obtain s2 where f: "(if t_fxdata (threads s1 p) \<noteq> NULL then fpu_load (t_fxdata (threads s1 p)) s1 else Ok s1) = Ok s2"
    and s': "s' = (if t_pctx (threads s2 p) \<noteq> 0 \<and> t_pctx (threads s2 p) \<noteq> active_pctx s2
      then snd (pctx_load (t_pctx (threads s2 p)) s2) else s2)\<lparr>active_thread := p\<rparr>"
    using assms unfolding thread_load_def Let_def s1_def [symmetric] and_then_eq_Ok by auto
  have "\<exists>f. s2 = s1\<lparr>fpu := f\<rparr>"
    using f by (auto simp: fpu_load_def outcome_simps split: if_splits intro: exI [of _ "fpu s1"])
  then obtain g where s2: "s2 = s1\<lparr>fpu := g\<rparr>" ..
  have "\<exists>c a. s' = s2\<lparr>cr3 := c, active_pctx := a\<rparr>\<lparr>active_thread := p\<rparr>"
  proof (cases "t_pctx (threads s2 p) \<noteq> 0 \<and> t_pctx (threads s2 p) \<noteq> active_pctx s2")
    case True
    then have "s' = (snd (pctx_load (t_pctx (threads s2 p)) s2))\<lparr>active_thread := p\<rparr>" unfolding s' by simp
    then show ?thesis unfolding pctx_load_state by blast
  next
    case False
    then have "s' = s2\<lparr>cr3 := cr3 s2, active_pctx := active_pctx s2\<rparr>\<lparr>active_thread := p\<rparr>"
      unfolding s' if_not_P [OF False] by simp
    then show ?thesis by blast
  qed
  then obtain c a where "s' = s2\<lparr>cr3 := c, active_pctx := a\<rparr>\<lparr>active_thread := p\<rparr>" by blast
  then show ?thesis unfolding s2 s1' by (rule that)
qed

text \<open>Leaving the kernel: an idle processor takes the first thread of the scheduler's queue.\<close>

lemma int_exit_sim:
  assumes "sim s A" and "int_exit s = Ok (r, s')"
  shows "sim s' (spec_dispatch A)" and "r = running (spec_dispatch A)"
proof -
  consider (active) p where "running A = Some p" "active_thread s = p" "p \<noteq> NULL"
    | (idle) "running A = None" "ready A = []" "active_thread s = NULL" "sched_head s = NULL"
    | (switch) p ps where "running A = None" "ready A = p # ps" "active_thread s = NULL" "sched_head s = p" "p \<noteq> NULL"
    using sim_queues [OF assms(1)] sim_states(1) [OF assms(1)]
    by (cases "running A"; cases "ready A") (auto simp: sched_queue_def fifo_def live_def)
  then have "sim s' (spec_dispatch A) \<and> r = running (spec_dispatch A)"
  proof cases
    case active
    then have "spec_dispatch A = A" by (simp add: spec_dispatch_def)
    with active show ?thesis using assms by (simp add: int_exit_def thread_get_active_def)
  next
    case idle
    then show ?thesis using assms by (auto simp: int_exit_def thread_get_active_def schedule_next_def spec_dispatch_def)
  next
    case (switch p ps)
    have q: "sched_queue s (p # ps)" using sim_queues(1) [OF assms(1)] switch by simp
    obtain s1 where rm: "schedule_remv p s = Ok (0, s1)" and q1: "sched_queue s1 ps" and o: "sched_only s s1"
      using schedule_remv_queue [OF q, of p] by auto
    then obtain s2 where ld: "thread_load p s1 = Ok s2"
      and s': "s' = th_upd p (\<lambda>t. t\<lparr>t_state := TS_RUNNING\<rparr>) s2" and r: "r = Some p"
      using assms(2) switch by (auto simp: int_exit_def thread_get_active_def schedule_next_def outcome_simps)
    obtain ts f c a where s2: "s2 = s1\<lparr>tss := ts, fpu := f, cr3 := c, active_pctx := a, active_thread := p\<rparr>"
      using thread_load_only [OF ld] .
    have "sim (th_upd p (\<lambda>t. t\<lparr>t_state := TS_RUNNING\<rparr>) (s1\<lparr>active_thread := p\<rparr>)) (spec_dispatch A)"
      using sim_dispatch [OF assms(1) switch(1,2) o q1] .
    moreover have "sim s' B = sim (th_upd p (\<lambda>t. t\<lparr>t_state := TS_RUNNING\<rparr>) (s1\<lparr>active_thread := p\<rparr>)) B" for B
      unfolding s' s2 by (rule sim_cong) simp_all
    ultimately show ?thesis using switch r by (simp add: spec_dispatch_def)
  qed
  then show "sim s' (spec_dispatch A)" and "r = running (spec_dispatch A)" by simp_all
qed

section \<open>Events\<close>

lemma event_wake_sim:
  assumes "sim s A" and "unat event < EV_COUNT"
  shows "\<exists>s1. (if ev_front s (unat event) \<noteq> NULL then event_wake event s else Ok s) = Ok s1 \<and>
    sim s1 (spec_wake (unat event) A) \<and> (\<forall>q. \<not> live s q \<longrightarrow> t_state (threads s1 q) = t_state (threads s q))"
proof (cases "waiting A (unat event)")
  case Nil
  then show ?thesis using sim_queues(2) [OF assms] assms(1) by (simp add: spec_wake_def ev_queue_empty)
next
  case (Cons p ps)
  then have q: "ev_queue (unat event) s (p # ps)" using sim_queues(2) [OF assms] by simp
  have "t_state (threads s p) \<noteq> TS_RUNNING" using sim_states(3) [OF assms, of p] Cons by simp
  with q have "event_wake event s =
      Ok (th_upd p (\<lambda>t. t\<lparr>t_state := TS_QUEUED\<rparr>) (schedule_push p (ev_dequeue event s)))"
    by (rule event_wake_first)
  moreover have "live s p" using sim_states(3) [OF assms, of p] Cons by simp
  ultimately show ?thesis
    using ev_queue_front [OF q] sim_wake [OF assms Cons] by (auto simp: ev_dequeue_threads)
qed

text \<open>Sending an event moves the first thread that waits for it, and nothing else, to the scheduler.\<close>

lemma event_send_sim:
  assumes "sim s A" and "unat event < EV_COUNT" and "event_send tid event s = Ok (r, s')"
  shows "r = 0 \<and> sim s' (spec_wake (unat event) A) \<and>
    (\<forall>q. \<not> live s q \<longrightarrow> t_state (threads s' q) = t_state (threads s q))"
proof -
  obtain s1 where w: "(if ev_front s (unat event) \<noteq> NULL then event_wake event s else Ok s) = Ok s1"
    and s1: "sim s1 (spec_wake (unat event) A)"
    and st: "\<And>q. \<not> live s q \<Longrightarrow> t_state (threads s1 q) = t_state (threads s q)"
    using event_wake_sim [OF assms(1,2)] by blast
  from assms(2,3) w have t: "(if unat event < 240
      then and_then (irq_mask (ucast event) s1) (\<lambda>s.
        let s = snd (irq_reset (ucast event) s) in Ok (0, s\<lparr>irqstate := (irqstate s)(unat event := 1)\<rparr>))
      else Ok (0, s1)) = Ok (r, s')"
    by (simp only: event_send_cases and_then.simps)
  show ?thesis
  proof (cases "unat event < 240")
    case True
    with t obtain s2 where m: "irq_mask (ucast event) s1 = Ok s2"
      and s': "s' = (snd (irq_reset (ucast event) s2))\<lparr>irqstate := (irqstate (snd (irq_reset (ucast event) s2)))(unat event := 1)\<rparr>"
      and r: "r = 0"
      by (auto simp: and_then_eq_Ok Let_def)
    have "sim s' (spec_wake (unat event) A)"
      unfolding s' sim_hardware irq_reset_sim irq_mask_sim [OF m] by (rule s1)
    moreover have "threads s' = threads s1"
      using m unfolding s' by (auto simp: irq_reset_def irq_mask_def irq_write_mask_def outb_def split: if_splits)
    ultimately show ?thesis using r st by simp
  next
    case False
    with t s1 st show ?thesis by simp
  qed
qed

lemma members_spec_wake: "e < EV_COUNT \<Longrightarrow> members (spec_wake e A) = members A"
  using members_split [of e A] members_split [of e "spec_wake e A"] others_waiting_cong [of e "spec_wake e A" A]
  by (auto simp: spec_wake_def split: list.splits)

text \<open>Sending an event changes neither the table of handlers nor the interrupt number of a thread.\<close>

lemma event_send_keeps:
  assumes "event_send tid event s = Ok (r, s')"
  shows "int_handler_tab s' = int_handler_tab s" and "pit_freq s' = pit_freq s" and "timer_tick s' = timer_tick s"
    and "t_num (threads s' q) = t_num (threads s q)" and "t_fxdata (threads s' q) = t_fxdata (threads s q)"
proof -
  define same where "same s1 s2 \<longleftrightarrow> int_handler_tab s2 = int_handler_tab s1 \<and> pit_freq s2 = pit_freq s1 \<and>
      timer_tick s2 = timer_tick s1 \<and> t_num (threads s2 q) = t_num (threads s1 q) \<and>
      t_fxdata (threads s2 q) = t_fxdata (threads s1 q)" for s1 s2 :: "'a thread_state_scheme"
  have deq: "same s (ev_dequeue event s)"
    by (simp add: same_def ev_dequeue_def Let_def)
  have wake: "same s s1" if w: "event_wake event s = Ok s1" for s1
  proof -
    obtain s2 where s2: "s2 = ev_dequeue event s \<or> thread_save (ev_front s (unat event)) (ev_dequeue event s) = Ok s2"
      and s1: "s1 = th_upd (ev_front s (unat event)) (\<lambda>t. t\<lparr>t_state := TS_QUEUED\<rparr>) (schedule_push (ev_front s (unat event)) s2)"
      using w by (auto simp: event_wake_eq and_then_eq_Ok split: if_splits)
    have "same s s2"
      using s2
    proof
      assume "thread_save (ev_front s (unat event)) (ev_dequeue event s) = Ok s2"
      then obtain m f where "s2 = (ev_dequeue event s)\<lparr>pmem := m, fpu := f, active_thread := NULL\<rparr>"
        by (rule thread_save_only)
      with deq show ?thesis by (simp add: same_def)
    qed (simp add: deq)
    with s1 show ?thesis by (auto simp: same_def)
  qed
  have "same s s'"
    using assms wake
    by (auto simp: event_send_def and_then_eq_Ok irq_mask_def irq_write_mask_def irq_reset_def outb_def Let_def same_def
        split: if_splits)
  then show "int_handler_tab s' = int_handler_tab s" and "pit_freq s' = pit_freq s" and "timer_tick s' = timer_tick s"
    and "t_num (threads s' q) = t_num (threads s q)" and "t_fxdata (threads s' q) = t_fxdata (threads s q)"
    by (simp_all add: same_def)
qed

lemma event_send_timer_returns:
  assumes "sim s A" and "240 \<le> unat event" and "unat event < EV_COUNT"
  shows "\<exists>s'. event_send tid event s = Ok (0, s')"
  using event_wake_sim [OF assms(1,3)] assms by (auto simp: event_send_cases)

section \<open>Timer\<close>

text \<open>The virtual timers that fire, in the order of the loop, and their events.\<close>

primrec fired :: "u32 \<Rightarrow> nat \<Rightarrow> nat \<Rightarrow> nat list" where
  "fired time 0 i = []"
| "fired time (Suc n) i =
     (if time AND push_bit (15 - i) 1 \<noteq> 0 then (255 - i) # fired time n (Suc i) else fired time n (Suc i))"

lemma vtimer_loop_sim:
  assumes "sim s A" and "i + n \<le> 16" and "vtimer_loop n i time s = Ok s'"
  shows "sim s' (fold spec_wake (fired time n i) A) \<and>
    (\<forall>q. \<not> live s q \<longrightarrow> t_state (threads s' q) = t_state (threads s q))"
  using assms
proof (induction n arbitrary: i s A)
  case 0
  then show ?case by simp
next
  case (Suc n)
  let ?on = "time AND push_bit (15 - i) 1 \<noteq> 0"
  have ev: "unat (255 - of_nat i :: u32) = 255 - i"
  proof -
    have "(255 - of_nat i :: u32) = of_nat (255 - i)" using Suc.prems(2) by (simp add: of_nat_diff)
    then show ?thesis using unat_event [of "255 - i"] by simp
  qed
  obtain s1 where s1: "(if ?on then and_then (event_send (- 1) (255 - of_nat i) s) (\<lambda>(_, s). Ok s) else Ok s) = Ok s1"
    and rest: "vtimer_loop n (Suc i) time s1 = Ok s'"
    using Suc.prems(3) by (auto simp: and_then_eq_Ok)
  have step: "sim s1 (if ?on then spec_wake (255 - i) A else A) \<and>
      (\<forall>q. \<not> live s q \<longrightarrow> t_state (threads s1 q) = t_state (threads s q))"
  proof (cases ?on)
    case True
    with s1 obtain r where "event_send (- 1) (255 - of_nat i) s = Ok (r, s1)" by (auto simp: and_then_eq_Ok)
    from event_send_sim [OF Suc.prems(1) _ this] True show ?thesis by (simp add: ev)
  next
    case False
    with s1 Suc.prems(1) show ?thesis by simp
  qed
  have live: "live s1 q = live s q" for q
    using step Suc.prems(1,2) members_spec_wake [of "255 - i" A] by (auto simp: sim_def split: if_splits)
  have "sim s' (fold spec_wake (fired time n (Suc i)) (if ?on then spec_wake (255 - i) A else A)) \<and>
      (\<forall>q. \<not> live s1 q \<longrightarrow> t_state (threads s' q) = t_state (threads s1 q))"
    using Suc.IH [OF conjunct1 [OF step] _ rest] Suc.prems(2) by simp
  then show ?case using step live by (cases ?on) simp_all
qed

lemma timer_event: "i < 16 \<Longrightarrow> unat (255 - of_nat i :: u32) = 255 - i"
proof -
  assume "i < 16"
  then have "(255 - of_nat i :: u32) = of_nat (255 - i)" by (simp add: of_nat_diff)
  then show ?thesis using unat_event [of "255 - i"] by simp
qed

lemma vtimer_loop_returns:
  assumes "sim s A" and "i + n \<le> 16"
  shows "\<exists>s'. vtimer_loop n i time s = Ok s' \<and> (\<forall>q. t_fxdata (threads s' q) = t_fxdata (threads s q))"
  using assms
proof (induction n arbitrary: i s A)
  case (Suc n)
  show ?case
  proof (cases "time AND push_bit (15 - i) 1 = 0")
    case True
    with Suc.IH [of s A "Suc i"] Suc.prems show ?thesis by simp
  next
    case False
    have e: "240 \<le> unat (255 - of_nat i :: u32)" "unat (255 - of_nat i :: u32) < EV_COUNT"
      using timer_event [of i] Suc.prems(2) by simp_all
    obtain s1 where s1: "event_send (- 1) (255 - of_nat i) s = Ok (0, s1)"
      using event_send_timer_returns [OF Suc.prems(1) e] by blast
    obtain B where "sim s1 B" using event_send_sim [OF Suc.prems(1) e(2) s1] by blast
    with Suc.IH [of s1 B "Suc i"] Suc.prems(2) obtain s2 where "vtimer_loop n (Suc i) time s1 = Ok s2"
      and "\<forall>q. t_fxdata (threads s2 q) = t_fxdata (threads s1 q)" by auto
    with False s1 event_send_keeps(5) [OF s1] show ?thesis by simp
  qed
qed simp

lemma fold_spec_wake_running [simp]: "running (fold spec_wake es A) = running A"
  by (induction es arbitrary: A) (auto simp: spec_wake_def split: list.splits)

text \<open>
  A tick releases one waiter for each virtual timer that is due, and then puts the running thread at the
  end of the line. An interrupted thread that is not running (the idle loop) is left alone.
\<close>

lemma timer_handler_sim:
  assumes "sim s A" and "timer_handler img s = Ok s'"
    and "running A = Some img \<or> running A = None \<and> \<not> live s img \<and> t_state (threads s img) \<noteq> TS_RUNNING"
  shows "sim s' (spec_preempt (fold spec_wake (fired (vtimer_mask (timer_tick s + 1) (pit_freq s)) 16 0) A))"
proof -
  let ?A = "fold spec_wake (fired (vtimer_mask (timer_tick s + 1) (pit_freq s)) 16 0) A"
  let ?s0 = "s\<lparr>timer_tick := timer_tick s + 1\<rparr>"
  have freq: "pit_freq s \<noteq> 0" using assms(2) by (auto simp: timer_handler_def Let_def)
  obtain s1 where l: "vtimer_loop 16 0 (vtimer_mask (timer_tick s + 1) (pit_freq s)) ?s0 = Ok s1"
    and t: "(let s = th_upd img (\<lambda>t. t\<lparr>t_tick := t_tick t + 1\<rparr>) s1
           in if t_state (threads s img) = TS_RUNNING
              then and_then (thread_save img s) (\<lambda>s.
                     Ok (th_upd img (\<lambda>t. t\<lparr>t_state := TS_QUEUED\<rparr>) (schedule_push img s)))
              else Ok s) = Ok s'"
    using assms(2) freq by (auto simp: timer_handler_def Let_def and_then_eq_Ok)
  have s0: "sim ?s0 A" using assms(1) by (simp add: sim_hardware)
  have s1: "sim s1 ?A" and st: "\<And>q. \<not> live s q \<Longrightarrow> t_state (threads s1 q) = t_state (threads s q)"
    using vtimer_loop_sim [OF s0 _ l] by (simp_all add: live_def)
  let ?s2 = "th_upd img (\<lambda>t. t\<lparr>t_tick := t_tick t + 1\<rparr>) s1"
  have s2: "sim ?s2 ?A" using s1 by simp
  show ?thesis
  proof (cases "running A")
    case (Some p)
    then have img: "running ?A = Some img" using assms(3) by simp
    then have "t_state (threads ?s2 img) = TS_RUNNING" using sim_states(1) [OF s2] by blast
    with t obtain s3 where "thread_save img ?s2 = Ok s3"
      and "s' = th_upd img (\<lambda>t. t\<lparr>t_state := TS_QUEUED\<rparr>) (schedule_push img s3)"
      by (auto simp: Let_def and_then_eq_Ok)
    with thread_save_sim_yield [OF s2 img] show ?thesis by simp
  next
    case None
    with assms(3) have "t_state (threads ?s2 img) \<noteq> TS_RUNNING" using st [of img] by simp
    with t have "s' = ?s2" by (simp add: Let_def)
    with s2 None show ?thesis by (simp add: spec_preempt_def)
  qed
qed


section \<open>Kernel calls\<close>

lemma kcall_yield_sim:
  assumes "sim s A" and "running A = Some img" and "kcall_yield img s = Ok s'"
  shows "sim s' (spec_preempt A)"
  using assms(3) thread_save_sim_yield [OF assms(1,2)] by (auto simp: kcall_yield_def and_then_eq_Ok)

lemma event_wait_sim:
  assumes "sim s A" and "running A = Some p" and "event_wait (t_id (threads s p)) event s = Ok (r, s')"
  shows "if unat event < EV_COUNT
    then r = 0 \<and> sim s' (if irqstate s (unat event) = 0 then spec_block (unat event) A else spec_preempt A)
    else s' = s"
proof -
  have p: "live s p" using sim_states(1) [OF assms(1,2)] by simp
  then have get: "thread_get (t_id (threads s p)) s = p" and nn: "p \<noteq> NULL"
    by (simp add: live_get, simp add: live_def)
  show ?thesis
  proof (cases "unat event < EV_COUNT")
    case False
    then show ?thesis using assms(3) get nn by (auto simp: event_wait_cases split: if_splits)
  next
    case True
    then have ns: "\<not> sint event < 0" by (simp add: sint_small)
    show ?thesis
    proof (cases "irqstate s (unat event) = 0")
      case pending: False
      then obtain s1 where "thread_save p s = Ok s1" and "r = 0"
        and "s' = th_upd p (\<lambda>t. t\<lparr>t_state := TS_QUEUED\<rparr>) (schedule_push p s1)"
        using assms(3) get nn ns True by (auto simp: event_wait_cases and_then_eq_Ok)
      with thread_save_sim_yield [OF assms(1,2)] True pending show ?thesis by simp
    next
      case idle: True
      then obtain s1 where s1: "thread_save p (ev_enqueue p event s) = Ok s1" and r: "r = 0"
        and s': "s' = th_upd p (\<lambda>t. t\<lparr>t_state := TS_WAITING\<rparr>) s1"
        using assms(3) get nn ns True by (auto simp: event_wait_cases and_then_eq_Ok)
      obtain m f where "s1 = (ev_enqueue p event s)\<lparr>pmem := m, fpu := f, active_thread := NULL\<rparr>"
        using thread_save_only [OF s1] .
      then have "sim s' B = sim (th_upd p (\<lambda>t. t\<lparr>t_state := TS_WAITING\<rparr>) ((ev_enqueue p event s)\<lparr>active_thread := NULL\<rparr>)) B" for B
        unfolding s' by (intro sim_cong) simp_all
      with sim_block [OF assms(1,2) True] True idle r show ?thesis by simp
    qed
  qed
qed

lemma kcall_wait_sim:
  assumes "sim s A" and "running A = Some img" and "kcall_wait img s = Ok s'"
  shows "sim s'
    (if unat (t_ebx (threads s img)) < EV_COUNT
     then if irqstate s (unat (t_ebx (threads s img))) = 0 then spec_block (unat (t_ebx (threads s img))) A else spec_preempt A
     else A)"
proof -
  from assms(3) obtain r s1 where w: "event_wait (t_id (threads s img)) (t_ebx (threads s img)) s = Ok (r, s1)"
    and s': "s' = set_eax img r s1"
    by (auto simp: kcall_wait_def and_then_eq_Ok)
  from event_wait_sim [OF assms(1,2) w] assms(1) show ?thesis unfolding s' by (auto split: if_splits)
qed

lemma kcall_target_live:
  assumes "sim s A" and "running A = Some img" and "kcall_target img s \<noteq> NULL"
  shows "live s (kcall_target img s)"
  using assms sim_states(1) [OF assms(1,2)] sim_thread_get(1) [OF assms(1)]
  by (auto simp: kcall_target_def split: if_splits)

text \<open>Pausing a thread that runs or is in line, and the refusals.\<close>

lemma kcall_pause_sim:
  assumes "sim s A" and "running A = Some img" and "kcall_pause img s = Ok s'"
    and "t_state (threads s (kcall_target img s)) \<noteq> TS_WAITING"
  shows "if kcall_target img s = NULL then sim s' A \<and> t_eax (threads s' img) = TE_EXIST
    else if kcall_target img s \<in> paused A then sim s' A \<and> t_eax (threads s' img) = TE_STATE
    else sim s' (spec_pause (kcall_target img s) A) \<and> t_eax (threads s' img) = 0 \<and>
      (running A = Some (kcall_target img s) \<or> kcall_target img s \<in> set (ready A))"
proof -
  let ?p = "kcall_target img s"
  consider (none) "?p = NULL"
    | (run) "?p \<noteq> NULL" "running A = Some ?p"
    | (line) "?p \<noteq> NULL" "?p \<in> set (ready A)"
    | (paused) "?p \<noteq> NULL" "?p \<in> paused A"
  proof (cases "?p = NULL")
    case False
    then have l: "live s ?p" by (rule kcall_target_live [OF assms(1,2)])
    then have "?p \<in> members A" using assms(1) unfolding sim_def by blast
    moreover have "?p \<notin> set (waiting A e)" if "e < EV_COUNT" for e
      using sim_elsewhere(3) [OF assms(1,4) that] .
    ultimately show ?thesis using False that by (auto simp: members_def)
  qed
  then show ?thesis
  proof cases
    case none
    then show ?thesis using assms(1,3) by (auto simp: kcall_pause_def Let_def set_eax_def)
  next
    case run
    have st: "t_state (threads s ?p) = TS_RUNNING" using sim_states(1) [OF assms(1) run(2)] by simp
    with run(1) obtain s1 where sv: "thread_save ?p s = Ok s1"
      and s': "s' = set_eax img 0 (th_upd ?p (\<lambda>t. t\<lparr>t_state := TS_PAUSED\<rparr>) s1)"
      using assms(3) by (auto simp: kcall_pause_def Let_def and_then_eq_Ok)
    obtain m f where s1: "s1 = s\<lparr>pmem := m, fpu := f, active_thread := NULL\<rparr>" using thread_save_only [OF sv] .
    have "sim (s\<lparr>pmem := m, fpu := f\<rparr>) A" using assms(1) by simp
    from sim_pause_running [OF this run(2)] have "sim s' (spec_pause ?p A)" unfolding s' s1 by simp
    moreover have "?p \<notin> paused A" using sim_elsewhere(4) [OF assms(1), of ?p] st by simp
    ultimately show ?thesis using run by (simp add: s' set_eax_def)
  next
    case line
    have st: "t_state (threads s ?p) = TS_QUEUED" using sim_states(2) [OF assms(1) line(2)] by simp
    obtain s1 where rm: "schedule_remv ?p s = Ok (0, s1)" and q: "sched_queue s1 (remove1 ?p (ready A))" and o: "sched_only s s1"
      using schedule_remv_queue [OF sim_queues(1) [OF assms(1)] line(2)] .
    have s': "s' = set_eax img 0 (th_upd ?p (\<lambda>t. t\<lparr>t_state := TS_PAUSED\<rparr>) s1)"
      using assms(3) line(1) st rm by (simp add: kcall_pause_def Let_def)
    have "sim s' (spec_pause ?p A)"
      unfolding s' sim_set_eax by (rule sim_pause_queued [OF assms(1) line(2) o q])
    moreover have "?p \<notin> paused A" using sim_elsewhere(4) [OF assms(1), of ?p] st by simp
    ultimately show ?thesis using line by (simp add: s' set_eax_def)
  next
    case paused
    have "t_state (threads s ?p) = TS_PAUSED" using sim_states(4) [OF assms(1) paused(2)] by simp
    then show ?thesis using assms(1,3) paused by (auto simp: kcall_pause_def Let_def set_eax_def)
  qed
qed

text \<open>Resuming a paused thread, and the refusals. (\<open>PAUSEDW\<close> does not occur: no waiting thread was paused.)\<close>

lemma kcall_resume_sim:
  assumes "sim s A" and "kcall_resume img s = Ok s'"
  defines "p \<equiv> thread_get (t_ebx (threads s img)) s"
  shows "if p = NULL then sim s' A \<and> t_eax (threads s' img) = TE_EXIST
    else if p \<in> paused A then sim s' (spec_resume p A) \<and> t_eax (threads s' img) = 0
    else sim s' A \<and> t_eax (threads s' img) = TE_STATE"
proof (cases "p = NULL")
  case True
  then show ?thesis using assms(1,2) unfolding p_def by (auto simp: kcall_resume_def Let_def set_eax_def)
next
  case nn: False
  then have l: "live s p" using sim_thread_get(1) [OF assms(1)] unfolding p_def by blast
  show ?thesis
  proof (cases "p \<in> paused A")
    case True
    have "t_state (threads s p) = TS_PAUSED" using sim_states(4) [OF assms(1) True] by simp
    then have s': "s' = set_eax img 0 (th_upd p (\<lambda>t. t\<lparr>t_state := TS_QUEUED\<rparr>) (schedule_push p s))"
      using assms(2) nn unfolding p_def by (simp add: kcall_resume_def Let_def)
    have "sim s' (spec_resume p A)" unfolding s' sim_set_eax by (rule sim_resume [OF assms(1) True])
    then show ?thesis using nn True by (simp add: s' set_eax_def)
  next
    case False
    have "p \<in> members A" using l assms(1) unfolding sim_def by blast
    then have "t_state (threads s p) \<in> {TS_RUNNING, TS_QUEUED, TS_WAITING}"
      using False sim_states(1-3) [OF assms(1)] unfolding members_def by fastforce
    then have "s' = set_eax img TE_STATE s" using assms(2) nn unfolding p_def by (auto simp: kcall_resume_def Let_def)
    then show ?thesis using nn False assms(1) by (simp add: set_eax_def)
  qed
qed

section \<open>Faults\<close>

text \<open>A thread that is handed to a debugger or reaper wakes it, as if it had been resumed.\<close>

lemma hand_over_sim:
  assumes "sim s A" and "d \<in> paused A"
  shows "sim (hand_over d n s) (spec_resume d A)"
  unfolding hand_over_def using assms by (intro sim_resume) simp_all

lemma fault_push_sim:
  assumes "sim s A" and "debug_tail s = NULL \<or> debug_tail s \<in> paused A"
  shows "sim (fault_push p s) (if debug_tail s = NULL then A else spec_resume (debug_tail s) A)"
proof (cases "debug_tail s = NULL")
  case True
  have "sim (fault_push p s) A = sim s A"
    using True by (intro sim_cong) (simp_all add: fault_push_def Let_def)
  with True assms(1) show ?thesis by simp
next
  case False
  let ?s = "s\<lparr>debug_tail := fault_next s (debug_tail s),
    debug_head := (if fault_next s (debug_tail s) = NULL then NULL else debug_head s)\<rparr>"
  have "sim ?s A = sim s A" by (intro sim_cong) simp_all
  with False assms show ?thesis by (simp add: fault_push_debugger hand_over_sim)
qed

text \<open>A thread that faults is paused, with the reason recorded, and a debugger is told.\<close>

lemma faulting_sim:
  assumes "sim s A" and "running A = Some img" and "thread_save img s = Ok s1" and "debug_tail s = NULL \<or> debug_tail s \<in> paused A"
  shows "sim (fault_push img (th_upd img (\<lambda>t. t\<lparr>t_fault_addr := addr, t_fault := v, t_state := TS_PAUSED\<rparr>) s1))
    (if debug_tail s = NULL then spec_pause img A else spec_resume (debug_tail s) (spec_pause img A))"
proof -
  obtain m f where s1: "s1 = s\<lparr>pmem := m, fpu := f, active_thread := NULL\<rparr>" using thread_save_only [OF assms(3)] .
  let ?s = "th_upd img (\<lambda>t. t\<lparr>t_fault_addr := addr, t_fault := v\<rparr>) (s\<lparr>pmem := m, fpu := f\<rparr>)"
  have "sim ?s A" using assms(1) by simp
  from sim_pause_running [OF this assms(2)]
  have "sim (th_upd img (\<lambda>t. t\<lparr>t_state := TS_PAUSED\<rparr>) (?s\<lparr>active_thread := NULL\<rparr>)) (spec_pause img A)" .
  also have "th_upd img (\<lambda>t. t\<lparr>t_state := TS_PAUSED\<rparr>) (?s\<lparr>active_thread := NULL\<rparr>) =
      th_upd img (\<lambda>t. t\<lparr>t_fault_addr := addr, t_fault := v, t_state := TS_PAUSED\<rparr>) s1"
    by (simp add: s1 th_upd_def)
  finally have "sim (th_upd img (\<lambda>t. t\<lparr>t_fault_addr := addr, t_fault := v, t_state := TS_PAUSED\<rparr>) s1) (spec_pause img A)" .
  from fault_push_sim [OF this, of img] assms(4) show ?thesis by (auto simp: s1 spec_pause_def)
qed

lemma fault_page_sim:
  assumes "sim s A" and "running A = Some img" and "debug_tail s = NULL \<or> debug_tail s \<in> paused A" and "fault_page img s = Ok s'"
  shows "sim s' (if debug_tail s = NULL then spec_pause img A else spec_resume (debug_tail s) (spec_pause img A))"
proof -
  from assms(4) obtain s1 where sv: "thread_save img s = Ok s1"
    and s': "s' = fault_push img (th_upd img (\<lambda>t. t\<lparr>t_fault_addr := cr2 s, t_fault := FV_PAGE, t_state := TS_PAUSED\<rparr>) s1)"
    by (auto simp: fault_page_def Let_def and_then_eq_Ok cpu_get_cr2_def th_upd_def debug_panic_stops split: if_splits)
  show ?thesis unfolding s' by (rule faulting_sim [OF assms(1,2) sv assms(3)])
qed

lemma fault_generic_sim:
  assumes "sim s A" and "running A = Some img" and "debug_tail s = NULL \<or> debug_tail s \<in> paused A" and "fault_generic img s = Ok s'"
  shows "sim s' (if debug_tail s = NULL then spec_pause img A else spec_resume (debug_tail s) (spec_pause img A))"
proof -
  from assms(4) obtain s1 where sv: "thread_save img s = Ok s1"
    and s': "s' = fault_push img (th_upd img (\<lambda>t. t\<lparr>t_fault := FV_ACCS\<rparr>) (th_upd img (\<lambda>t. t\<lparr>t_state := TS_PAUSED\<rparr>) s1))"
    by (auto simp: fault_generic_def Let_def and_then_eq_Ok debug_panic_stops split: if_splits)
  let ?r = "threads s1 img"
  have up: "th_upd img g (th_upd img h s1) = th_upd img k s1" if "g (h ?r) = k ?r" for g h k
    using that by (simp add: th_upd_def)
  have eq: "th_upd img (\<lambda>t. t\<lparr>t_fault := FV_ACCS\<rparr>) (th_upd img (\<lambda>t. t\<lparr>t_state := TS_PAUSED\<rparr>) s1) =
      th_upd img (\<lambda>t. t\<lparr>t_fault_addr := t_fault_addr ?r, t_fault := FV_ACCS, t_state := TS_PAUSED\<rparr>) s1"
    by (rule up) (cases ?r; simp)
  show ?thesis unfolding s' eq by (rule faulting_sim [OF assms(1,2) sv assms(3)])
qed

lemma fault_double_stops: "fault_double img s \<noteq> Ok s'"
  by (auto simp: fault_double_def and_then_eq_Ok debug_panic_stops)

section \<open>Calls that do not schedule\<close>

lemma parts_of_more:
  assumes "pctx_state.more s' = pctx_state.more s"
  shows "threads s' = threads s" "active_thread s' = active_thread s" "thread_table s' = thread_table s"
    "sched_head s' = sched_head s" "sched_tail s' = sched_tail s" "ev_front s' = ev_front s" "ev_back s' = ev_back s"
    "int_handler_tab s' = int_handler_tab s"
  using assms by (cases s; cases s'; simp)+

lemma sim_lower:
  assumes "pctx_state.more s' = pctx_state.more s"
  shows "sim s' A = sim s A"
  by (rule sim_cong) (simp_all add: parts_of_more [OF assms])

lemma machine_lower: "machine.more s' = machine.more s \<Longrightarrow> pctx_state.more s' = pctx_state.more s"
  by (intro more_up)

lemma frame_lower: "frame_state.more s' = frame_state.more s \<Longrightarrow> pctx_state.more s' = pctx_state.more s"
  by (intro pctx_more_of_heap heap_more_of_frame)

lemma store_words_keeps [keeps]: "store_words ws s = Ok s' \<Longrightarrow> machine.more s' = machine.more s"
  by (induction ws arbitrary: s) (auto simp: and_then_eq_Ok store32_def dest!: store_bytes_keeps)

lemma save_info_keeps [keeps]: "save_info d p s = Ok s' \<Longrightarrow> machine.more s' = machine.more s"
  by (auto simp: save_info_def Let_def and_then_eq_Ok store32_def split: if_splits
      dest!: store_words_keeps store_bytes_keeps vwrite8_keeps memcpy_keeps)

text \<open>The calls on pages and frames, the ones that only report, and unknown ones.\<close>

lemma paging_call_sim:
  "kcall_newpctx img s = Ok s' \<Longrightarrow> sim s' A = sim s A" "kcall_freepctx img s = Ok s' \<Longrightarrow> sim s' A = sim s A"
  "kcall_setframe img s = Ok s' \<Longrightarrow> sim s' A = sim s A" "kcall_setflags img s = Ok s' \<Longrightarrow> sim s' A = sim s A"
  "kcall_getframe img s = Ok s' \<Longrightarrow> sim s' A = sim s A" "kcall_getflags img s = Ok s' \<Longrightarrow> sim s' A = sim s A"
  "kcall_newframe img s = Ok s' \<Longrightarrow> sim s' A = sim s A" "kcall_freeframe img s = Ok s' \<Longrightarrow> sim s' A = sim s A"
  by (auto simp: kcall_newpctx_def kcall_freepctx_def kcall_setframe_def kcall_setflags_def kcall_getframe_def
      kcall_getflags_def kcall_newframe_def kcall_freeframe_def Let_def and_then_eq_Ok
      dest!: page_set_keeps [THEN frame_lower, THEN sim_lower] frame_new_keeps [THEN frame_lower, THEN sim_lower]
        frame_free_keeps [THEN frame_lower, THEN sim_lower] pctx_new_keeps [THEN sim_lower] pctx_free_keeps [THEN sim_lower])

lemma report_call_sim:
  "kcall_getstate img s = Ok s' \<Longrightarrow> sim s' A = sim s A" "kcall_unknown img s = Ok s' \<Longrightarrow> sim s' A = sim s A"
  by (auto simp: kcall_getstate_def kcall_unknown_def Let_def and_then_eq_Ok split: if_splits
      dest!: save_info_keeps [THEN machine_lower, THEN sim_lower] debug_printf_keeps [THEN machine_lower, THEN sim_lower])

text \<open>Asking for a dead or faulting thread: an answer from the queue, or the caller pauses.\<close>

lemma sim_dead_queues:
  "sim (snd (dead_pull s)) A = sim s A" "sim (snd (fault_pull s)) A = sim s A"
  by (rule sim_cong; simp add: dead_pull_def fault_pull_def Let_def)+

lemma sim_wait_queues:
  "dead_tail s = NULL \<Longrightarrow> sim (dead_wait p s) A = sim s A" "fault_tail s = NULL \<Longrightarrow> sim (fault_wait p s) A = sim s A"
  by (rule sim_cong; simp add: dead_wait_def fault_wait_def Let_def)+

lemma thread_save_pause_sim:
  assumes "sim s A" and "running A = Some p" and "thread_save p s = Ok s1"
  shows "sim (th_upd p (\<lambda>t. t\<lparr>t_state := TS_PAUSED\<rparr>) s1) (spec_pause p A)"
proof -
  obtain m f where s1: "s1 = s\<lparr>pmem := m, fpu := f, active_thread := NULL\<rparr>" using thread_save_only [OF assms(3)] .
  have "sim (s\<lparr>pmem := m, fpu := f\<rparr>) A" using assms(1) by simp
  from sim_pause_running [OF this assms(2)] show ?thesis by (simp add: s1)
qed

lemma service_call_sim:
  assumes "sim s A" and "running A = Some img"
  shows "kcall_getdead img s = Ok s' \<Longrightarrow> sim s' A \<or> sim s' (spec_pause img A)"
    and "kcall_getfault img s = Ok s' \<Longrightarrow> sim s' A \<or> sim s' (spec_pause img A)"
proof -
  show "sim s' A \<or> sim s' (spec_pause img A)" if r: "kcall_getdead img s = Ok s'"
  proof (cases "dead_tail s = NULL")
    case True
    with r obtain s1 where s1: "thread_save img s = Ok s1"
      and s': "s' = dead_wait img (th_upd img (\<lambda>t. t\<lparr>t_state := TS_PAUSED\<rparr>) s1)"
      by (auto simp: kcall_getdead_def dead_peek_def and_then_eq_Ok)
    obtain m f where "s1 = s\<lparr>pmem := m, fpu := f, active_thread := NULL\<rparr>" using thread_save_only [OF s1] .
    then have "dead_tail s1 = NULL" using True by simp
    then show ?thesis using thread_save_pause_sim [OF assms s1] by (simp add: s' sim_wait_queues)
  next
    case False
    then show ?thesis using r assms(1) sim_dead_queues(1) [of s A] by (auto simp: kcall_getdead_def dead_peek_def split: prod.splits)
  qed
  show "sim s' A \<or> sim s' (spec_pause img A)" if r: "kcall_getfault img s = Ok s'"
  proof (cases "fault_tail s = NULL")
    case True
    with r obtain s1 where s1: "thread_save img s = Ok s1"
      and s': "s' = fault_wait img (th_upd img (\<lambda>t. t\<lparr>t_state := TS_PAUSED\<rparr>) s1)"
      by (auto simp: kcall_getfault_def fault_peek_def and_then_eq_Ok)
    obtain m f where "s1 = s\<lparr>pmem := m, fpu := f, active_thread := NULL\<rparr>" using thread_save_only [OF s1] .
    then have "fault_tail s1 = NULL" using True by simp
    then show ?thesis using thread_save_pause_sim [OF assms s1] by (simp add: s' sim_wait_queues)
  next
    case False
    then show ?thesis using r assms(1) sim_dead_queues(2) [of s A] by (auto simp: kcall_getfault_def fault_peek_def split: prod.splits)
  qed
qed

end
