(* ===== verification/Lifecycle.thy ===== *)
theory Lifecycle
  imports Refine
begin

text \<open>
  Creation, editing and destruction of threads (\<open>KCALL_SPAWN\<close>, \<open>KCALL_SETSTATE\<close> and \<open>KCALL_REAP\<close> of
  \<open>src/kernel/kcall.c\<close>) as moves of the abstract scheduler: a new thread joins the line for the
  processor, a thread that is declared dead pauses and wakes a reaper, and a paused thread that is
  reaped is gone.
\<close>

section \<open>The moves\<close>

definition spec_spawn :: "ptr \<Rightarrow> sched_spec \<Rightarrow> sched_spec" where
  "spec_spawn p A = A\<lparr>ready := ready A @ [p]\<rparr>"

definition spec_reap :: "ptr \<Rightarrow> sched_spec \<Rightarrow> sched_spec" where
  "spec_reap p A = A\<lparr>paused := paused A - {p}\<rparr>"

text \<open>A death: the thread stops if it was running, and the first reaper in line is woken.\<close>

definition spec_die :: "ptr \<Rightarrow> ptr \<Rightarrow> sched_spec \<Rightarrow> sched_spec" where
  "spec_die p reaper A =
     (let B = (if running A = Some p then spec_pause p A else A)
      in if reaper = NULL then B else spec_resume reaper B)"

lemma sim_table:
  assumes "sim s A" and "i < THREAD_COUNT" and "thread_table s i \<noteq> NULL"
  shows "live s (thread_table s i)" and "t_id (threads s (thread_table s i)) = of_nat i"
proof -
  show "t_id (threads s (thread_table s i)) = of_nat i" using assms by (simp add: sim_def)
  then show "live s (thread_table s i)" using assms(2,3) by (simp add: live_def unat_of_nat)
qed

section \<open>Structures that are not threads\<close>

lemma members_live: "sim s A \<Longrightarrow> p \<in> members A \<longleftrightarrow> live s p"
  unfolding sim_def by blast

lemma not_live_elsewhere:
  assumes "sim s A" and "\<not> live s p"
  shows "p \<notin> set (ready A)" and "running A \<noteq> Some p" and "p \<notin> paused A" and "\<And>e. e < EV_COUNT \<Longrightarrow> p \<notin> set (waiting A e)"
  using assms sim_states [OF assms(1)] by blast+

text \<open>What is stored at an address that is not a thread does not matter.\<close>

lemma sim_not_live:
  assumes "sim s A" and "\<not> live s p"
  shows "sim (s\<lparr>threads := (threads s)(p := t)\<rparr>) A" (is "sim ?s A")
proof -
  note away = not_live_elsewhere [OF assms]
  have table: "thread_table s i \<noteq> p" if "i < THREAD_COUNT" "thread_table s i \<noteq> NULL" for i
    using sim_table(1) [OF assms(1) that] assms(2) by auto
  have "live ?s q = live s q" for q
    using table [of "unat (t_id t)"] assms(2) by (cases "q = p") (auto simp: live_def)
  then have l: "{q. live ?s q} = members A" using members_live [OF assms(1)] by blast
  have "next_of ?s x = next_of s x" if "x \<in> set (ready A)" for x using that away(1) by auto
  then have q: "sched_queue ?s (ready A)"
    using sim_queues(1) [OF assms(1)] fifo_cong [of "ready A" "next_of ?s" "next_of s"] by (simp add: sched_queue_def)
  have w: "ev_queue e ?s (waiting A e)" if "e < EV_COUNT" for e
  proof -
    have "ev_next ?s x = ev_next s x" if "x \<in> set (waiting A e)" for x using that away(4) [OF \<open>e < EV_COUNT\<close>] by auto
    then show ?thesis
      using sim_queues(2) [OF assms(1) that] fifo_cong [of "waiting A e" "ev_next ?s" "ev_next s"] by (simp add: ev_queue_def)
  qed
  show ?thesis
    unfolding sim_def
  proof (intro conjI allI ballI impI)
    show "t_id (threads ?s (thread_table ?s i)) = of_nat i" if "i < THREAD_COUNT" "thread_table ?s i \<noteq> NULL" for i
      using that table [of i] sim_table(2) [OF assms(1), of i] by simp
  qed (use l q w away sim_queues(3) [OF assms(1)] sim_states [OF assms(1)] in auto)
qed

text \<open>A new entry of the thread table, for a structure that is paused.\<close>

lemma sim_enter:
  assumes "sim s A" and "\<not> live s p" and "p \<noteq> NULL" and "i < THREAD_COUNT" and "thread_table s i = NULL"
    and "t_id (threads s p) = of_nat i" and "t_state (threads s p) = TS_PAUSED"
  shows "sim (s\<lparr>thread_table := (thread_table s)(i := p)\<rparr>) (A\<lparr>paused := insert p (paused A)\<rparr>)" (is "sim ?s ?A")
proof -
  have i: "unat (of_nat i :: u32) = i" using assms(4) by (simp add: unat_of_nat)
  have "live ?s q \<longleftrightarrow> live s q \<or> q = p" for q
    using assms(2-6) i by (auto simp: live_def)
  then have l: "{q. live ?s q} = members ?A" using members_live [OF assms(1)] by (auto simp: members_def)
  have q: "sched_queue ?s (ready A)" and w: "\<And>e. e < EV_COUNT \<Longrightarrow> ev_queue e ?s (waiting A e)"
    using sim_queues(1,2) [OF assms(1)] by (simp_all add: sched_queue_def ev_queue_def)
  show ?thesis
    unfolding sim_def
  proof (intro conjI allI ballI impI)
    show "t_id (threads ?s (thread_table ?s j)) = of_nat j" if "j < THREAD_COUNT" "thread_table ?s j \<noteq> NULL" for j
      using that assms(6) sim_table(2) [OF assms(1), of j] by (cases "j = i") auto
  qed (use l q w assms(7) sim_queues(3) [OF assms(1)] sim_states [OF assms(1)] in auto)
qed

text \<open>An entry that is cleared, of a paused thread.\<close>

lemma sim_leave:
  assumes "sim s A" and "p \<in> paused A"
  shows "sim (s\<lparr>thread_table := (thread_table s)(unat (t_id (threads s p)) := NULL)\<rparr>) (spec_reap p A)" (is "sim ?s ?A")
proof -
  have p: "t_state (threads s p) = TS_PAUSED" "live s p" using sim_states(4) [OF assms] by simp_all
  have places: "running A \<noteq> Some p" "p \<notin> set (ready A)" "\<And>e. e < EV_COUNT \<Longrightarrow> p \<notin> set (waiting A e)"
    using sim_elsewhere [OF assms(1), of p] p(1) by simp_all
  have "live ?s q \<longleftrightarrow> live s q \<and> q \<noteq> p" for q
    using p(2) by (auto simp: live_def)
  then have l: "{q. live ?s q} = members ?A"
    using members_live [OF assms(1)] places by (auto simp: members_def spec_reap_def)
  have q: "sched_queue ?s (ready A)" and w: "\<And>e. e < EV_COUNT \<Longrightarrow> ev_queue e ?s (waiting A e)"
    using sim_queues(1,2) [OF assms(1)] by (simp_all add: sched_queue_def ev_queue_def)
  have f: "running ?A = running A" "ready ?A = ready A" "waiting ?A = waiting A" "paused ?A = paused A - {p}"
    by (simp_all add: spec_reap_def)
  show ?thesis
    unfolding sim_def f l
  proof (intro conjI allI ballI impI)
    show "t_id (threads ?s (thread_table ?s j)) = of_nat j" if "j < THREAD_COUNT" "thread_table ?s j \<noteq> NULL" for j
      using that sim_table(2) [OF assms(1), of j] by (auto split: if_splits)
  qed (use q w sim_queues(3) [OF assms(1)] sim_states [OF assms(1)] in auto)
qed

section \<open>Creation\<close>

text \<open>The heap hands out a block for a new thread that is not the structure of one that lives.\<close>

definition fresh_thread :: "'a thread_state_scheme \<Rightarrow> bool" where
  "fresh_thread s \<longleftrightarrow> (\<forall>p s'. heap_alloc sizeof_thread s = Ok (p, s') \<longrightarrow> \<not> live s p)"

lemma thread_new_sim:
  assumes "sim s A" and "fresh_thread s" and "thread_new s = Ok (r, s')"
  shows "r = - 1 \<and> sim s' A \<or>
    (\<exists>p i. p \<notin> members A \<and> i < THREAD_COUNT \<and> r = of_nat i \<and> thread_get r s' = p \<and> threads s' p = zero_thread\<lparr>t_id := of_nat i, t_state := TS_PAUSED\<rparr> \<and>
      (\<forall>q. q \<noteq> p \<longrightarrow> threads s' q = threads s q) \<and> sim s' (A\<lparr>paused := insert p (paused A)\<rparr>))"
proof -
  obtain p s1 where a: "thread_alloc s = Ok (p, s1)"
    and n: "(if p = NULL then and_then (debug_printf (''error: thread table full'' @ [newline]) [] s1) (\<lambda>s. Ok (- 1, s))
       else Ok (t_id (threads s1 p), s1)) = Ok (r, s')"
    using assms(3) by (auto simp: thread_new_def and_then_eq_Ok split del: if_split)
  obtain th h s0 where th: "th \<noteq> NULL" "heap_alloc sizeof_thread s = Ok (th, s0)" and m: "heap_state.more h = heap_state.more s"
    and e: "Ok (p, s1) = (case thread_find_free THREAD_COUNT 0 (thread_table s) of
         None \<Rightarrow> Ok (NULL, h\<lparr>threads := (threads s)(th := zero_thread)\<rparr>)
       | Some i \<Rightarrow> Ok (th, h\<lparr>threads := (threads s)(th := zero_thread\<lparr>t_id := of_nat i, t_state := TS_PAUSED\<rparr>),
           thread_table := (thread_table s)(i := th)\<rparr>))"
    using thread_alloc_block [OF a] .
  have dead: "\<not> live s th" using assms(2) th(2) unfolding fresh_thread_def by blast
  note parts = thread_parts_of_heap [OF m]
  have sim_h: "sim h A" using assms(1) sim_lower [OF pctx_more_of_heap [OF m]] by simp
  have dead_h: "\<not> live h th" using dead by (simp add: live_def parts)
  show ?thesis
  proof (cases "thread_find_free THREAD_COUNT 0 (thread_table s)")
    case None
    with e have "p = NULL" and s1: "s1 = h\<lparr>threads := (threads h)(th := zero_thread)\<rparr>" by (simp_all add: parts)
    with n have r: "r = - 1" and "debug_printf (''error: thread table full'' @ [newline]) [] s1 = Ok s'"
      by (auto simp: and_then_eq_Ok)
    then have "sim s' A = sim s1 A" by (intro sim_lower machine_lower debug_printf_keeps)
    with r sim_not_live [OF sim_h dead_h] show ?thesis unfolding s1 by simp
  next
    case (Some i)
    let ?t = "zero_thread\<lparr>t_id := of_nat i, t_state := TS_PAUSED\<rparr>"
    let ?h = "h\<lparr>threads := (threads h)(th := ?t)\<rparr>"
    have i: "i < THREAD_COUNT" "thread_table s i = NULL" using thread_find_free_Some [OF Some] by simp_all
    then have u: "unat (of_nat i :: u32) = i" by (simp add: unat_of_nat)
    have p: "p = th" and s1: "s1 = ?h\<lparr>thread_table := (thread_table ?h)(i := th)\<rparr>"
      using e Some by (simp_all add: parts)
    then have r: "r = of_nat i" and s': "s' = s1" using n th(1) by auto
    have simh: "sim ?h A" by (rule sim_not_live [OF sim_h dead_h])
    moreover have "\<not> live ?h th"
      using members_live [OF simh] members_live [OF sim_h] dead_h by blast
    ultimately have "sim s1 (A\<lparr>paused := insert th (paused A)\<rparr>)"
      unfolding s1 by (rule sim_enter) (use th(1) i in \<open>simp_all add: parts\<close>)
    moreover have "th \<notin> members A" using members_live [OF assms(1)] dead by simp
    moreover have "thread_get r s' = th" unfolding s' r s1 using i(1) u by (simp add: thread_get_eq)
    moreover have "threads s' th = ?t \<and> (\<forall>q. q \<noteq> th \<longrightarrow> threads s' q = threads s q)" unfolding s' s1 by (simp add: parts)
    ultimately show ?thesis using i(1) r unfolding s' by blast
  qed
qed

lemma schedule_push_upd:
  assumes "\<And>t n. f (t\<lparr>t_next := n\<rparr>) = (f t)\<lparr>t_next := n\<rparr>"
  shows "schedule_push q (th_upd p f s) = th_upd p f (schedule_push q s)"
  by (cases s) (auto simp: schedule_push_def th_upd_def Let_def assms fun_eq_iff)

lemma thread_number_ok:
  assumes "i < THREAD_COUNT"
  shows "(of_nat i :: u32) \<noteq> - 1"
proof
  assume "(of_nat i :: u32) = - 1"
  then have "unat (of_nat i :: u32) = unat (- 1 :: u32)" by simp
  with assms show False by (simp add: unat_of_nat unsigned_minus_1_eq_mask mask_eq_exp_minus_1)
qed

text \<open>A paused thread that has just been made gets its registers and joins the line.\<close>

lemma sim_spawn:
  assumes "sim s (A\<lparr>paused := insert p (paused A)\<rparr>)" and "p \<notin> members A"
    and "\<And>t n. f (t\<lparr>t_next := n\<rparr>) = (f t)\<lparr>t_next := n\<rparr>" and "\<And>t. t_next (f t) = t_next t"
    and "\<And>t. t_next_evqueue (f t) = t_next_evqueue t" and "\<And>t. t_event (f t) = t_event t" and "\<And>t. t_id (f t) = t_id t"
    and "\<And>t. t_state (f t) = TS_QUEUED"
  shows "sim (schedule_push p (th_upd p f s)) (spec_spawn p A)"
proof -
  let ?A = "A\<lparr>paused := insert p (paused A)\<rparr>" and ?s = "schedule_push p s"
  have e: "schedule_push p (th_upd p f s) = th_upd p f ?s" by (rule schedule_push_upd) (rule assms(3))
  have "sim (th_upd p f ?s) (spec_resume p ?A) = sim (th_upd p (\<lambda>t. t\<lparr>t_state := TS_QUEUED\<rparr>) ?s) (spec_resume p ?A)"
    by (rule sim_cong) (simp_all add: assms(4-8))
  moreover have "p \<in> paused ?A" by simp
  ultimately have "sim (th_upd p f ?s) (spec_resume p ?A)" using sim_resume [OF assms(1)] by blast
  moreover have "spec_resume p ?A = spec_spawn p A"
    using assms(2) by (simp add: spec_resume_def spec_spawn_def members_def)
  ultimately show ?thesis unfolding e by simp
qed

lemma kcall_spawn_sim:
  assumes "sim s A" and "fresh_thread s" and "kcall_spawn img s = Ok s'"
  shows "sim s' A \<or> (\<exists>p. p \<notin> members A \<and> sim s' (spec_spawn p A))"
proof -
  obtain r s1 where n: "thread_new s = Ok (r, s1)" using assms(3) by (auto simp: kcall_spawn_def and_then_eq_Ok)
  from thread_new_sim [OF assms(1,2) n] show ?thesis
  proof (elim disjE exE conjE)
    assume "r = - 1" and "sim s1 A"
    then show ?thesis using assms(3) n by (auto simp: kcall_spawn_def)
  next
    fix p i
    assume p: "p \<notin> members A" "i < THREAD_COUNT" "r = of_nat i" "thread_get r s1 = p"
      and sim1: "sim s1 (A\<lparr>paused := insert p (paused A)\<rparr>)"
    have "r \<noteq> - 1" unfolding p(3) by (rule thread_number_ok [OF p(2)])
    then obtain v_esp v_eip v_ebp v_esi v_edi v_edx v_ecx v_ebx v_eax where s': "s' = set_eax img r (schedule_push p
        (th_upd p (\<lambda>t. t\<lparr>t_useresp := v_esp, t_esp := p + off_num, t_ss := 0x21,
                     t_ds := 0x21, t_cs := 0x19, t_eflags := t_eflags (threads s1 img), t_eip := v_eip,
                     t_ebp := v_ebp, t_esi := v_esi, t_edi := v_edi, t_edx := v_edx, t_ecx := v_ecx,
                     t_ebx := v_ebx, t_eax := v_eax, t_state := TS_QUEUED\<rparr>) s1))"
      using assms(3) n p(4) by (auto simp: kcall_spawn_def and_then_eq_Ok Let_def)
    have "sim s' (spec_spawn p A)" unfolding s' sim_set_eax by (rule sim_spawn [OF sim1 p(1)]) simp_all
    with p(1) show ?thesis by blast
  qed
qed

section \<open>Destruction\<close>

lemma heap_lower: "heap_state.more s' = heap_state.more s \<Longrightarrow> sim s' A = sim s A"
  by (intro sim_lower pctx_more_of_heap)

lemma thread_kill_sim:
  assumes "sim s A" and "p \<in> paused A" and "thread_kill p s = Ok s'"
  shows "sim s' (spec_reap p A)"
proof -
  let ?s = "s\<lparr>thread_table := (thread_table s)(unat (t_id (threads s p)) := NULL)\<rparr>"
  obtain s1 where f: "(if t_fxdata (threads s p) \<noteq> NULL
        then and_then (heap_free (t_fxdata (threads s p)) 512 ?s) (\<lambda>s. Ok (th_upd p (\<lambda>t. t\<lparr>t_fxdata := NULL\<rparr>) s))
        else Ok ?s) = Ok s1"
    and s': "heap_free p sizeof_thread s1 = Ok s'"
    using assms(3) by (auto simp: thread_kill_def Let_def and_then_eq_Ok split: if_splits)
  have "sim s1 B = sim ?s B" for B
    using f by (auto simp: and_then_eq_Ok split: if_splits dest!: heap_free_keeps [THEN heap_lower])
  moreover have "sim s' B = sim s1 B" for B using heap_free_keeps [OF s'] by (rule heap_lower)
  ultimately show ?thesis using sim_leave [OF assms(1,2)] by simp
qed

lemma kcall_reap_sim:
  assumes "sim s A" and "kcall_reap img s = Ok s'"
  shows "sim s' A \<or> (\<exists>p \<in> paused A. sim s' (spec_reap p A))"
proof -
  let ?p = "thread_get (t_ebx (threads s img)) s"
  have nn: "?p \<noteq> NULL" using assms(2) by (auto simp: kcall_reap_def Let_def)
  then have l: "live s ?p" by (rule sim_thread_get(1) [OF assms(1)])
  show ?thesis
  proof (cases "t_state (threads s ?p) = TS_PAUSED")
    case True
    then have p: "?p \<in> paused A" using sim_place(4) [OF assms(1) l] by simp
    obtain s1 where i: "(if t_ecx (threads s img) \<noteq> NULL then save_info (t_ecx (threads s img)) ?p s else Ok s) = Ok s1"
      and k: "thread_kill ?p (set_eax img 0 s1) = Ok s'"
      using assms(2) nn True by (auto simp: kcall_reap_def Let_def and_then_eq_Ok)
    have "sim s1 A"
      using i assms(1) by (auto split: if_splits dest!: save_info_keeps [THEN machine_lower, THEN sim_lower])
    then have "sim s' (spec_reap ?p A)" using thread_kill_sim [OF _ p k] by simp
    with p show ?thesis by blast
  next
    case False
    then show ?thesis using assms nn by (auto simp: kcall_reap_def Let_def)
  qed
qed

section \<open>Editing\<close>

lemma dead_push_sim:
  assumes "sim s A" and "reaper_tail s = NULL \<or> reaper_tail s \<in> paused A"
  shows "sim (dead_push p s) (if reaper_tail s = NULL then A else spec_resume (reaper_tail s) A)"
proof (cases "reaper_tail s = NULL")
  case True
  have "sim (dead_push p s) A = sim s A"
    using True by (intro sim_cong) (simp_all add: dead_push_def Let_def)
  with True assms(1) show ?thesis by simp
next
  case False
  let ?s = "s\<lparr>reaper_tail := dead_next s (reaper_tail s),
    reaper_head := (if dead_next s (reaper_tail s) = NULL then NULL else reaper_head s)\<rparr>"
  have "sim ?s A = sim s A" by (intro sim_cong) simp_all
  with False assms show ?thesis by (simp add: dead_push_reaper hand_over_sim)
qed

lemma sim_pctx_load [simp]: "sim (snd (pctx_load c s)) A = sim s A"
  unfolding pctx_load_state by (rule sim_cong) simp_all

lemma set_registers_sim:
  assumes "set_registers p src s = Ok s'"
  shows "sim s' A = sim s A"
proof -
  obtain v_edi v_esi v_ebp v_esp v_ebx v_edx v_ecx v_eax v_eip v_eflags s2 where
    a: "(let s = th_upd p (\<lambda>t. t\<lparr>t_edi := v_edi, t_esi := v_esi, t_ebp := v_ebp, t_useresp := v_esp,
             t_ebx := v_ebx, t_edx := v_edx, t_ecx := v_ecx, t_eax := v_eax, t_eip := v_eip,
             t_eflags := v_eflags\<rparr>) s
         in if t_fxdata (threads s p) = NULL
            then and_then (heap_alloc 512 s) (\<lambda>(q, s). Ok (th_upd p (\<lambda>t. t\<lparr>t_fxdata := q\<rparr>) s)) else Ok s) = Ok s2"
    and c: "memcpy (t_fxdata (threads s2 p)) (src + off_fxdata) 512 s2 = Ok s'"
    using assms by (auto simp: set_registers_def and_then_eq_Ok Let_def split del: if_split)
  have "sim s' A = sim s2 A" using c by (intro sim_lower machine_lower memcpy_keeps)
  also have "\<dots> = sim s A"
    using a by (auto simp: Let_def and_then_eq_Ok split: if_splits dest!: heap_alloc_keeps [THEN heap_lower])
  finally show ?thesis .
qed

text \<open>The death of a thread that runs or is paused, the first part of \<open>KCALL_SETSTATE\<close>.\<close>

lemma set_dead_sim:
  assumes "sim s A" and "p \<in> paused A \<or> running A = Some p" and "reaper_tail s = NULL \<or> reaper_tail s \<in> paused A"
    and "set_dead p src s = Ok s'"
  shows "sim s' A \<or> sim s' (spec_die p (reaper_tail s) A)"
proof -
  obtain flags where d: "(if flags AND TF_DEAD \<noteq> 0 then
      and_then (if t_state (threads s p) = TS_RUNNING
          then and_then (thread_save p s) (\<lambda>s. Ok (th_upd p (\<lambda>t. t\<lparr>t_state := TS_PAUSED\<rparr>) s)) else Ok s) (\<lambda>s. Ok (dead_push p s))
      else Ok s) = Ok s'"
    using assms(4) that unfolding set_dead_def by (elim and_thenE) blast
  consider (no) "s' = s" | (run) s1 where "running A = Some p" "thread_save p s = Ok s1"
      "s' = dead_push p (th_upd p (\<lambda>t. t\<lparr>t_state := TS_PAUSED\<rparr>) s1)"
    | (paused) "running A \<noteq> Some p" "s' = dead_push p s"
    using d assms(2) sim_states(1,4) [OF assms(1), of p] by (auto simp: and_then_eq_Ok split: if_splits)
  then show ?thesis
  proof cases
    case no
    with assms(1) show ?thesis by simp
  next
    case run
    have "reaper_tail s1 = reaper_tail s" by (rule thread_save_only [OF run(2)]) simp
    then show ?thesis
      using dead_push_sim [OF thread_save_pause_sim [OF assms(1) run(1,2)], of p] run assms(3)
      by (auto simp: spec_die_def Let_def spec_pause_def)
  next
    case paused
    then show ?thesis using dead_push_sim [OF assms(1,3), of p] by (auto simp: spec_die_def)
  qed
qed

lemma set_info_sim:
  assumes "set_info p src s = Ok s'"
  shows "sim s' A = sim s A"
proof -
  obtain c s1 s2 ip sp where "s1 = (if t_pctx (threads s p) \<noteq> c then snd (pctx_load c s) else s)"
    and s2: "\<exists>x y z. (let s = th_upd p (\<lambda>t. t\<lparr>t_pctx := x, t_flags := y, t_fault := z\<rparr>) s1
      in if t_state (threads s p) \<noteq> TS_RUNNING then set_registers p src s else Ok s) = Ok s2"
    and s': "s' = th_upd p (\<lambda>t. t\<lparr>t_usr_eip := ip, t_usr_esp := sp\<rparr>) s2"
    using assms unfolding set_info_def Let_def by (elim and_thenE) blast
  then have "sim s1 A = sim s A" by simp
  moreover have "sim s2 A = sim s1 A" using s2 by (auto simp: Let_def split: if_splits dest!: set_registers_sim [where A = A])
  ultimately show ?thesis by (simp add: s')
qed

lemma kcall_setstate_sim:
  assumes "sim s A" and "running A = Some img" and "reaper_tail s = NULL \<or> reaper_tail s \<in> paused A"
    and "kcall_setstate img s = Ok s'"
  shows "sim s' A \<or> (\<exists>p. (p \<in> paused A \<or> running A = Some p) \<and> sim s' (spec_die p (reaper_tail s) A))"
proof -
  let ?p = "kcall_target img s" and ?src = "t_ecx (threads s img)"
  consider (no) e where "s' = set_eax img e s"
    | (set) s1 s2 where "?p \<noteq> NULL" "t_state (threads s ?p) \<in> {TS_PAUSED, TS_PAUSEDW, TS_RUNNING}"
      "set_dead ?p ?src s = Ok s1" "set_info ?p ?src s1 = Ok s2" "s' = set_eax img 0 s2"
    using assms(4) by (auto simp: kcall_setstate_def Let_def and_then_eq_Ok split: if_splits)
  then show ?thesis
  proof cases
    case no
    with assms(1) show ?thesis by simp
  next
    case set
    have "live s ?p" by (rule kcall_target_live [OF assms(1,2) set(1)])
    then have "?p \<in> members A" by (simp add: members_live [OF assms(1)])
    then have place: "?p \<in> paused A \<or> running A = Some ?p"
      using set(2) sim_elsewhere(2,3) [OF assms(1), of ?p] by (fastforce simp: members_def)
    from set_dead_sim [OF assms(1) place assms(3) set(3)] place show ?thesis
      using set_info_sim [OF set(4)] by (auto simp: set(5))
  qed
qed

section \<open>A new thread\<close>

lemma fresh_thread_block:
  assumes "block_at s 6 ls" and "\<not> live s (heap_bucket s 6)"
  shows "fresh_thread s"
proof -
  obtain s1 where "heap_alloc sizeof_thread s = Ok (heap_bucket s 6, s1)"
    by (rule heap_alloc_ready [of s sizeof_thread ls, unfolded thread_buckets]) (use assms(1) in simp_all)
  with assms(2) show ?thesis by (simp add: fresh_thread_def)
qed

lemma readable_part:
  assumes "readable s p ls" and "k + n \<le> length ls"
  shows "readable s (p + of_nat k) (take n (drop k ls))"
proof -
  have "readable s p (take k ls @ take n (drop k ls) @ drop n (drop k ls))" using assms(1) by (metis append_take_drop_id)
  with assms(2) show ?thesis by (simp add: readable_append)
qed

lemma spares_load32_part:
  assumes "spares L s s'" and "readable s p ls" and "set ls \<inter> L = {}" and "k + 4 \<le> length ls"
  shows "\<exists>v. load32 (p + of_nat k) s = Ok v \<and> load32 (p + of_nat k) s' = Ok v"
proof -
  note r = readable_part [OF assms(2,4)]
  have len: "length (take 4 (drop k ls)) = 4" using assms(4) by simp
  moreover have "set (take 4 (drop k ls)) \<inter> L = {}" using assms(3) by (meson disjoint_iff in_set_dropD in_set_takeD)
  ultimately have "load32 (p + of_nat k) s' = load32 (p + of_nat k) s" by (rule spares_load32 [OF assms(1) r])
  with load32_readable [OF r len] show ?thesis by simp
qed

lemma thread_new_spares:
  assumes "block_at s 6 ls" and "block_at s 7 ks" and "i < THREAD_COUNT" and "thread_table s i = NULL"
    and "\<And>j. j < i \<Longrightarrow> thread_table s j \<noteq> NULL"
  shows "\<exists>s'. thread_new s = Ok (of_nat i, s') \<and> spares (set ls \<union> set ks) s s'"
proof -
  obtain p s1 where a: "thread_alloc s = Ok (p, s1)" "spares (set ls \<union> set ks) s s1" using thread_alloc_returns assms(1,2) by blast
  have f: "thread_find_free THREAD_COUNT 0 (thread_table s) = Some i"
    using thread_find_free_first [of 0 i THREAD_COUNT] assms(3-5) by simp
  have "p \<noteq> NULL" by (rule thread_alloc_heap [OF a(1)]) (use f in auto)
  then have n: "thread_new s = Ok (t_id (threads s1 p), s1)" using a(1) by (simp add: thread_new_def)
  have "t_id (threads s1 p) = of_nat i" by (rule thread_new_first [OF n assms(3-5)])
  with n a(2) show ?thesis by simp
qed

lemma spawn_new:
  assumes "sim s A" and "block_at s 6 ls" and "block_at s 7 ks" and "\<not> live s (heap_bucket s 6)"
    and "i < THREAD_COUNT" and "thread_table s i = NULL" and "\<And>j. j < i \<Longrightarrow> thread_table s j \<noteq> NULL"
  obtains p s1 where "thread_new s = Ok (of_nat i, s1)" and "spares (set ls \<union> set ks) s s1" and "p \<notin> members A"
    and "thread_get (of_nat i) s1 = p" and "threads s1 p = zero_thread\<lparr>t_id := of_nat i, t_state := TS_PAUSED\<rparr>"
    and "\<And>q. q \<noteq> p \<Longrightarrow> threads s1 q = threads s q" and "sim s1 (A\<lparr>paused := insert p (paused A)\<rparr>)"
proof -
  obtain s1 where n: "thread_new s = Ok (of_nat i, s1)" "spares (set ls \<union> set ks) s s1"
    using thread_new_spares [OF assms(2,3,5-7)] by blast
  have "(of_nat i :: u32) \<noteq> - 1" by (rule thread_number_ok [OF assms(5)])
  then obtain p j where "p \<notin> members A" "j < THREAD_COUNT" "(of_nat i :: u32) = of_nat j" "thread_get (of_nat i) s1 = p"
      "threads s1 p = zero_thread\<lparr>t_id := of_nat j, t_state := TS_PAUSED\<rparr>" "\<forall>q. q \<noteq> p \<longrightarrow> threads s1 q = threads s q"
      "sim s1 (A\<lparr>paused := insert p (paused A)\<rparr>)"
    using thread_new_sim [OF assms(1) fresh_thread_block [OF assms(2,4)] n(1)] by blast
  with n that show thesis by simp
qed

section \<open>Properties\<close>

text \<open>
  C20: A new thread: when the heap has free blocks, apart from the structures of the threads, and the caller's description is mapped to other memory, \<open>KCALL_SPAWN\<close>
  returns the smallest free number; the thread of this number is new, waits at the end of the line for the processor, and
  starts in ring 1 with the registers that the description holds and the flags of the caller.
\<close>

theorem spawn_starts_thread:
  assumes "sim s A" and "running A = Some img" and "block_at s 6 ls" and "block_at s 7 ks" and "\<not> live s (heap_bucket s 6)"
    and "i < THREAD_COUNT" and "thread_table s i = NULL" and "\<And>j. j < i \<Longrightarrow> thread_table s j \<noteq> NULL"
    and "src = t_ebx (threads s img)" and "readable s src es" and "length es = 76" and "set es \<inter> (set ls \<union> set ks) = {}"
  shows "\<exists>p s'. kcall_spawn img s = Ok s' \<and> p \<notin> members A \<and> sim s' (spec_spawn p A) \<and> thread_get (of_nat i) s' = p \<and>
    t_eax (threads s' img) = of_nat i \<and>
    load32 (src + off_eip) s = Ok (t_eip (threads s' p)) \<and> load32 (src + off_esp) s = Ok (t_useresp (threads s' p)) \<and>
    load32 (src + off_ebp) s = Ok (t_ebp (threads s' p)) \<and> load32 (src + off_esi) s = Ok (t_esi (threads s' p)) \<and>
    load32 (src + off_edi) s = Ok (t_edi (threads s' p)) \<and> load32 (src + off_edx) s = Ok (t_edx (threads s' p)) \<and>
    load32 (src + off_ecx) s = Ok (t_ecx (threads s' p)) \<and> load32 (src + off_ebx) s = Ok (t_ebx (threads s' p)) \<and>
    load32 (src + off_eax) s = Ok (t_eax (threads s' p)) \<and> t_cs (threads s' p) = 0x19 \<and> t_ss (threads s' p) = 0x21 \<and>
    t_ds (threads s' p) = 0x21 \<and> t_eflags (threads s' p) = t_eflags (threads s img)"
proof -
  obtain p s1 where n: "thread_new s = Ok (of_nat i, s1)" "spares (set ls \<union> set ks) s s1" and p: "p \<notin> members A"
    and get: "thread_get (of_nat i) s1 = p" and rest: "\<And>q. q \<noteq> p \<Longrightarrow> threads s1 q = threads s q"
    and sim1: "sim s1 (A\<lparr>paused := insert p (paused A)\<rparr>)"
    using spawn_new [OF assms(1,3-8)] by metis
  have img: "img \<noteq> p" using p assms(2) by (auto simp: members_def)
  then have img1: "threads s1 img = threads s img" using rest by simp
  have rd: "\<exists>v. load32 (src + of_nat k) s = Ok v \<and> load32 (src + of_nat k) s1 = Ok v" if "k + 4 \<le> 76" for k
    using spares_load32_part [OF n(2) assms(10,12)] that assms(11) by simp
  obtain v_esp v_eip v_ebp v_esi v_edi v_edx v_ecx v_ebx v_eax
    where v: "load32 (src + off_esp) s = Ok v_esp" "load32 (src + off_eip) s = Ok v_eip" "load32 (src + off_ebp) s = Ok v_ebp"
      "load32 (src + off_esi) s = Ok v_esi" "load32 (src + off_edi) s = Ok v_edi" "load32 (src + off_edx) s = Ok v_edx"
      "load32 (src + off_ecx) s = Ok v_ecx" "load32 (src + off_ebx) s = Ok v_ebx" "load32 (src + off_eax) s = Ok v_eax"
    and v1: "load32 (src + off_esp) s1 = Ok v_esp" "load32 (src + off_eip) s1 = Ok v_eip" "load32 (src + off_ebp) s1 = Ok v_ebp"
      "load32 (src + off_esi) s1 = Ok v_esi" "load32 (src + off_edi) s1 = Ok v_edi" "load32 (src + off_edx) s1 = Ok v_edx"
      "load32 (src + off_ecx) s1 = Ok v_ecx" "load32 (src + off_ebx) s1 = Ok v_ebx" "load32 (src + off_eax) s1 = Ok v_eax"
    using rd [of 48] rd [of 68] rd [of 44] rd [of 40] rd [of 36] rd [of 56] rd [of 60] rd [of 52] rd [of 64] by auto
  define f where "f = (\<lambda>t :: thread. t\<lparr>t_useresp := v_esp, t_esp := p + off_num, t_ss := 0x21,
                     t_ds := 0x21, t_cs := 0x19, t_eflags := t_eflags (threads s img), t_eip := v_eip,
                     t_ebp := v_ebp, t_esi := v_esi, t_edi := v_edi, t_edx := v_edx, t_ecx := v_ecx,
                     t_ebx := v_ebx, t_eax := v_eax, t_state := TS_QUEUED\<rparr>)"
  define s' where "s' = set_eax img (of_nat i) (schedule_push p (th_upd p f s1))"
  have run: "kcall_spawn img s = Ok s'"
    using n(1) thread_number_ok [OF assms(6)] get v1 img1 assms(9) by (simp add: kcall_spawn_def s'_def f_def Let_def)
  moreover have "sim s' (spec_spawn p A)"
    unfolding s'_def sim_set_eax by (rule sim_spawn [OF sim1 p]) (simp_all add: f_def)
  moreover have "thread_get (of_nat i) s' = p" using get by (auto simp: s'_def set_eax_def thread_get_def)
  moreover obtain x where "threads s' p = (f (threads s1 p))\<lparr>t_next := x\<rparr>"
    using sched_only_thread [OF schedule_push_only [of "th_upd p f s1" p], of p] img by (auto simp: s'_def set_eax_def)
  moreover have "t_eax (threads s' img) = of_nat i" by (simp add: s'_def set_eax_def)
  ultimately show ?thesis using p v by (intro exI [of _ p] exI [of _ s']) (simp add: f_def)
qed

definition demo_caller :: thread_state where
  "demo_caller = th_upd 0x1000 (\<lambda>t. t\<lparr>t_ebx := 0x3800\<rparr>) demo_room"

lemma demo_caller_blocks: "block_at demo_caller 6 (demo_block 256 256)" "block_at demo_caller 7 (demo_block 1024 512)"
  and demo_caller_readable: "readable demo_caller 0x3800 (demo_block 2048 76)"
proof -
  have l: "loc demo_caller = loc demo_room \<and> table_frames demo_caller = table_frames demo_room"
    by (rule loc_cong) (simp_all add: demo_caller_def th_upd_def)
  then have "block_at demo_caller b ks = block_at demo_room b ks" for b ks
    using writable_other [of demo_caller demo_room] by (simp add: block_at_def demo_caller_def th_upd_def)
  then show "block_at demo_caller 6 (demo_block 256 256)" "block_at demo_caller 7 (demo_block 1024 512)"
    using demo_room_ready by simp_all
  have "loc demo_room = loc demo_frames \<and> table_frames demo_room = table_frames demo_frames"
    by (rule loc_cong) (simp_all add: demo_room_def demo_threads_def demo_frames_def)
  then show "readable demo_caller 0x3800 (demo_block 2048 76)"
    using l readable_cong [of demo_caller demo_frames] demo_writable [of 2048 76] by (simp add: writable_def)
qed

lemma demo_blocks_apart:
  assumes "a + n \<le> b" and "b + m \<le> 4096"
  shows "set (demo_block a n) \<inter> set (demo_block b m) = {}"
proof -
  have "demo_at (a + i) \<noteq> demo_at (b + j)" if "i < n" "j < m" for i j
    using inj_onD [OF demo_at_inj, of "a + i" "b + j"] that assms by auto
  then show ?thesis by (auto simp del: split_paired_All) metis
qed

theorem spawn_starts_thread_witness:
  "\<exists>p s'. kcall_spawn 0x1000 demo_caller = Ok s' \<and> p \<notin> members demo_spec \<and> sim s' (spec_spawn p demo_spec) \<and>
     t_eax (threads s' 0x1000) = 4 \<and> t_cs (threads s' p) = 0x19"
proof -
  have "sim demo_caller demo_spec = sim demo_threads demo_spec"
    by (rule sim_cong) (simp_all add: demo_caller_def demo_room_def)
  then have "sim demo_caller demo_spec" "running demo_spec = Some 0x1000" using demo_sim by (simp_all add: demo_spec_def)
  moreover have "thread_table demo_caller j \<noteq> NULL" if "j < 4" for j
  proof -
    have "j = 0 \<or> j = 1 \<or> j = 2 \<or> j = 3" using that by auto
    then show ?thesis by (auto simp: demo_caller_def demo_room_def demo_threads_def)
  qed
  moreover have "\<not> live demo_caller (heap_bucket demo_caller 6)" "thread_table demo_caller 4 = NULL" "0x3800 = t_ebx (threads demo_caller 0x1000)"
    by (simp_all add: demo_caller_def live_def demo_room_def demo_threads_def zero_thread_def th_upd_def)
  moreover have "set (demo_block 2048 76) \<inter> (set (demo_block 256 256) \<union> set (demo_block 1024 512)) = {}"
    using demo_blocks_apart [of 256 256 2048 76] demo_blocks_apart [of 1024 512 2048 76] by auto
  ultimately show ?thesis
    using spawn_starts_thread [OF _ _ demo_caller_blocks, of demo_spec "0x1000" 4 "0x3800"] demo_caller_readable by fastforce
qed

end
