(* ===== verification/Vectors.thy ===== *)
theory Vectors
  imports Lifecycle
begin

text \<open>
  The table of interrupt handlers is filled when the kernel starts. Nothing that runs on an interrupt changes it afterwards:
  neither a handler nor the dispatcher that calls it.
\<close>

named_theorems same_handlers "operations that leave the table of handlers alone"

section \<open>Lower layers\<close>

lemmas handlers_of_machine = machine_lower [THEN parts_of_more(8)]
lemmas handlers_of_frame = frame_lower [THEN parts_of_more(8)]
lemmas handlers_of_heap = pctx_more_of_heap [THEN parts_of_more(8)]

lemma same_handlers_lower [same_handlers]:
  "frame_new s = Ok (f, s') \<Longrightarrow> int_handler_tab s' = int_handler_tab s"
  "frame_free f s = Ok s' \<Longrightarrow> int_handler_tab s' = int_handler_tab s"
  "page_set page v s = Ok s' \<Longrightarrow> int_handler_tab s' = int_handler_tab s"
  "pctx_new s = Ok (r, s') \<Longrightarrow> int_handler_tab s' = int_handler_tab s"
  "pctx_free p s = Ok (r, s') \<Longrightarrow> int_handler_tab s' = int_handler_tab s"
  "heap_alloc sz s = Ok (p, s') \<Longrightarrow> int_handler_tab s' = int_handler_tab s"
  "heap_free p sz s = Ok s' \<Longrightarrow> int_handler_tab s' = int_handler_tab s"
  "memcpy d p n s = Ok s' \<Longrightarrow> int_handler_tab s' = int_handler_tab s"
  "save_info d p s = Ok s' \<Longrightarrow> int_handler_tab s' = int_handler_tab s"
  "debug_printf fmt ap s = Ok s' \<Longrightarrow> int_handler_tab s' = int_handler_tab s"
  by (erule frame_new_keeps [THEN handlers_of_frame] frame_free_keeps [THEN handlers_of_frame]
      page_set_keeps [THEN handlers_of_frame] pctx_new_keeps [THEN parts_of_more(8)] pctx_free_keeps [THEN parts_of_more(8)]
      heap_alloc_keeps [THEN handlers_of_heap] heap_free_keeps [THEN handlers_of_heap] memcpy_keeps [THEN handlers_of_machine]
      save_info_keeps [THEN handlers_of_machine] debug_printf_keeps [THEN handlers_of_machine])+

lemma thread_save_handlers [same_handlers]: "thread_save p s = Ok s' \<Longrightarrow> int_handler_tab s' = int_handler_tab s"
  by (erule thread_save_only) simp

lemma thread_load_handlers [same_handlers]: "thread_load p s = Ok s' \<Longrightarrow> int_handler_tab s' = int_handler_tab s"
  by (erule thread_load_only) simp

lemma schedule_remv_handlers [same_handlers]: "schedule_remv p s = Ok (r, s') \<Longrightarrow> int_handler_tab s' = int_handler_tab s"
  by (auto simp: schedule_remv_def Let_def split: if_splits option.splits)

lemma irq_line_handlers [same_handlers]:
  "irq_mask n s = Ok s' \<Longrightarrow> int_handler_tab s' = int_handler_tab s"
  "irq_unmask n s = Ok s' \<Longrightarrow> int_handler_tab s' = int_handler_tab s"
  by (auto simp: irq_mask_def irq_unmask_def irq_write_mask_def outb_def Let_def split: if_splits)

section \<open>Threads and events\<close>

lemma event_handlers [same_handlers]:
  "event_wait tid e s = Ok (r, s') \<Longrightarrow> int_handler_tab s' = int_handler_tab s"
  "event_remv tid e s = Ok (r, s') \<Longrightarrow> int_handler_tab s' = int_handler_tab s"
  "event_send tid e s = Ok (r, s') \<Longrightarrow> int_handler_tab s' = int_handler_tab s"
  subgoal by (auto simp: event_wait_cases ev_enqueue_def Let_def and_then_eq_Ok split: if_splits dest!: same_handlers)
  subgoal by (auto simp: event_remv_def Let_def split: if_splits option.splits)
  subgoal by (rule event_send_keeps(1))
  done

lemma report_queue_handlers [simp]:
  "int_handler_tab (dead_push p s) = int_handler_tab s" "int_handler_tab (fault_push p s) = int_handler_tab s"
  "int_handler_tab (snd (dead_pull s)) = int_handler_tab s" "int_handler_tab (snd (fault_pull s)) = int_handler_tab s"
  "int_handler_tab (dead_wait p s) = int_handler_tab s" "int_handler_tab (fault_wait p s) = int_handler_tab s"
  by (simp_all add: dead_push_def fault_push_def dead_pull_def fault_pull_def dead_wait_def fault_wait_def Let_def)

lemma thread_new_handlers [same_handlers]: "thread_new s = Ok (r, s') \<Longrightarrow> int_handler_tab s' = int_handler_tab s"
  by (auto simp: thread_new_def thread_alloc_def Let_def and_then_eq_Ok split: if_splits option.splits dest!: same_handlers)

lemma thread_kill_handlers [same_handlers]: "thread_kill p s = Ok s' \<Longrightarrow> int_handler_tab s' = int_handler_tab s"
  by (auto simp: thread_kill_def Let_def and_then_eq_Ok split: if_splits dest!: same_handlers)

section \<open>Kernel calls\<close>

lemma kcall_spawn_handlers [same_handlers]: "kcall_spawn img s = Ok s' \<Longrightarrow> int_handler_tab s' = int_handler_tab s"
  by (auto simp: kcall_spawn_def set_eax_def Let_def and_then_eq_Ok split: if_splits dest!: same_handlers)

lemma set_registers_handlers [same_handlers]: "set_registers t src s = Ok s' \<Longrightarrow> int_handler_tab s' = int_handler_tab s"
  by (auto simp: set_registers_def Let_def and_then_eq_Ok split: if_splits dest!: same_handlers)

lemma set_dead_handlers [same_handlers]: "set_dead t src s = Ok s' \<Longrightarrow> int_handler_tab s' = int_handler_tab s"
  by (auto simp: set_dead_def Let_def and_then_eq_Ok split: if_splits dest!: same_handlers)

lemma set_info_handlers [same_handlers]: "set_info t src s = Ok s' \<Longrightarrow> int_handler_tab s' = int_handler_tab s"
  by (auto simp: set_info_def pctx_load_state Let_def and_then_eq_Ok split: if_splits dest!: same_handlers)

lemma kcall_thread_handlers [same_handlers]:
  "kcall_reap img s = Ok s' \<Longrightarrow> int_handler_tab s' = int_handler_tab s"
  "kcall_yield img s = Ok s' \<Longrightarrow> int_handler_tab s' = int_handler_tab s"
  "kcall_pause img s = Ok s' \<Longrightarrow> int_handler_tab s' = int_handler_tab s"
  "kcall_resume img s = Ok s' \<Longrightarrow> int_handler_tab s' = int_handler_tab s"
  "kcall_getstate img s = Ok s' \<Longrightarrow> int_handler_tab s' = int_handler_tab s"
  "kcall_setstate img s = Ok s' \<Longrightarrow> int_handler_tab s' = int_handler_tab s"
  by (auto simp: kcall_reap_def kcall_yield_def kcall_pause_def kcall_resume_def kcall_getstate_def kcall_setstate_def
      set_eax_def Let_def and_then_eq_Ok split: if_splits dest!: same_handlers)

lemma kcall_event_handlers [same_handlers]:
  "kcall_wait img s = Ok s' \<Longrightarrow> int_handler_tab s' = int_handler_tab s"
  "kcall_reset img s = Ok s' \<Longrightarrow> int_handler_tab s' = int_handler_tab s"
  by (auto simp: kcall_wait_def kcall_reset_def set_eax_def Let_def and_then_eq_Ok split: if_splits dest!: same_handlers)

lemma kcall_queue_handlers [same_handlers]:
  "kcall_getdead img s = Ok s' \<Longrightarrow> int_handler_tab s' = int_handler_tab s"
  "kcall_getfault img s = Ok s' \<Longrightarrow> int_handler_tab s' = int_handler_tab s"
  using report_queue_handlers(3,4) [of s]
  by (auto simp: kcall_getdead_def kcall_getfault_def set_eax_def case_prod_beta and_then_eq_Ok split: if_splits dest!: same_handlers)

lemma kcall_paging_handlers [same_handlers]:
  "kcall_newpctx img s = Ok s' \<Longrightarrow> int_handler_tab s' = int_handler_tab s"
  "kcall_freepctx img s = Ok s' \<Longrightarrow> int_handler_tab s' = int_handler_tab s"
  "kcall_setframe img s = Ok s' \<Longrightarrow> int_handler_tab s' = int_handler_tab s"
  "kcall_setflags img s = Ok s' \<Longrightarrow> int_handler_tab s' = int_handler_tab s"
  "kcall_getframe img s = Ok s' \<Longrightarrow> int_handler_tab s' = int_handler_tab s"
  "kcall_getflags img s = Ok s' \<Longrightarrow> int_handler_tab s' = int_handler_tab s"
  "kcall_newframe img s = Ok s' \<Longrightarrow> int_handler_tab s' = int_handler_tab s"
  "kcall_freeframe img s = Ok s' \<Longrightarrow> int_handler_tab s' = int_handler_tab s"
  "kcall_unknown img s = Ok s' \<Longrightarrow> int_handler_tab s' = int_handler_tab s"
  by (auto simp: kcall_newpctx_def kcall_freepctx_def kcall_setframe_def kcall_setflags_def kcall_getframe_def
      kcall_getflags_def kcall_newframe_def kcall_freeframe_def kcall_unknown_def set_eax_def Let_def and_then_eq_Ok
      dest!: same_handlers)

lemma kcall_plain_handlers [simp]:
  "int_handler_tab (user_syscall img s) = int_handler_tab s" "int_handler_tab (kcall_gettid img s) = int_handler_tab s"
  "int_handler_tab (kcall_sysret img s) = int_handler_tab s" "int_handler_tab (kcall_takeframe img s) = int_handler_tab s"
  by (simp_all add: user_syscall_def kcall_gettid_def kcall_sysret_def kcall_takeframe_def set_eax_def)

lemma kcall_handlers [same_handlers]: "kcall img s = Ok s' \<Longrightarrow> int_handler_tab s' = int_handler_tab s"
  unfolding kcall_def Let_def by (auto split: if_splits dest: same_handlers)

section \<open>The dispatcher\<close>

lemma fault_handlers [same_handlers]:
  "fault_page img s = Ok s' \<Longrightarrow> int_handler_tab s' = int_handler_tab s"
  "fault_generic img s = Ok s' \<Longrightarrow> int_handler_tab s' = int_handler_tab s"
  by (auto simp: fault_page_def fault_generic_def Let_def and_then_eq_Ok debug_panic_stops split: if_splits dest!: same_handlers)

lemma vtimer_loop_handlers [same_handlers]: "vtimer_loop n i time s = Ok s' \<Longrightarrow> int_handler_tab s' = int_handler_tab s"
  by (induction n arbitrary: i s) (fastforce simp: and_then_eq_Ok split: if_splits dest: same_handlers)+

lemma timer_handler_handlers [same_handlers]: "timer_handler img s = Ok s' \<Longrightarrow> int_handler_tab s' = int_handler_tab s"
  by (auto simp: timer_handler_def Let_def and_then_eq_Ok split: if_splits dest!: same_handlers)

lemma run_handler_handlers [same_handlers]: "run_handler h img s = Ok s' \<Longrightarrow> int_handler_tab s' = int_handler_tab s"
  by (cases h) (auto simp: fault_double_stops dest: same_handlers)

lemma irq_entry_handlers [same_handlers]: "irq_entry n s = Ok s' \<Longrightarrow> int_handler_tab s' = int_handler_tab s"
  by (auto simp: irq_entry_def irq_reset_def outb_def and_then_eq_Ok split: if_splits dest: same_handlers)

lemma int_exit_handlers [same_handlers]: "int_exit s = Ok (c, s') \<Longrightarrow> int_handler_tab s' = int_handler_tab s"
  by (auto simp: int_exit_def Let_def and_then_eq_Ok split: if_splits dest!: same_handlers)

lemma int_handler_handlers: "int_handler img s = Ok (c, s') \<Longrightarrow> int_handler_tab s' = int_handler_tab s"
  by (auto simp: int_handler_def and_then_eq_Ok split: if_splits option.splits dest!: same_handlers)

end
