(* ===== verification/Kernel.thy ===== *)
theory Kernel
  imports Vectors
begin

text \<open>
  Runs of the kernel. A step is one interrupt: the entry code of \<open>src/kernel/int.s\<close> saves the registers
  of the interrupted thread in its structure, \<open>int_handler\<close> runs, and the thread it returns continues.
  Every vector is covered: exceptions, the timer, the devices, kernel calls, and vectors without a handler. Four
  situations break the queues of the scheduler or rest on parts that it does not control, and are named by the predicate \<open>orderly\<close>, which
  every theorem on steps has as a hypothesis:
    \<^item> pausing a thread that waits for an event (\<open>event_remv\<close> unlinks it through the link of the scheduler);
    \<^item> creating a thread when the heap hands out a block that is still in use;
    \<^item> declaring a thread dead when the first reaper in line is no longer paused (it has been resumed in the meantime);
    \<^item> an exception when the first debugger in line is no longer paused.
\<close>

section \<open>Steps\<close>

text \<open>The registers that the processor and \<open>int_common\<close> store, from the last word pushed to the first.\<close>

definition int_entry :: "ptr \<Rightarrow> thread \<Rightarrow> 'a thread_state_scheme \<Rightarrow> 'a thread_state_scheme" where
  "int_entry img r s =
     th_upd img (\<lambda>t. t\<lparr>t_ds := t_ds r, t_edi := t_edi r, t_esi := t_esi r, t_ebp := t_ebp r, t_esp := t_esp r,
       t_ebx := t_ebx r, t_edx := t_edx r, t_ecx := t_ecx r, t_eax := t_eax r, t_num := t_num r, t_err := t_err r,
       t_eip := t_eip r, t_cs := t_cs r, t_eflags := t_eflags r, t_useresp := t_useresp r, t_ss := t_ss r\<rparr>) s"

text \<open>
  The structure the registers are saved in: that of the active thread, or the frame \<open>idle\<close> on the stack
  of \<open>cpu_idle\<close>.
\<close>

definition current :: "ptr \<Rightarrow> 'a thread_state_scheme \<Rightarrow> ptr" where
  "current idle s = (if active_thread s = NULL then idle else active_thread s)"

text \<open>The handlers are those that \<open>init\<close> registers.\<close>

definition handlers_ready :: "'a thread_state_scheme \<Rightarrow> bool" where
  "handlers_ready s \<longleftrightarrow> int_handler_tab s = kernel_handlers"

text \<open>
  An interrupt that the kernel returns from, with the registers \<open>r\<close>. The idle loop is only interrupted by the timer and the devices, and its frame
  is not the structure of a thread.
\<close>

definition interrupt :: "ptr \<Rightarrow> thread \<Rightarrow> 'a thread_state_scheme \<Rightarrow> 'a thread_state_scheme \<Rightarrow> bool" where
  "interrupt idle r s s' \<longleftrightarrow>
     (active_thread s = NULL \<longrightarrow>
        32 \<le> t_num r \<and> t_num r < 48 \<and> \<not> live s idle \<and> t_state (threads s idle) \<noteq> TS_RUNNING) \<and>
     (\<exists>c. int_handler (current idle s) (int_entry (current idle s) r s) = Ok (c, s'))"

text \<open>The first thread of a queue of reapers or debuggers is paused, as \<open>dead_wait\<close> and \<open>fault_wait\<close> leave it.\<close>

definition first_paused :: "'a thread_state_scheme \<Rightarrow> ptr \<Rightarrow> bool" where
  "first_paused s p \<longleftrightarrow> p = NULL \<or> live s p \<and> t_state (threads s p) = TS_PAUSED"

text \<open>What a step must not meet, on the state with the saved registers.\<close>

definition orderly_call :: "ptr \<Rightarrow> 'a thread_state_scheme \<Rightarrow> bool" where
  "orderly_call img s \<longleftrightarrow>
     (t_eax (threads s img) = 0x05 \<longrightarrow> t_state (threads s (kcall_target img s)) \<noteq> TS_WAITING) \<and>
     (t_eax (threads s img) = 0x02 \<longrightarrow> fresh_thread s) \<and>
     (t_eax (threads s img) = 0x08 \<longrightarrow> first_paused s (reaper_tail s))"

definition orderly :: "ptr \<Rightarrow> 'a thread_state_scheme \<Rightarrow> bool" where
  "orderly img s \<longleftrightarrow>
     (t_num (threads s img) < 32 \<longrightarrow> first_paused s (debug_tail s)) \<and>
     (t_num (threads s img) = 129 \<longrightarrow> t_flags (threads s img) AND TF_USER = 0 \<longrightarrow> orderly_call img s)"

inductive orderly_step :: "ptr \<Rightarrow> 'a thread_state_scheme \<Rightarrow> 'a thread_state_scheme \<Rightarrow> bool" for idle where
  "\<lbrakk>interrupt idle r s s'; orderly (current idle s) (int_entry (current idle s) r s)\<rbrakk> \<Longrightarrow> orderly_step idle s s'"

text \<open>The steps of the abstract scheduler.\<close>

inductive spec_step :: "sched_spec \<Rightarrow> sched_spec \<Rightarrow> bool" where
  tick: "set es \<subseteq> {240..<EV_COUNT} \<Longrightarrow> spec_step A (spec_dispatch (spec_preempt (fold spec_wake es A)))"
| event: "e < EV_COUNT \<Longrightarrow> spec_step A (spec_dispatch (spec_wake e A))"
| yield: "spec_step A (spec_dispatch (spec_preempt A))"
| block: "e < EV_COUNT \<Longrightarrow> spec_step A (spec_dispatch (spec_block e A))"
| pause: "running A = Some p \<or> p \<in> set (ready A) \<Longrightarrow> spec_step A (spec_dispatch (spec_pause p A))"
| resume: "p \<in> paused A \<Longrightarrow> spec_step A (spec_dispatch (spec_resume p A))"
| report: "running A = Some p \<Longrightarrow> d \<in> paused A \<Longrightarrow>
    spec_step A (spec_dispatch (spec_resume d (spec_pause p A)))"
| spawn: "p \<notin> members A \<Longrightarrow> spec_step A (spec_dispatch (spec_spawn p A))"
| reap: "p \<in> paused A \<Longrightarrow> spec_step A (spec_dispatch (spec_reap p A))"
| answer: "spec_step A (spec_dispatch A)"

section \<open>Simulation\<close>

lemma int_entry_sim [simp]: "sim (int_entry img r s) A = sim s A"
  by (simp add: int_entry_def)

lemma int_entry_fields [simp]:
  "int_handler_tab (int_entry img r s) = int_handler_tab s" "t_num (threads (int_entry img r s) img) = t_num r"
  "t_state (threads (int_entry img r s) q) = t_state (threads s q)" "live (int_entry img r s) q = live s q"
  "active_thread (int_entry img r s) = active_thread s" "timer_tick (int_entry img r s) = timer_tick s"
  "pit_freq (int_entry img r s) = pit_freq s" "debug_tail (int_entry img r s) = debug_tail s" "t_fxdata (threads (int_entry img r s) q) = t_fxdata (threads s q)"
  by (simp_all add: int_entry_def)

text \<open>A death is a step: the thread pauses, a reaper resumes, or both.\<close>

lemma spec_die_step:
  assumes "p \<in> paused A \<or> running A = Some p" and "r = NULL \<or> r \<in> paused A"
  shows "spec_step A (spec_dispatch (spec_die p r A))"
  using assms spec_step.answer spec_step.pause spec_step.resume spec_step.report
  by (auto simp: spec_die_def Let_def)

lemma first_paused_in: "sim s A \<Longrightarrow> first_paused s p \<Longrightarrow> p = NULL \<or> p \<in> paused A"
  using sim_place(4) unfolding first_paused_def by blast

text \<open>A kernel call, on the state with the saved registers.\<close>

lemma scheduling_call_sim:
  assumes "sim s A" and "running A = Some img" and "t_flags (threads s img) AND TF_USER = 0 \<Longrightarrow> orderly_call img s"
    and "kcall img s = Ok s'"
  shows "\<exists>B. sim s' B \<and> spec_step A (spec_dispatch B)"
proof -
  have same: "\<exists>B. sim s' B \<and> spec_step A (spec_dispatch B)" if "sim s' A"
    using that spec_step.answer by blast
  consider (user) "t_flags (threads s img) AND TF_USER \<noteq> 0"
    | (spawn) "t_flags (threads s img) AND TF_USER = 0" "t_eax (threads s img) = 0x02" "fresh_thread s"
    | (set) "t_flags (threads s img) AND TF_USER = 0" "t_eax (threads s img) = 0x08"
      "first_paused s (reaper_tail s)"
    | (reap) "t_flags (threads s img) AND TF_USER = 0" "t_eax (threads s img) = 0x0B"
    | (sys) "t_flags (threads s img) AND TF_USER = 0" "t_eax (threads s img) \<notin> {0x02, 0x08, 0x0B}"
      "t_eax (threads s img) = 0x05 \<Longrightarrow> t_state (threads s (kcall_target img s)) \<noteq> TS_WAITING"
    using assms(3) unfolding orderly_call_def by blast
  then show ?thesis
  proof cases
    case user
    then have "s' = user_syscall img s" using assms(4) by (simp add: kcall_def)
    then show ?thesis using same assms(1) by (simp add: user_syscall_def)
  next
    case spawn
    then have "kcall_spawn img s = Ok s'" using assms(4) by (simp add: kcall_def)
    from kcall_spawn_sim [OF assms(1) spawn(3) this] same spec_step.spawn show ?thesis by blast
  next
    case set
    then have "kcall_setstate img s = Ok s'" using assms(4) by (simp add: kcall_def)
    moreover have "reaper_tail s = NULL \<or> reaper_tail s \<in> paused A" using set(3) by (rule first_paused_in [OF assms(1)])
    ultimately show ?thesis
      using kcall_setstate_sim [OF assms(1,2)] same spec_die_step by blast
  next
    case reap
    then have "kcall_reap img s = Ok s'" using assms(4) by (simp add: kcall_def)
    from kcall_reap_sim [OF assms(1) this] same spec_step.reap show ?thesis by blast
  next
    case sys
    then consider "kcall_yield img s = Ok s'" | "kcall_resume img s = Ok s'" | "kcall_wait img s = Ok s'"
      | "kcall_pause img s = Ok s'" "t_state (threads s (kcall_target img s)) \<noteq> TS_WAITING"
      | "kcall_reset img s = Ok s'" | "s' = kcall_gettid img s \<or> s' = kcall_sysret img s \<or> s' = kcall_takeframe img s"
      | "kcall_getdead img s = Ok s' \<or> kcall_getfault img s = Ok s'"
      | "kcall_newpctx img s = Ok s' \<or> kcall_freepctx img s = Ok s' \<or> kcall_setframe img s = Ok s' \<or>
         kcall_setflags img s = Ok s' \<or> kcall_getframe img s = Ok s' \<or> kcall_getflags img s = Ok s' \<or>
         kcall_newframe img s = Ok s' \<or> kcall_freeframe img s = Ok s'"
      | "kcall_getstate img s = Ok s' \<or> kcall_unknown img s = Ok s'"
      using assms(4) unfolding kcall_def Let_def by (auto split: if_splits)
    then show ?thesis
    proof cases
      case 1
      with kcall_yield_sim [OF assms(1,2)] show ?thesis using spec_step.yield by blast
    next
      case 2
      with kcall_resume_sim [OF assms(1), of img s'] show ?thesis
        using same spec_step.resume by (auto split: if_splits)
    next
      case 3
      with kcall_wait_sim [OF assms(1,2)] show ?thesis
        using same spec_step.block spec_step.yield by (auto split: if_splits)
    next
      case 4
      with kcall_pause_sim [OF assms(1,2)] show ?thesis
        using same spec_step.pause by (fastforce split: if_splits)
    next
      case 5
      then have "sim s' A = sim s A"
        by (auto simp: kcall_reset_def Let_def and_then_eq_Ok sim_hardware dest!: irq_unmask_sim [of _ _ _ A] split: if_splits)
      with same assms(1) show ?thesis by simp
    next
      case 6
      then have "sim s' A = sim s A"
        by (auto simp: kcall_gettid_def kcall_sysret_def kcall_takeframe_def)
      with same assms(1) show ?thesis by simp
    next
      case 7
      then have "sim s' A \<or> sim s' (spec_pause img A)" using service_call_sim [OF assms(1,2)] by blast
      then show ?thesis using same spec_step.pause [of A img] assms(2) by blast
    next
      case 8
      then have "sim s' A = sim s A" by (elim disjE) (erule paging_call_sim)+
      with same assms(1) show ?thesis by simp
    next
      case 9
      then have "sim s' A = sim s A" by (elim disjE) (erule report_call_sim)+
      with same assms(1) show ?thesis by simp
    qed
  qed
qed

lemma int_handler_parts:
  assumes "int_handler img s = Ok (c, s')"
  obtains s1 s2 where "irq_entry (t_num (threads s img)) s = Ok s1"
    and "(case int_handler_tab s1 (ucast (t_num (threads s1 img))) of None \<Rightarrow> Ok s1 | Some h \<Rightarrow> run_handler h img s1) = Ok s2"
    and "int_exit s2 = Ok (c, s')"
  using assms by (auto simp: int_handler_def and_then_eq_Ok split: if_splits)

lemma fired_range: "i + n \<le> 16 \<Longrightarrow> set (fired time n i) \<subseteq> {240..<EV_COUNT}"
  by (induction n arbitrary: i) auto

lemma timer_step_sim:
  assumes "sim s A" and "int_handler_tab s 32 = Some H_timer" and "t_num (threads s img) = 32"
    and "running A = Some img \<or> running A = None \<and> \<not> live s img \<and> t_state (threads s img) \<noteq> TS_RUNNING"
    and "int_handler img s = Ok (c, s')"
  shows "\<exists>B. spec_step A B \<and> sim s' B"
proof -
  obtain s1 s2 where s1: "irq_entry (t_num (threads s img)) s = Ok s1"
    and s2: "(case int_handler_tab s1 (ucast (t_num (threads s1 img))) of None \<Rightarrow> Ok s1 | Some h \<Rightarrow> run_handler h img s1) = Ok s2"
    and x: "int_exit s2 = Ok (c, s')"
    using int_handler_parts [OF assms(5)] .
  have e: "s1 = snd (irq_reset 0 s)" using s1 assms(3) by (simp add: irq_entry_def)
  then have "threads s1 = threads s" "int_handler_tab s1 = int_handler_tab s" "live s1 img = live s img"
    by (simp_all add: irq_reset_def outb_def live_def)
  moreover have "sim s1 A" using assms(1) by (simp add: e irq_reset_sim)
  ultimately have "sim s2 (spec_preempt (fold spec_wake (fired (vtimer_mask (timer_tick s1 + 1) (pit_freq s1)) 16 0) A))"
    using s2 assms(2-4) by (intro timer_handler_sim [where img = img]) simp_all
  from int_exit_sim(1) [OF this x] show ?thesis
    using spec_step.tick fired_range [of 0 16] by fastforce
qed

lemma device_step_sim:
  assumes "sim s A" and "32 < t_num (threads s img)" and "t_num (threads s img) < 48"
    and "\<forall>n. 32 < n \<and> n < 48 \<longrightarrow> int_handler_tab s n = None"
    and "int_handler img s = Ok (c, s')"
  shows "\<exists>B. spec_step A B \<and> sim s' B"
proof -
  let ?e = "t_num (threads s img) - 32"
  obtain s1 s2 where s1: "irq_entry (t_num (threads s img)) s = Ok s1"
    and s2: "(case int_handler_tab s1 (ucast (t_num (threads s1 img))) of None \<Rightarrow> Ok s1 | Some h \<Rightarrow> run_handler h img s1) = Ok s2"
    and x: "int_exit s2 = Ok (c, s')"
    using int_handler_parts [OF assms(5)] .
  have n: "32 < unat (t_num (threads s img))" "unat (t_num (threads s img)) < 48"
    using assms(2,3) by (simp_all add: word_less_nat_alt)
  then have "unat ?e = unat (t_num (threads s img)) - 32"
    by (subst unat_sub) (simp_all add: word_le_nat_alt)
  with n have e: "unat ?e < EV_COUNT" and ne: "?e \<noteq> 0" by auto
  obtain r where snd: "event_send (- 1) ?e s = Ok (r, s1)"
    using s1 assms(3) order.strict_implies_order [OF assms(2)] ne by (auto simp: irq_entry_def and_then_eq_Ok)
  have "unat (ucast (t_num (threads s img)) :: u8) = unat (t_num (threads s img))"
    using n by (simp add: unsigned_ucast_eq take_bit_eq_mod)
  with n have "32 < (ucast (t_num (threads s img)) :: u8)" "(ucast (t_num (threads s img)) :: u8) < 48"
    by (simp_all add: word_less_nat_alt)
  with assms(4) have "s2 = s1"
    using s2 event_send_keeps [OF snd] by simp
  with x int_exit_sim(1) event_send_sim [OF assms(1) e snd] show ?thesis
    using spec_step.event [OF e] by blast
qed

lemma call_step_sim:
  assumes "sim s A" and "running A = Some img" and "int_handler_tab s 129 = Some H_kcall"
    and "t_num (threads s img) = 129" and "orderly img s" and "int_handler img s = Ok (c, s')"
  shows "\<exists>B. spec_step A B \<and> sim s' B"
proof -
  obtain s1 s2 where s1: "irq_entry (t_num (threads s img)) s = Ok s1"
    and s2: "(case int_handler_tab s1 (ucast (t_num (threads s1 img))) of None \<Rightarrow> Ok s1 | Some h \<Rightarrow> run_handler h img s1) = Ok s2"
    and x: "int_exit s2 = Ok (c, s')"
    using int_handler_parts [OF assms(6)] .
  have "s1 = s" using s1 assms(4) by (simp add: irq_entry_def)
  then have "kcall img s = Ok s2" using s2 assms(3,4) by simp
  then obtain B where "sim s2 B" and "spec_step A (spec_dispatch B)"
    using scheduling_call_sim [OF assms(1,2)] assms(4,5) unfolding orderly_def by blast
  with int_exit_sim(1) [OF _ x] show ?thesis by blast
qed

text \<open>Any other vector: an exception, or one without a handler, which leaves everything as it is.\<close>

lemma kernel_handlers_other:
  "n \<notin> {32, 129} \<Longrightarrow> kernel_handlers n \<in> {None, Some H_fault_page, Some H_fault_generic, Some H_fault_double}"
  "\<not> n < 32 \<Longrightarrow> n \<notin> {32, 129} \<Longrightarrow> kernel_handlers n = None"
  by (auto simp: kernel_handlers_def word_less_nat_alt)

lemma exception_step_sim:
  assumes "sim s A" and "running A = Some img" and "handlers_ready s" and "t_num (threads s img) \<notin> {32..<48} \<union> {129}"
    and "orderly img s" and "int_handler img s = Ok (c, s')"
  shows "\<exists>B. spec_step A B \<and> sim s' B"
proof -
  let ?n = "t_num (threads s img)"
  obtain s1 s2 where s1: "irq_entry ?n s = Ok s1"
    and s2: "(case int_handler_tab s1 (ucast (t_num (threads s1 img))) of None \<Rightarrow> Ok s1 | Some h \<Rightarrow> run_handler h img s1) = Ok s2"
    and x: "int_exit s2 = Ok (c, s')"
    using int_handler_parts [OF assms(6)] .
  have e: "s1 = s" using s1 assms(4) by (auto simp: irq_entry_def split: if_splits)
  have "?n < 256" using assms(6) s1 e by (auto simp: int_handler_def split: if_splits)
  then have n: "unat (ucast ?n :: u8) = unat ?n"
    by (simp add: unsigned_ucast_eq take_bit_eq_mod word_less_nat_alt)
  then have range: "(ucast ?n :: u8) \<notin> {32, 129}" "?n < 32 \<longleftrightarrow> (ucast ?n :: u8) < 32"
    using assms(4) by (auto simp: word_less_nat_alt word_le_nat_alt unat_arith_simps)
  consider (none) "s2 = s" | (fault) "?n < 32" "fault_page img s = Ok s2 \<or> fault_generic img s = Ok s2"
    using s2 assms(3) kernel_handlers_other [of "ucast ?n"] range fault_double_stops [of img s s2]
    by (fastforce simp: e handlers_ready_def)
  then show ?thesis
  proof cases
    case none
    with int_exit_sim(1) [OF _ x] assms(1) spec_step.answer show ?thesis by blast
  next
    case fault
    have d: "debug_tail s = NULL \<or> debug_tail s \<in> paused A"
      using fault(1) assms(5) by (intro first_paused_in [OF assms(1)]) (simp add: orderly_def)
    with fault(2) have "sim s2 (if debug_tail s = NULL then spec_pause img A else spec_resume (debug_tail s) (spec_pause img A))"
      using fault_page_sim [OF assms(1,2) d] fault_generic_sim [OF assms(1,2) d] by blast
    from int_exit_sim(1) [OF this x] show ?thesis
      using spec_step.pause [of A img] spec_step.report [of A img "debug_tail s"] assms(2) d by (auto split: if_splits)
  qed
qed

text \<open>Every orderly interrupt is a step of the abstract scheduler.\<close>

lemma interrupt_sim:
  assumes "handlers_ready s" and "interrupt idle r s s'" and "orderly (current idle s) (int_entry (current idle s) r s)" and "sim s A"
  shows "\<exists>B. spec_step A B \<and> sim s' B"
proof -
  let ?img = "current idle s" and ?s = "int_entry (current idle s) r s"
  obtain c where run: "int_handler ?img ?s = Ok (c, s')" using assms(2) unfolding interrupt_def by blast
  have s: "sim ?s A" "handlers_ready ?s" "t_num (threads ?s ?img) = t_num r" using assms(1,4) by (simp_all add: handlers_ready_def)
  have active: "running A = Some ?img" if "active_thread s \<noteq> NULL"
    using that sim_queues(3) [OF assms(4)] by (cases "running A") (auto simp: current_def)
  have nn: "\<not> live s NULL" by (simp add: live_def)
  have idle: "running A = Some ?img \<or> running A = None \<and> \<not> live ?s ?img \<and> t_state (threads ?s ?img) \<noteq> TS_RUNNING"
    using assms(2) sim_queues(3) [OF assms(4)] sim_states(1) [OF assms(4)] nn unfolding interrupt_def
    by (cases "running A") (auto simp: current_def)
  have tab: "int_handler_tab ?s 32 = Some H_timer" "int_handler_tab ?s 129 = Some H_kcall"
    "\<forall>n. 32 < n \<and> n < 48 \<longrightarrow> int_handler_tab ?s n = None"
    using assms(1) by (auto simp: handlers_ready_def kernel_handlers_def word_less_nat_alt)
  consider "t_num r = 32" | "32 < t_num r" "t_num r < 48" | "t_num r = 129" "active_thread s \<noteq> NULL"
    | "t_num r \<notin> {32..<48} \<union> {129}" "active_thread s \<noteq> NULL"
    using assms(2) unfolding interrupt_def by force
  then show ?thesis
  proof cases
    case 1
    with timer_step_sim [OF s(1) tab(1) _ idle run] s(3) show ?thesis by simp
  next
    case 2
    with device_step_sim [OF s(1) _ _ tab(3) run] s(3) show ?thesis by simp
  next
    case 3
    with call_step_sim [OF s(1) active tab(2) _ assms(3) run] s(3) show ?thesis by simp
  next
    case 4
    with exception_step_sim [OF s(1) active s(2) _ assms(3) run] s(3) show ?thesis by simp
  qed
qed

lemma interrupt_handlers: "handlers_ready s \<Longrightarrow> interrupt idle r s s' \<Longrightarrow> handlers_ready s'"
  unfolding interrupt_def handlers_ready_def by (auto dest!: int_handler_handlers)

lemma orderly_step_sim:
  assumes "orderly_step idle s s'" and "handlers_ready s" and "sim s A"
  shows "\<exists>B. spec_step A B \<and> sim s' B \<and> handlers_ready s'"
  using assms(1)
proof cases
  case (1 r)
  with interrupt_sim [OF assms(2) _ _ assms(3)] interrupt_handlers [OF assms(2)] show ?thesis by blast
qed

lemma orderly_run_sim:
  assumes "(orderly_step idle)\<^sup>*\<^sup>* s s'" and "handlers_ready s" and "sim s A"
  shows "\<exists>B. spec_step\<^sup>*\<^sup>* A B \<and> sim s' B \<and> handlers_ready s'"
  using assms
proof (induction rule: rtranclp_induct)
  case (step s1 s2)
  then obtain B where "spec_step\<^sup>*\<^sup>* A B" and "sim s1 B" and "handlers_ready s1" by blast
  with orderly_step_sim [OF step.hyps(2)] show ?case by (meson rtranclp.rtrancl_into_rtrancl)
qed blast

section \<open>Invariants of the abstract scheduler\<close>

lemma members_moves:
  "members (spec_dispatch A) = members A" "members (spec_preempt A) = members A"
  "e < EV_COUNT \<Longrightarrow> members (spec_block e A) = members A"
  "running A = Some p \<or> p \<in> set (ready A) \<Longrightarrow> distinct (ready A) \<Longrightarrow> members (spec_pause p A) = members A"
  "p \<in> paused A \<Longrightarrow> members (spec_resume p A) = members A"
proof -
  show "members (spec_dispatch A) = members A" "members (spec_preempt A) = members A"
    by (auto simp: members_def spec_dispatch_def spec_preempt_def split: option.splits list.splits)
  show "p \<in> paused A \<Longrightarrow> members (spec_resume p A) = members A"
    by (auto simp: members_def spec_resume_def)
  show "running A = Some p \<or> p \<in> set (ready A) \<Longrightarrow> distinct (ready A) \<Longrightarrow> members (spec_pause p A) = members A"
    by (auto simp: members_def spec_pause_def set_remove1_eq split: if_splits)
  show "members (spec_block e A) = members A" if "e < EV_COUNT"
    using members_split [OF that, of A] members_split [OF that, of "spec_block e A"]
      others_waiting_cong [of e "spec_block e A" A]
    by (auto simp: spec_block_def split: option.splits)
qed

lemma members_fold_wake: "set es \<subseteq> {..<EV_COUNT} \<Longrightarrow> members (fold spec_wake es A) = members A"
  by (induction es arbitrary: A) (auto simp: members_spec_wake)

section \<open>Returning from the kernel\<close>

text \<open>
  The only thing that can go wrong in a tick is an FPU data block that is not mapped; no thread has one
  until \<open>KCALL_SETSTATE\<close> gives it one.
\<close>

definition no_fpu_data :: "'a thread_state_scheme \<Rightarrow> bool" where
  "no_fpu_data s \<longleftrightarrow> (\<forall>p. t_fxdata (threads s p) = NULL)"

lemma thread_load_returns: "t_fxdata (threads s p) = NULL \<Longrightarrow> \<exists>s'. thread_load p s = Ok s'"
  by (simp add: thread_load_def set_int_stack_def Let_def)

lemma int_exit_returns:
  assumes "sim s A" and "no_fpu_data s"
  shows "\<exists>s'. int_exit s = Ok (running (spec_dispatch A), s')"
proof -
  have "\<exists>c s'. int_exit s = Ok (c, s')"
  proof (cases "ready A")
    case Nil
    then show ?thesis
      using sim_queues(1) [OF assms(1)]
      by (simp add: int_exit_def thread_get_active_def schedule_next_def sched_queue_def Let_def)
  next
    case (Cons p ps)
    then have q: "sched_queue s (p # ps)" using sim_queues(1) [OF assms(1)] by simp
    obtain s1 where s1: "schedule_remv p s = Ok (0, s1)" and o: "sched_only s s1"
      using schedule_remv_queue [OF q, of p] by auto
    have "t_fxdata (threads s1 p) = NULL"
      using assms(2) by (simp add: sched_only_fields [OF o] no_fpu_data_def)
    then obtain s2 where "thread_load p s1 = Ok s2" using thread_load_returns by blast
    then show ?thesis
      using s1 q schedule_next_front [OF q] by (simp add: int_exit_def Let_def)
  qed
  then show ?thesis using int_exit_sim(2) [OF assms(1)] by blast
qed

lemma timer_handler_returns:
  assumes "sim s A" and "no_fpu_data s" and "pit_freq s \<noteq> 0"
  shows "\<exists>s'. timer_handler img s = Ok s' \<and> no_fpu_data s'"
proof -
  let ?s0 = "s\<lparr>timer_tick := timer_tick s + 1\<rparr>"
  have "sim ?s0 A" using assms(1) by (simp add: sim_hardware)
  then obtain s1 where s1: "vtimer_loop 16 0 (vtimer_mask (timer_tick s + 1) (pit_freq s)) ?s0 = Ok s1"
    and f: "\<And>q. t_fxdata (threads s1 q) = t_fxdata (threads s q)"
    using vtimer_loop_returns [of ?s0 A 0 16] by fastforce
  let ?s2 = "th_upd img (\<lambda>t. t\<lparr>t_tick := t_tick t + 1\<rparr>) s1"
  have n: "t_fxdata (threads s1 q) = NULL" for q using f assms(2) by (simp add: no_fpu_data_def)
  then have "thread_save img ?s2 = Ok (?s2\<lparr>active_thread := NULL\<rparr>)" by (intro thread_save_plain) simp
  then show ?thesis
    using assms(3) s1 n by (simp add: timer_handler_def Let_def no_fpu_data_def)
qed

lemma timer_step_returns:
  assumes "sim s A" and "int_handler_tab s 32 = Some H_timer" and "t_num (threads s img) = 32"
    and "no_fpu_data s" and "pit_freq s \<noteq> 0"
    and "running A = Some img \<or> running A = None \<and> \<not> live s img \<and> t_state (threads s img) \<noteq> TS_RUNNING"
  defines "B \<equiv> spec_dispatch (spec_preempt (fold spec_wake (fired (vtimer_mask (timer_tick s + 1) (pit_freq s)) 16 0) A))"
  shows "\<exists>s'. int_handler img s = Ok (running B, s') \<and> sim s' B"
proof -
  define s1 where "s1 = snd (irq_reset 0 s)"
  have eq: "threads s1 = threads s" "int_handler_tab s1 = int_handler_tab s" "live s1 img = live s img"
    "timer_tick s1 = timer_tick s" "pit_freq s1 = pit_freq s"
    by (simp_all add: s1_def irq_reset_def outb_def live_def)
  have sim1: "sim s1 A" using assms(1) by (simp add: s1_def irq_reset_sim)
  have "no_fpu_data s1" using assms(4) by (simp add: no_fpu_data_def eq)
  then obtain s2 where s2: "timer_handler img s1 = Ok s2" and n2: "no_fpu_data s2"
    using timer_handler_returns [OF sim1] assms(5) eq by auto
  have "sim s2 (spec_preempt (fold spec_wake (fired (vtimer_mask (timer_tick s + 1) (pit_freq s)) 16 0) A))"
    using timer_handler_sim [OF sim1 s2] assms(6) by (simp add: eq)
  then obtain s3 where s3: "int_exit s2 = Ok (running B, s3)" and "sim s3 B"
    using int_exit_returns [OF _ n2] int_exit_sim(1) unfolding B_def by blast
  moreover have "int_handler img s = Ok (running B, s3)"
    using s2 s3 assms(2,3) eq by (simp add: int_handler_def irq_entry_def flip: s1_def)
  ultimately show ?thesis by blast
qed

lemma members_reap:
  assumes "sim s A" and "p \<in> paused A"
  shows "members (spec_reap p A) = members A - {p}"
proof -
  have "t_state (threads s p) = TS_PAUSED" using sim_states(4) [OF assms] by simp
  then have "running A \<noteq> Some p" "p \<notin> set (ready A)" "\<And>e. e < EV_COUNT \<Longrightarrow> p \<notin> set (waiting A e)"
    using sim_elsewhere [OF assms(1), of p] by simp_all
  then show ?thesis by (auto simp: members_def spec_reap_def)
qed

lemma spec_step_members:
  assumes "spec_step A B" and "sim s A"
  shows "members B = members A \<or> (\<exists>p. p \<notin> members A \<and> members B = insert p (members A)) \<or>
    (\<exists>p \<in> paused A. members B = members A - {p})"
proof -
  have d: "distinct (ready A)" using sim_queues(1) [OF assms(2)] by (rule sched_queue_distinct)
  show ?thesis
    using assms(1)
  proof cases
    case (tick es)
    then have "set es \<subseteq> {..<EV_COUNT}" by auto
    with tick show ?thesis by (simp add: members_moves members_fold_wake)
  next
    case (report p q)
    then have "q \<in> paused (spec_pause p A)" by (simp add: spec_pause_def)
    with report d show ?thesis by (simp add: members_moves)
  next
    case (spawn p)
    then have "members B = insert p (members A)" by (auto simp: members_moves) (auto simp: members_def spec_spawn_def)
    with spawn show ?thesis by blast
  next
    case (reap p)
    then show ?thesis using members_reap [OF assms(2)] by (auto simp: members_moves)
  qed (simp_all add: members_moves members_spec_wake d)
qed

section \<open>Ticks in a row\<close>

text \<open>What a tick needs, and keeps.\<close>

definition tick_ready :: "'a thread_state_scheme \<Rightarrow> bool" where
  "tick_ready s \<longleftrightarrow> int_handler_tab s 32 = Some H_timer \<and> pit_freq s = 64 \<and> no_fpu_data s"

text \<open>A tick for each record of registers: what the interrupted threads did to theirs.\<close>

primrec ticks :: "thread list \<Rightarrow> 'a thread_state_scheme \<Rightarrow> 'a thread_state_scheme outcome" where
  "ticks [] s = Ok s"
| "ticks (r # rs) s =
     and_then (int_handler (active_thread s) (int_entry (active_thread s) (r\<lparr>t_num := 32\<rparr>) s)) (\<lambda>(_, s). ticks rs s)"

lemma vtimer_loop_keeps:
  "vtimer_loop n i time s = Ok s' \<Longrightarrow> int_handler_tab s' = int_handler_tab s \<and> pit_freq s' = pit_freq s \<and>
     (\<forall>q. t_fxdata (threads s' q) = t_fxdata (threads s q))"
proof (induction n arbitrary: i s)
  case (Suc n)
  then obtain s1 where s1: "(if time AND push_bit (15 - i) 1 \<noteq> 0
      then and_then (event_send (- 1) (255 - of_nat i) s) (\<lambda>(_, s). Ok s) else Ok s) = Ok s1"
    and "vtimer_loop n (Suc i) time s1 = Ok s'"
    by (auto simp: and_then_eq_Ok)
  with Suc.IH have "int_handler_tab s' = int_handler_tab s1 \<and> pit_freq s' = pit_freq s1 \<and>
      (\<forall>q. t_fxdata (threads s' q) = t_fxdata (threads s1 q))" by blast
  moreover have "s1 = s \<or> (\<exists>r. event_send (- 1) (255 - of_nat i) s = Ok (r, s1))"
    using s1 by (auto simp: and_then_eq_Ok split: if_splits)
  ultimately show ?case using event_send_keeps(1,2,5) by metis
qed simp

lemma thread_save_keeps:
  assumes "thread_save p s = Ok s'"
  shows "int_handler_tab s' = int_handler_tab s \<and> pit_freq s' = pit_freq s \<and> threads s' = threads s"
proof -
  obtain m f where "s' = s\<lparr>pmem := m, fpu := f, active_thread := NULL\<rparr>" using thread_save_only [OF assms] .
  then show ?thesis by simp
qed

lemma timer_handler_keeps:
  assumes "tick_ready s" and "timer_handler img s = Ok s'"
  shows "tick_ready s'"
proof -
  obtain s1 where s1: "vtimer_loop 16 0 (vtimer_mask (timer_tick s + 1) (pit_freq s)) (s\<lparr>timer_tick := timer_tick s + 1\<rparr>) = Ok s1"
    and t: "(if t_state (threads s1 img) = TS_RUNNING
        then and_then (thread_save img (th_upd img (\<lambda>t. t\<lparr>t_tick := t_tick t + 1\<rparr>) s1)) (\<lambda>s.
          Ok (th_upd img (\<lambda>t. t\<lparr>t_state := TS_QUEUED\<rparr>) (schedule_push img s)))
        else Ok (th_upd img (\<lambda>t. t\<lparr>t_tick := t_tick t + 1\<rparr>) s1)) = Ok s'"
    using assms by (auto simp: timer_handler_def Let_def tick_ready_def and_then_eq_Ok)
  have r: "tick_ready s1" using vtimer_loop_keeps [OF s1] assms(1) by (simp add: tick_ready_def no_fpu_data_def)
  show ?thesis
  proof (cases "t_state (threads s1 img) = TS_RUNNING")
    case True
    with t obtain s2 where "thread_save img (th_upd img (\<lambda>t. t\<lparr>t_tick := t_tick t + 1\<rparr>) s1) = Ok s2"
      and "s' = th_upd img (\<lambda>t. t\<lparr>t_state := TS_QUEUED\<rparr>) (schedule_push img s2)"
      by (auto simp: and_then_eq_Ok)
    with thread_save_keeps r show ?thesis by (fastforce simp: tick_ready_def no_fpu_data_def)
  next
    case False
    with t r show ?thesis by (auto simp: tick_ready_def no_fpu_data_def)
  qed
qed

lemma int_exit_keeps:
  assumes "sim s A" and "tick_ready s" and "int_exit s = Ok (c, s')"
  shows "tick_ready s'"
proof (cases "active_thread s \<noteq> NULL \<or> sched_head s = NULL")
  case True
  with assms(2,3) show ?thesis by (auto simp: int_exit_def thread_get_active_def schedule_next_def Let_def split: if_splits)
next
  case False
  then obtain p ps where q: "sched_queue s (p # ps)"
    using sim_queues(1) [OF assms(1)] by (cases "ready A") (auto simp: sched_queue_def)
  obtain s1 where s1: "schedule_remv p s = Ok (0, s1)" and o: "sched_only s s1"
    using schedule_remv_queue [OF q, of p] by auto
  then obtain s2 where s2: "thread_load p s1 = Ok s2" and s': "s' = th_upd p (\<lambda>t. t\<lparr>t_state := TS_RUNNING\<rparr>) s2"
    using assms(3) False schedule_next_front [OF q]
    by (auto simp: int_exit_def thread_get_active_def schedule_next_def and_then_eq_Ok split: if_splits)
  obtain ts f c a where "s2 = s1\<lparr>tss := ts, fpu := f, cr3 := c, active_pctx := a, active_thread := p\<rparr>"
    using thread_load_only [OF s2] .
  with s' assms(2) show ?thesis
    by (simp add: tick_ready_def no_fpu_data_def sched_only_fields [OF o])
qed

lemma fold_wake_ready: "\<exists>ws. ready (fold spec_wake es A) = ready A @ ws"
proof (induction es arbitrary: A)
  case (Cons e es)
  have "\<exists>vs. ready (spec_wake e A) = ready A @ vs" by (simp add: spec_wake_def split: list.split)
  then obtain vs where "ready (spec_wake e A) = ready A @ vs" ..
  moreover obtain ws where "ready (fold spec_wake es (spec_wake e A)) = ready (spec_wake e A) @ ws" using Cons by blast
  ultimately show ?case by simp
qed simp

text \<open>One tick: the first thread in line runs, the running one goes to the end.\<close>

lemma tick_moves:
  assumes "sim s A" and "running A = Some q" and "ready A = p # ps" and "tick_ready s" and "t_num r = 32"
    and "int_handler q (int_entry q r s) = Ok (c, s')"
  shows "\<exists>B ws. sim s' B \<and> tick_ready s' \<and> running B = Some p \<and> ready B = ps @ ws @ [q]"
proof -
  let ?s = "int_entry q r s"
  define C where "C = fold spec_wake (fired (vtimer_mask (timer_tick ?s + 1) (pit_freq ?s)) 16 0) A"
  define s1 where "s1 = snd (irq_reset 0 ?s)"
  have eq: "threads s1 = threads ?s" "int_handler_tab s1 = int_handler_tab s" "timer_tick s1 = timer_tick ?s" "pit_freq s1 = pit_freq ?s"
    by (simp_all add: s1_def irq_reset_def outb_def)
  have ready1: "tick_ready s1"
    using assms(4) by (simp add: tick_ready_def no_fpu_data_def eq)
  have sim1: "sim s1 A" using assms(1) by (simp add: s1_def irq_reset_sim)
  obtain s2 where s2: "timer_handler q s1 = Ok s2" and x: "int_exit s2 = Ok (c, s')"
    using assms(4-6) eq
    by (auto simp: int_handler_def irq_entry_def and_then_eq_Ok tick_ready_def simp flip: s1_def)
  have sim2: "sim s2 (spec_preempt C)"
    using timer_handler_sim [OF sim1 s2] assms(2) by (simp add: C_def eq)
  have "tick_ready s2" by (rule timer_handler_keeps [OF ready1 s2])
  then have "tick_ready s'" by (rule int_exit_keeps [OF sim2 _ x])
  moreover have "sim s' (spec_dispatch (spec_preempt C))" by (rule int_exit_sim(1) [OF sim2 x])
  moreover obtain ws where "ready C = p # ps @ ws" using fold_wake_ready assms(3) unfolding C_def by (metis append_Cons)
  moreover have "running C = Some q" using assms(2) by (simp add: C_def)
  ultimately show ?thesis
    by (intro exI [of _ "spec_dispatch (spec_preempt C)"] exI [of _ ws]) (simp add: spec_dispatch_def spec_preempt_def)
qed

lemma tick_returns:
  assumes "sim s A" and "running A = Some q" and "tick_ready s" and "t_num r = 32"
  shows "\<exists>c s'. int_handler q (int_entry q r s) = Ok (c, s')"
  using timer_step_returns [of "int_entry q r s" A q] assms by (auto simp: tick_ready_def no_fpu_data_def)

text \<open>The thread in place \<open>k\<close> of the line runs after exactly \<open>k + 1\<close> ticks.\<close>

lemma ticks_reach:
  assumes "sim s A" and "running A \<noteq> None" and "tick_ready s" and "k < length (ready A)" and "length rs = Suc k"
  shows "\<exists>s'. ticks rs s = Ok s' \<and> active_thread s' = ready A ! k"
  using assms
proof (induction rs arbitrary: s A k)
  case (Cons r rs)
  then obtain q p ps where q: "running A = Some q" and p: "ready A = p # ps" by (cases "ready A") auto
  let ?r = "r\<lparr>t_num := 32\<rparr>"
  have act: "active_thread s = q" using sim_queues(3) [OF Cons.prems(1)] q by simp
  obtain c s1 where s1: "int_handler q (int_entry q ?r s) = Ok (c, s1)"
    using tick_returns [OF Cons.prems(1) q Cons.prems(3), of ?r] by auto
  obtain B ws where B: "sim s1 B" "tick_ready s1" "running B = Some p" "ready B = ps @ ws @ [q]"
    using tick_moves [OF Cons.prems(1) q p Cons.prems(3) _ s1] by auto
  show ?case
  proof (cases k)
    case 0
    with Cons.prems(5) s1 act p B(3) sim_queues(3) [OF B(1)] show ?thesis by simp
  next
    case (Suc j)
    with Cons.prems(4,5) p have j: "j < length ps" "length rs = Suc j" by simp_all
    with Cons.IH [OF B(1) _ B(2), of j] B(3,4) obtain s2 where "ticks rs s1 = Ok s2" and "active_thread s2 = ps ! j"
      by (auto simp: nth_append)
    with s1 act p Suc show ?thesis by simp
  qed
qed simp

section \<open>Departures of the code from its intent\<close>

text \<open>
  Resuming a thread that was paused while it waited goes through \<open>event_wait\<close>, which gives up the processor on behalf of that
  thread: the caller stays marked as running, but is neither active nor in the scheduler's queue.
\<close>

lemma resume_drops_caller:
  assumes "thread_get (t_ebx (threads s img)) s = p" and "p \<noteq> NULL" and "p \<noteq> img" and "live s p" and "t_state (threads s p) = TS_PAUSEDW"
    and "unat (t_event (threads s p)) < EV_COUNT" and "irqstate s (unat (t_event (threads s p))) = 0" and "t_fxdata (threads s p) = NULL"
  shows "\<exists>s'. kcall_resume img s = Ok s' \<and> active_thread s' = NULL \<and> sched_head s' = sched_head s \<and> sched_tail s' = sched_tail s \<and>
    t_state (threads s' img) = t_state (threads s img)"
proof -
  have "thread_get (t_id (threads s p)) s = p" using assms(4) by (rule live_get)
  then have "event_wait (t_id (threads s p)) (t_event (threads s p)) s =
      Ok (0, th_upd p (\<lambda>t. t\<lparr>t_state := TS_WAITING\<rparr>) ((ev_enqueue p (t_event (threads s p)) s)\<lparr>active_thread := NULL\<rparr>))"
    by (rule event_wait_waits) (use assms in simp_all)
  then show ?thesis using assms by (simp add: kcall_resume_def Let_def set_eax_def)
qed

text \<open>
  A reaper is a paused thread in the queue of reapers. \<open>RESUME\<close> puts it in line, but does not take it out of that queue, so
  the next death puts it in line once more.
\<close>

lemma resume_keeps_reaper:
  assumes "thread_get (t_ebx (threads s img)) s = r" and "reaper_tail s = r" and "r \<noteq> NULL" and "r \<noteq> img"
    and "t_state (threads s r) = TS_PAUSED"
  shows "\<exists>s'. kcall_resume img s = Ok s' \<and> t_state (threads s' r) = TS_QUEUED \<and> reaper_tail s' = r"
  using assms by (simp add: kcall_resume_def set_eax_def th_upd_def Let_def schedule_push_def)

text \<open>An exception other than a page fault in a thread, which runs in ring 1 or 3, stops the kernel.\<close>

lemma fault_generic_stops: "t_cs (threads s img) AND 0x3 \<noteq> 0 \<Longrightarrow> fault_generic img s \<noteq> Ok s'"
  by (auto simp: fault_generic_def and_then_eq_Ok debug_panic_stops)

text \<open>After interrupt 8, which comes from the second controller, only the first one is reset.\<close>

lemma irq_reset_8: "out_log (snd (irq_reset 8 s)) = out_log s @ [(0x20, 0x20)]"
  by (simp add: irq_reset_def outb_def)

text \<open>The queue of faulting threads is linked through \<open>next_fault\<close>, but left through \<open>next\<close>.\<close>

lemma fault_pull_link: "fault_tail s \<noteq> NULL \<Longrightarrow> fault_tail (snd (fault_pull s)) = t_next (threads s (fault_tail s))"
  by (simp add: fault_pull_def Let_def)

text \<open>Likewise the queue of an event, when its first thread is removed.\<close>

lemma event_remv_link:
  "thread_get tid s = p \<Longrightarrow> p \<noteq> NULL \<Longrightarrow> unat event < EV_COUNT \<Longrightarrow> ev_front s (unat event) = p \<Longrightarrow>
   \<exists>s'. event_remv tid event s = Ok (0, s') \<and> ev_front s' (unat event) = t_next (threads s p)"
  using index_out_of_range_numeral(2) [of event] by (auto simp: event_remv_def Let_def)

section \<open>Properties\<close>

lemma demo_ready: "handlers_ready demo_threads" "tick_ready demo_threads"
  by (simp_all add: handlers_ready_def tick_ready_def no_fpu_data_def demo_threads_def zero_thread_def kernel_handlers_def)

abbreviation demo_registers :: thread where
  "demo_registers \<equiv> zero_thread\<lparr>t_num := 32, t_eax := 7\<rparr>"

lemma demo_orderly: "orderly (current idle demo_threads) (int_entry (current idle demo_threads) demo_registers demo_threads)"
  by (simp add: orderly_def)

lemma demo_interrupt: "\<exists>s'. interrupt idle demo_registers demo_threads s' \<and> live s' 0x2000"
proof -
  have r: "running demo_spec = Some 0x1000" "ready demo_spec = [0x2000]" by (simp_all add: demo_spec_def)
  have a: "active_thread demo_threads = 0x1000" by (simp add: demo_threads_def)
  have n: "t_num demo_registers = 32" by simp
  obtain c s' where s': "int_handler 0x1000 (int_entry 0x1000 demo_registers demo_threads) = Ok (c, s')"
    using tick_returns [OF demo_sim r(1) demo_ready(2) n] by blast
  then have "live s' 0x2000" using tick_moves [OF demo_sim r demo_ready(2) n s'] sim_states(1) by blast
  moreover have "interrupt idle demo_registers demo_threads s'" using s' by (simp add: interrupt_def current_def a)
  ultimately show ?thesis by blast
qed

lemma demo_step: "\<exists>s'. orderly_step idle demo_threads s' \<and> live s' 0x2000"
  using demo_interrupt [of idle] demo_orderly [of idle] orderly_step.intros by blast

text \<open>
  C1: The kernel implements the abstract scheduler. Whatever interrupt arrives (an exception, a tick, a device, a kernel call, or one without a handler), with whatever
  registers, if the kernel returns from it, then the state it leaves behind stands for a state that the abstract scheduler reaches in one step. The hypotheses are that the
  handlers are the ones that \<open>init\<close> registers; that the idle loop is interrupted only by the timer and the devices, its frame not being a thread's structure; and that
  the step is orderly. Excluded by the latter are \<open>PAUSE\<close> of a thread that waits for an event, \<open>SPAWN\<close> when the heap hands out a block in use,
  \<open>SETSTATE\<close> when the first reaper in line is not paused any more, and exceptions when the first debugger in line is not.
\<close>

theorem kernel_refines_scheduler:
  assumes "handlers_ready s" and "interrupt idle r s s'" and "orderly (current idle s) (int_entry (current idle s) r s)" and "sim s A"
  shows "\<exists>B. spec_step A B \<and> sim s' B"
  by (rule interrupt_sim [OF assms])

theorem kernel_refines_scheduler_witness:
  "\<exists>s' B. interrupt 0x9000 demo_registers demo_threads s' \<and> spec_step demo_spec B \<and> sim s' B"
  using demo_interrupt [of "0x9000"] kernel_refines_scheduler [OF demo_ready(1) _ demo_orderly demo_sim] by blast

text \<open>
  C6: In every state that orderly interrupts reach (those of C1, from a state that stands for one of the abstract scheduler, with the handlers registered), the active thread is
  the only one that is marked as running, and a thread is marked as queued exactly when it is in the scheduler's queue. (After \<open>PAUSE\<close> of a waiting thread, which is not orderly, this may fail.)
\<close>

theorem kernel_one_running:
  assumes "(orderly_step idle)\<^sup>*\<^sup>* s s'" and "handlers_ready s" and "sim s A" and "live s' p"
  shows "(t_state (threads s' p) = TS_RUNNING \<longleftrightarrow> active_thread s' = p) \<and>
    (\<exists>xs. sched_queue s' xs \<and> (t_state (threads s' p) = TS_QUEUED \<longleftrightarrow> p \<in> set xs))"
proof -
  obtain B where B: "sim s' B" using orderly_run_sim [OF assms(1-3)] by blast
  have nn: "p \<noteq> NULL" using assms(4) by (simp add: live_def)
  have "active_thread s' = p \<Longrightarrow> running B = Some p"
    using sim_queues(3) [OF B] nn by (cases "running B") auto
  then have "t_state (threads s' p) = TS_RUNNING \<longleftrightarrow> active_thread s' = p"
    using sim_place(1) [OF B assms(4)] sim_states(1) [OF B] by blast
  moreover have "t_state (threads s' p) = TS_QUEUED \<longleftrightarrow> p \<in> set (ready B)"
    using sim_place(2) [OF B assms(4)] sim_states(2) [OF B] by blast
  ultimately show ?thesis using sim_queues(1) [OF B] by blast
qed

theorem kernel_one_running_witness:
  "\<exists>s'. orderly_step 0x9000 demo_threads s' \<and>
     (t_state (threads s' 0x2000) = TS_RUNNING \<longleftrightarrow> active_thread s' = 0x2000)"
proof -
  obtain s' where s': "orderly_step 0x9000 demo_threads s'" and "live s' 0x2000" using demo_step by blast
  note run = r_into_rtranclp [where r = "orderly_step 0x9000", OF s']
  with s' \<open>live s' 0x2000\<close> show ?thesis using kernel_one_running [OF run demo_ready(1) demo_sim] by blast
qed

text \<open>
  C19: In every state that orderly interrupts reach (those of C1, from a state that stands for one of the abstract scheduler, with the handlers registered), the record of every
  thread is well formed: its number is the one under which the table has it, it is running, queued, waiting or paused, and if it waits, it is in the queue of its event. The fifth
  state of a thread, \<open>PAUSEDW\<close>, arises only from \<open>PAUSE\<close> of a waiting thread, which is not orderly.
\<close>

theorem kernel_threads_typed:
  assumes "(orderly_step idle)\<^sup>*\<^sup>* s s'" and "handlers_ready s" and "sim s A" and "live s' p"
  shows "thread_get (t_id (threads s' p)) s' = p \<and>
    t_state (threads s' p) \<in> {TS_RUNNING, TS_QUEUED, TS_WAITING, TS_PAUSED} \<and>
    (t_state (threads s' p) = TS_WAITING \<longrightarrow>
      (\<exists>e xs. e < EV_COUNT \<and> t_event (threads s' p) = of_nat e \<and> ev_queue e s' xs \<and> p \<in> set xs))"
proof -
  obtain B where B: "sim s' B" using orderly_run_sim [OF assms(1-3)] by blast
  have "p \<in> members B" using B assms(4) by (auto simp: sim_def)
  then have "t_state (threads s' p) \<in> {TS_RUNNING, TS_QUEUED, TS_WAITING, TS_PAUSED}"
    using sim_states [OF B] by (auto simp: members_def)
  moreover have "\<exists>e xs. e < EV_COUNT \<and> t_event (threads s' p) = of_nat e \<and> ev_queue e s' xs \<and> p \<in> set xs"
    if "t_state (threads s' p) = TS_WAITING"
    using sim_place(3) [OF B assms(4) that] sim_queues(2) [OF B] by (intro exI [of _ "unat (t_event (threads s' p))"]) auto
  ultimately show ?thesis using live_get [OF assms(4)] by blast
qed

theorem kernel_threads_typed_witness:
  "\<exists>s'. orderly_step 0x9000 demo_threads s' \<and> thread_get (t_id (threads s' 0x2000)) s' = 0x2000"
proof -
  obtain s' where s': "orderly_step 0x9000 demo_threads s'" and "live s' 0x2000" using demo_step by blast
  note run = r_into_rtranclp [where r = "orderly_step 0x9000", OF s']
  with s' \<open>live s' 0x2000\<close> show ?thesis using kernel_threads_typed [OF run demo_ready(1) demo_sim] by blast
qed

text \<open>
  C18: An orderly interrupt (one of C1, in a state that stands for one of the abstract scheduler, with the handlers registered) loses and invents no thread: it keeps the set of
  live threads, or adds one new thread to it, or removes one that was paused. For \<open>SPAWN\<close> this rests on the heap: a block that is still in use would replace its owner.
\<close>

theorem kernel_keeps_threads:
  assumes "handlers_ready s" and "interrupt idle r s s'" and "orderly (current idle s) (int_entry (current idle s) r s)" and "sim s A"
  shows "{p. live s' p} = {p. live s p} \<or> (\<exists>p. \<not> live s p \<and> {p. live s' p} = insert p {p. live s p}) \<or>
    (\<exists>p. live s p \<and> t_state (threads s p) = TS_PAUSED \<and> {p. live s' p} = {p. live s p} - {p})"
proof -
  obtain B where B: "spec_step A B" "sim s' B" using interrupt_sim [OF assms] by blast
  have m: "{p. live s p} = members A" "{p. live s' p} = members B" using assms(4) B(2) by (simp_all add: sim_def)
  show ?thesis
    using spec_step_members [OF B(1) assms(4)] sim_states(4) [OF assms(4)] unfolding m members_live [OF assms(4), symmetric] by blast
qed

theorem kernel_keeps_threads_witness:
  "\<exists>s'. interrupt 0x9000 demo_registers demo_threads s' \<and> {p. live demo_threads p} - {p. live s' p} \<subseteq> {0x4000}"
proof -
  obtain s' where s': "interrupt 0x9000 demo_registers demo_threads s'" using demo_interrupt by blast
  have "t_state (threads demo_threads p) = TS_PAUSED \<longleftrightarrow> p = 0x4000" for p by (simp add: demo_threads_def zero_thread_def)
  then have "{p. live demo_threads p} - {p. live s' p} \<subseteq> {0x4000}"
    using kernel_keeps_threads [OF demo_ready(1) s' demo_orderly demo_sim] by blast
  with s' show ?thesis by blast
qed

text \<open>
  C7: Progress and fairness of preemption: while some thread is running and no thread has FPU data (none has until \<open>SETSTATE\<close> gives it some), with the timer
  at 64 Hz, the thread in place \<open>k\<close> of the scheduler's queue is the active one after exactly \<open>k + 1\<close> ticks in a row: these ticks all come back from the kernel,
  whatever the threads did to their registers before each of them.
\<close>

theorem tick_fairness:
  assumes "sim s A" and "running A \<noteq> None" and "tick_ready s" and "k < length (ready A)" and "length rs = Suc k"
  shows "\<exists>s'. ticks rs s = Ok s' \<and> active_thread s' = ready A ! k"
  by (rule ticks_reach [OF assms])

theorem tick_fairness_witness:
  "\<exists>s'. ticks [zero_thread] demo_threads = Ok s' \<and> active_thread s' = 0x2000"
  using tick_fairness [OF demo_sim _ demo_ready(2), of 0 "[zero_thread]"] by (simp add: demo_spec_def)

text \<open>
  C10: A system call and its return: a thread that makes a call in user mode enters its system layer, in ring 1, where that layer last left;
  when the layer returns from the call, whatever its registers then are, the thread is back in user mode, in ring 3, at the address and with the stack from which
  it called, the result in \<open>eax\<close> is the layer's \<open>ebp\<close>, and the next call will enter where the layer returned.
\<close>

theorem syscall_sysret:
  assumes "t_flags (threads s img) AND TF_USER \<noteq> 0" and "t_eax r = 0x0F"
  shows "\<exists>s1 s2. kcall img s = Ok s1 \<and> t_eip (threads s1 img) = t_sys_eip (threads s img) \<and>
      t_useresp (threads s1 img) = t_sys_esp (threads s img) \<and> t_cs (threads s1 img) = 0x19 \<and>
    kcall img (int_entry img r s1) = Ok s2 \<and> t_eip (threads s2 img) = t_eip (threads s img) \<and>
      t_useresp (threads s2 img) = t_useresp (threads s img) \<and> t_cs (threads s2 img) = 0x2B \<and>
      t_flags (threads s2 img) = t_flags (threads s img) \<and> t_eax (threads s2 img) = t_ebp r \<and>
      t_sys_eip (threads s2 img) = t_eip r \<and> t_sys_esp (threads s2 img) = t_useresp r"
proof -
  let ?f = "t_flags (threads s img)"
  have b: "bit ?f 1" using assms(1) by (auto simp: bit_iff_and_push_bit_not_eq_0)
  have bit_2: "bit (2 :: u8) n \<longleftrightarrow> n = 1" for n
    using bit_exp_iff [where 'a = u8, of 1 n] by auto
  have flags: "(?f AND NOT TF_USER) AND TF_USER = 0" "?f AND NOT TF_USER OR TF_USER = ?f"
    by (rule bit_word_eqI, use b in \<open>auto simp: bit_simps bit_2\<close>)+
  show ?thesis
    using assms flags by (simp add: kcall_def user_syscall_def kcall_sysret_def int_entry_def)
qed

theorem syscall_sysret_witness:
  "\<exists>s1 s2. kcall 0x1000 (th_upd 0x1000 (\<lambda>t. t\<lparr>t_flags := TF_USER, t_eip := 0x8000, t_sys_eip := 0xC0000100\<rparr>) demo_threads) = Ok s1 \<and>
     t_eip (threads s1 0x1000) = 0xC0000100 \<and>
     kcall 0x1000 (int_entry 0x1000 (zero_thread\<lparr>t_eax := 0x0F, t_eip := 0xC0000200\<rparr>) s1) = Ok s2 \<and>
     t_eip (threads s2 0x1000) = 0x8000 \<and> t_sys_eip (threads s2 0x1000) = 0xC0000200"
  using syscall_sysret [of "th_upd 0x1000 (\<lambda>t. t\<lparr>t_flags := TF_USER, t_eip := 0x8000, t_sys_eip := 0xC0000100\<rparr>) demo_threads" "0x1000"
    "zero_thread\<lparr>t_eax := 0x0F, t_eip := 0xC0000200\<rparr>"]
  by auto

end
