(* ===== verification/Elf.thy ===== *)
theory Elf
  imports Heap
begin

text \<open>
  The loader of ELF executables (\<open>src/kernel/elf.c\<close>), with which the kernel starts the system layer.
  The file lies in memory; its headers are read field by field, where and as often as the
  code reads them.
\<close>

text \<open>Offsets of the members of \<open>struct elf32_ehdr\<close> and of \<open>struct elf32_phdr\<close>, which has 32 bytes.\<close>

abbreviation (input) off_e_type :: u32 where "off_e_type \<equiv> 16"
abbreviation (input) off_e_machine :: u32 where "off_e_machine \<equiv> 18"
abbreviation (input) off_e_version :: u32 where "off_e_version \<equiv> 20"
abbreviation (input) off_e_entry :: u32 where "off_e_entry \<equiv> 24"
abbreviation (input) off_e_phoff :: u32 where "off_e_phoff \<equiv> 28"
abbreviation (input) off_e_phnum :: u32 where "off_e_phnum \<equiv> 44"
abbreviation (input) off_p_type :: u32 where "off_p_type \<equiv> 0"
abbreviation (input) off_p_offset :: u32 where "off_p_offset \<equiv> 4"
abbreviation (input) off_p_vaddr :: u32 where "off_p_vaddr \<equiv> 8"
abbreviation (input) off_p_filesz :: u32 where "off_p_filesz \<equiv> 16"
abbreviation (input) off_p_memsz :: u32 where "off_p_memsz \<equiv> 20"
abbreviation (input) off_p_flags :: u32 where "off_p_flags \<equiv> 24"
abbreviation (input) sizeof_phdr :: u32 where "sizeof_phdr \<equiv> 32"
abbreviation (input) PT_LOAD :: u32 where "PT_LOAD \<equiv> 1"
abbreviation (input) PF_W :: u32 where "PF_W \<equiv> 2"

section \<open>Operations\<close>

definition elf_check_file :: "ptr \<Rightarrow> 'a machine_scheme \<Rightarrow> u32 outcome" where
  "elf_check_file file s =
     and_then (vread8 file s) (\<lambda>mag0. if mag0 \<noteq> 0x7F then Ok 1 else
     and_then (vread8 (file + 1) s) (\<lambda>mag1. if mag1 \<noteq> 0x45 then Ok 1 else
     and_then (vread8 (file + 2) s) (\<lambda>mag2. if mag2 \<noteq> 0x4C then Ok 1 else
     and_then (vread8 (file + 3) s) (\<lambda>mag3. if mag3 \<noteq> 0x46 then Ok 1 else
     and_then (load16 (file + off_e_type) s) (\<lambda>e_type. if e_type \<noteq> 2 then Ok 1 else
     and_then (load16 (file + off_e_machine) s) (\<lambda>e_machine. if e_machine \<noteq> 3 then Ok 1 else
     and_then (load32 (file + off_e_version) s) (\<lambda>e_version. if e_version \<noteq> 1 then Ok 1 else Ok 0)))))))"

text \<open>
  The conditional operator binds weaker than the bitwise or, so that the flags of a segment are the
  condition \<open>PF_USER | PF_PRES | (p_flags & PF_W)\<close>, which is never zero, and not a part of the result.
\<close>

definition elf_pflags :: "u32 \<Rightarrow> u32" where
  "elf_pflags p_flags = (if PF_USER OR PF_PRES OR (p_flags AND PF_W) \<noteq> 0 then PF_RW else 0)"

definition elf_load_phdr :: "ptr \<Rightarrow> ptr \<Rightarrow> 'a frame_state_scheme \<Rightarrow> 'a frame_state_scheme outcome" where
  "elf_load_phdr file phdr s =
     and_then (load32 (phdr + off_p_type) s) (\<lambda>p_type.
     if p_type \<noteq> PT_LOAD then Ok s
     else
       and_then (load32 (phdr + off_p_offset) s) (\<lambda>p_offset.
       and_then (load32 (phdr + off_p_vaddr) s) (\<lambda>dst.
       and_then (load32 (phdr + off_p_flags) s) (\<lambda>p_flags.
       and_then (load32 (phdr + off_p_memsz) s) (\<lambda>p_memsz.
       and_then (mem_alloc dst p_memsz (elf_pflags p_flags) s) (\<lambda>s.
       and_then (load32 (phdr + off_p_filesz) s) (\<lambda>p_filesz.
       and_then (memcpy dst (file + p_offset) (unat p_filesz) s) (\<lambda>s.
       and_then (load32 (phdr + off_p_filesz) s) (\<lambda>p_filesz.
       and_then (load32 (phdr + off_p_memsz) s) (\<lambda>p_memsz.
       memclr (dst + p_filesz) (unat (p_memsz - p_filesz)) s))))))))))"

text \<open>The loop over the program headers reads the number of headers in every turn; it has 16 bits.\<close>

function elf_load_loop :: "ptr \<Rightarrow> ptr \<Rightarrow> nat \<Rightarrow> 'a frame_state_scheme \<Rightarrow> 'a frame_state_scheme outcome" where
  "elf_load_loop file phdr_tbl i s =
     and_then (load16 (file + off_e_phnum) s) (\<lambda>e_phnum.
       if i < unat e_phnum
       then and_then (elf_load_phdr file (phdr_tbl + sizeof_phdr * of_nat i) s) (elf_load_loop file phdr_tbl (Suc i))
       else Ok s)"
  by pat_completeness auto
termination
proof (relation "measure (\<lambda>(file, phdr_tbl, i, s). 65536 - i)")
  fix img tbl i s and e_phnum :: u16 and s'
  assume "i < unat e_phnum"
  moreover have "unat e_phnum < 65536" using unsigned_less [of e_phnum] by simp
  ultimately show "((img, tbl, Suc i, s'), img, tbl, i, s) \<in> measure (\<lambda>(file, phdr_tbl, i, s). 65536 - i)"
    by simp
qed simp

declare elf_load_loop.simps [simp del]

definition elf_load_file :: "ptr \<Rightarrow> 'a frame_state_scheme \<Rightarrow> 'a frame_state_scheme outcome" where
  "elf_load_file file s =
     and_then (load32 (file + off_e_phoff) s) (\<lambda>e_phoff. elf_load_loop file (file + e_phoff) 0 s)"

section \<open>Checking a header\<close>

lemma load_bytes_at: "load_bytes p n s = Ok bs \<Longrightarrow> k < n \<Longrightarrow> vread8 (p + of_nat k) s = Ok (bs ! k)"
proof (induction n arbitrary: p bs k)
  case (Suc n)
  then obtain c cs where c: "vread8 p s = Ok c" "load_bytes (p + 1) n s = Ok cs" "bs = c # cs"
    by (auto simp: outcome_simps)
  show ?case
  proof (cases k)
    case (Suc j)
    then show ?thesis using Suc.IH [OF c(2), of j] Suc.prems c(3) by (simp add: add.assoc)
  qed (use c in simp)
qed simp

lemma load16_at:
  assumes "load_bytes p n s = Ok bs" and "Suc k < n"
  shows "load16 (p + of_nat k) s = Ok (ucast (bs ! k) OR push_bit 8 (ucast (bs ! Suc k)))"
  using load_bytes_at [OF assms(1), of k] load_bytes_at [OF assms] assms(2)
  by (simp add: load16_def numeral_2_eq_2 ac_simps)

lemma load32_at:
  assumes "load_bytes p n s = Ok bs" and "k + 3 < n"
  shows "load32 (p + of_nat k) s = Ok (bytes_word [bs ! k, bs ! (k + 1), bs ! (k + 2), bs ! (k + 3)])"
  using load_bytes_at [OF assms(1), of k] load_bytes_at [OF assms(1), of "k + 1"]
    load_bytes_at [OF assms(1), of "k + 2"] load_bytes_at [OF assms(1), of "k + 3"] assms(2)
  by (simp add: load32_def eval_nat_numeral ac_simps)

lemma half_eq: "(ucast (a :: u8) OR push_bit 8 (ucast (b :: u8)) :: u16) = w \<longleftrightarrow> a = ucast w \<and> b = ucast (drop_bit 8 w)"
proof
  assume w: "(ucast a OR push_bit 8 (ucast b) :: u16) = w"
  show "a = ucast w \<and> b = ucast (drop_bit 8 w)"
    unfolding w [symmetric] by (auto intro!: bit_word_eqI simp: bit_simps dest: bit_u8_beyond)
next
  assume "a = ucast w \<and> b = ucast (drop_bit 8 w)"
  then show "(ucast a OR push_bit 8 (ucast b) :: u16) = w"
    by (auto intro!: bit_word_eqI simp: bit_simps)
qed

lemma bytes_word_eq: "bytes_word [a, b, c, d] = w \<longleftrightarrow> [a, b, c, d] = word_bytes w"
proof
  assume w: "bytes_word [a, b, c, d] = w"
  show "[a, b, c, d] = word_bytes w"
    unfolding w [symmetric]
    by (auto intro!: bit_word_eqI simp: bytes_word_def word_bytes_def bit_set_lane bit_get_lane)
next
  assume "[a, b, c, d] = word_bytes w"
  then show "bytes_word [a, b, c, d] = w" by simp
qed

text \<open>
  C36: \<open>elf_check_file\<close> accepts a file exactly if it starts with the magic number of ELF and is an executable (type 2)
  for the 386 (machine 3) of version 1, all of them in little endian, and otherwise reports an error.
\<close>

theorem elf_check_file_accepts:
  assumes "load_bytes file 24 s = Ok bs"
  shows "elf_check_file file s =
    Ok (if take 4 bs = [0x7F, 0x45, 0x4C, 0x46] \<and> drop 16 bs = [2, 0, 3, 0, 1, 0, 0, 0] then 0 else 1)"
proof -
  note at = load_bytes_at [OF assms] and at16 = load16_at [OF assms] and at32 = load32_at [OF assms]
  have len: "length bs = 24"
  proof -
    have "load_bytes p n s = Ok cs \<Longrightarrow> length cs = n" for p n cs
      by (induction n arbitrary: p cs) (auto simp: outcome_simps)
    then show ?thesis using assms by blast
  qed
  have "vread8 file s = Ok (bs ! 0)" "vread8 (file + 1) s = Ok (bs ! 1)" "vread8 (file + 2) s = Ok (bs ! 2)"
    "vread8 (file + 3) s = Ok (bs ! 3)"
    using at [of 0] at [of 1] at [of 2] at [of 3] by simp_all
  moreover have "load16 (file + 16) s = Ok (ucast (bs ! 16) OR push_bit 8 (ucast (bs ! 17)))"
    "load16 (file + 18) s = Ok (ucast (bs ! 18) OR push_bit 8 (ucast (bs ! 19)))"
    using at16 [of 16] at16 [of 18] by simp_all
  moreover have "load32 (file + 20) s = Ok (bytes_word [bs ! 20, bs ! 21, bs ! 22, bs ! 23])"
    using at32 [of 20] by simp
  moreover have "take 4 bs = [bs ! 0, bs ! 1, bs ! 2, bs ! 3]"
    using len by (simp add: list_eq_iff_nth_eq less_Suc_eq eval_nat_numeral)
  moreover have "drop 16 bs = [bs ! 16, bs ! 17, bs ! 18, bs ! 19, bs ! 20, bs ! 21, bs ! 22, bs ! 23]"
  proof (rule nth_equalityI)
    fix i assume "i < length (drop 16 bs)"
    then have "i \<in> {..<8}" using len by simp
    then show "drop 16 bs ! i = [bs ! 16, bs ! 17, bs ! 18, bs ! 19, bs ! 20, bs ! 21, bs ! 22, bs ! 23] ! i"
      using len by (auto simp: lessThan_nat_numeral lessThan_Suc)
  qed (use len in simp)
  ultimately show ?thesis
    by (auto simp: elf_check_file_def half_eq bytes_word_eq word_bytes_def get_lane_def)
qed

section \<open>Loading a segment\<close>

lemma load32_kept:
  assumes "writes L s s'" and "readable s q ks" and "length ks = 4" and "set ks \<inter> L = {}"
  shows "load32 q s' = load32 q s"
  using assms load32_readable [of s q ks] load32_readable [of s' q ks] writes_readable [OF assms(1), of q ks]
    writes_kept [OF assms(1,4)] by simp

lemma elf_pflags_rw [simp]: "elf_pflags p_flags = PF_RW"
  by (simp add: elf_pflags_def or_eq_0_iff)

text \<open>
  C8: Loading a segment: once its pages are mapped, to memory apart from the file, the bytes of the segment in
  the file are copied to its address, the rest up to its size in memory is cleared, and
  nothing else is written.
\<close>

theorem elf_load_phdr_loads:
  assumes hdr: "load32 phdr s = Ok PT_LOAD" "load32 (phdr + 4) s = Ok offset" "load32 (phdr + 8) s = Ok dst"
      "load32 (phdr + 24) s = Ok flags" "load32 (phdr + 20) s = Ok memsz"
    and alloc: "mem_alloc dst memsz PF_RW s = Ok s1"
    and sizes: "load32 (phdr + 16) s1 = Ok filesz" "load32 (phdr + 20) s1 = Ok memsz"
      "readable s1 (phdr + 16) hs" "length hs = 8"
    and seg: "writable s1 dst (ds @ zs)" "length ds = unat filesz" "length (ds @ zs) = unat memsz"
    and src: "readable s1 (file + offset) ps" "length ps = unat filesz"
    and apart: "(set ps \<union> set hs) \<inter> set (ds @ zs) = {}"
  shows "\<exists>s'. elf_load_phdr file phdr s = Ok s' \<and>
    load_bytes dst (unat filesz) s' = load_bytes (file + offset) (unat filesz) s1 \<and>
    load_bytes (dst + filesz) (unat memsz - unat filesz) s' = Ok (replicate (unat memsz - unat filesz) 0) \<and>
    writes (set (ds @ zs)) s1 s'"
proof -
  note parts = writable_parts [OF seg(1)]
  obtain s2 where s2: "memcpy dst (file + offset) (unat filesz) s1 = Ok s2" "map (mem_at s2) ds = map (mem_at s1) ps"
    "writes (set ds) s1 s2"
    using memcpy_writable [OF parts(1) src(1)] src(2) seg(2) apart by auto
  have hs: "readable s1 (phdr + 16) (take 4 hs)" "readable s1 (phdr + 20) (drop 4 hs)"
    using sizes(3,4) readable_append [of s1 "phdr + 16" "take 4 hs" "drop 4 hs"] by (simp_all add: min_def add.commute)
  have away: "set (take 4 hs) \<inter> set ds = {}" "set (drop 4 hs) \<inter> set ds = {}"
    using apart set_take_subset [of 4 hs] set_drop_subset [of 4 hs] by auto
  have h: "load32 (phdr + 16) s2 = Ok filesz" "load32 (phdr + 20) s2 = Ok memsz"
    using load32_kept [OF s2(3) hs(1) _ away(1)] load32_kept [OF s2(3) hs(2) _ away(2)] sizes by simp_all
  have len: "length zs = unat memsz - unat filesz" and le: "unat filesz \<le> unat memsz" using seg(2,3) by auto
  then have diff: "unat (memsz - filesz) = length zs" by (simp add: unat_sub word_le_nat_alt)
  have "writable s2 (dst + filesz) zs" using parts(2) seg(2) writes_writable [OF s2(3)] by simp
  then obtain s' where s': "memclr (dst + filesz) (length zs) s2 = Ok s'" "\<forall>l\<in>set zs. mem_at s' l = 0" "writes (set zs) s2 s'"
    using memclr_writable by blast
  have "elf_load_phdr file phdr s = Ok s'"
    by (simp add: elf_load_phdr_def hdr alloc sizes s2(1) h diff s'(1))
  moreover have w: "writes (set (ds @ zs)) s1 s'" using writes_trans [OF s2(3) s'(3)] by simp
  moreover have "load_bytes dst (unat filesz) s' = load_bytes (file + offset) (unat filesz) s1"
  proof -
    have "readable s' dst ds" using parts(1) writes_readable [OF w] by (simp add: writable_def)
    moreover have "map (mem_at s') ds = map (mem_at s1) ps" using writes_kept [OF s'(3) parts(3)] s2(2) by simp
    ultimately show ?thesis using load_readable [of s' dst ds] load_readable [OF src(1)] src(2) seg(2) by simp
  qed
  moreover have "load_bytes (dst + filesz) (unat memsz - unat filesz) s' = Ok (replicate (unat memsz - unat filesz) 0)"
  proof -
    have "readable s' (dst + filesz) zs" using parts(2) writes_readable [OF w] seg(2) by (simp add: writable_def)
    moreover have "map (mem_at s') zs = replicate (length zs) 0" using s'(2) by (simp add: list_eq_iff_nth_eq)
    ultimately show ?thesis using load_readable [of s' "dst + filesz" zs] len by simp
  qed
  ultimately show ?thesis by blast
qed

section \<open>An example\<close>

text \<open>
  A file at \<open>0x3000\<close> with one program header, at \<open>0x3034\<close>: the four bytes at \<open>0x3060\<close> go to \<open>0x3100\<close>, where the
  segment takes eight bytes.
\<close>

definition demo_elf :: frame_state where
  "demo_elf = demo_frames\<lparr>pmem := (pmem demo_frames)(5 := (\<lambda>_. 0)
     (0 := 0x464C457F, 4 := 0x00030002, 5 := 1, 6 := 0x3100, 7 := 0x34, 11 := 1,
      13 := 1, 14 := 0x60, 15 := 0x3100, 17 := 4, 18 := 8, 19 := 4, 24 := 0xDDCCBBAA, 65 := 0x12345678))\<rparr>"

lemma demo_elf_loc: "frame_of va = 3 \<Longrightarrow> loc demo_elf va = Ok (5, widx va, ucast va)"
proof -
  assume a: "frame_of va = 3"
  have w: "mmu_walk demo_elf va = mmu_walk demo_frames va"
    by (simp add: mmu_walk_def pde_of_def pte_of_def demo_elf_def demo_frames_def frame_of_def)
  show ?thesis using demo_loc [OF a] by (simp add: loc_def w)
qed

lemma demo_elf_byte:
  "frame_of va = 3 \<Longrightarrow> vread8 va demo_elf = Ok (get_lane (8 * unat (ucast va :: 2 word)) (pmem demo_elf 5 (widx va)))"
  by (simp add: vread8_loc demo_elf_loc mem_at_def)

lemma load_bytes_more:
  "0 < n \<Longrightarrow> load_bytes p n s = and_then (vread8 p s) (\<lambda>b. and_then (load_bytes (p + 1) (n - 1) s) (\<lambda>bs. Ok (b # bs)))"
  by (cases n) simp_all

lemma demo_elf_words:
  "pmem demo_elf 5 = (\<lambda>_. 0)
     (0 := 0x464C457F, 4 := 0x00030002, 5 := 1, 6 := 0x3100, 7 := 0x34, 11 := 1,
      13 := 1, 14 := 0x60, 15 := 0x3100, 17 := 4, 18 := 8, 19 := 4, 24 := 0xDDCCBBAA, 65 := 0x12345678)"
  by (simp add: demo_elf_def)

lemmas demo_elf_mem = load_bytes_more demo_elf_words demo_elf_byte frame_of_def widx_def get_lane_def

lemma demo_elf_header:
  "load_bytes 0x3000 24 demo_elf =
     Ok [0x7F, 0x45, 0x4C, 0x46, 0, 0, 0, 0, 0, 0, 0, 0, 0, 0, 0, 0, 2, 0, 3, 0, 1, 0, 0, 0]"
  by (simp add: demo_elf_mem)

theorem elf_check_file_accepts_witness: "elf_check_file 0x3000 demo_elf = Ok 0"
  using elf_check_file_accepts [OF demo_elf_header] by simp

lemma demo_elf_phdr:
  "load32 0x3034 demo_elf = Ok 1" "load32 0x3038 demo_elf = Ok 0x60" "load32 0x303C demo_elf = Ok 0x3100"
  "load32 0x304C demo_elf = Ok 4" "load32 0x3048 demo_elf = Ok 8" "load32 0x3044 demo_elf = Ok 4"
  by (simp_all add: load32_def demo_elf_mem bytes_word_def set_lane_def mask_eq_exp_minus_1)

lemma demo_elf_alloc: "mem_alloc 0x3100 8 PF_RW demo_elf = Ok demo_elf"
proof -
  have g: "page_get 0x3000 demo_elf = Ok 0x5003"
    by (simp add: page_get_def vread_def mmu_walk_def pde_of_def pte_of_def cmap_at_def ctbl_at_def pdx_def ptx_def
        widx_def frame_of_def demo_elf_def demo_frames_def)
  have e: "mem_alloc_loop 0x4000 0x3108 PF_RW demo_elf = Ok demo_elf" by (subst mem_alloc_loop.simps) simp
  have "mem_alloc_loop 0x3000 0x3108 PF_RW demo_elf = Ok demo_elf" by (subst mem_alloc_loop.simps) (simp add: g e)
  then show ?thesis by (simp add: mem_alloc_def)
qed

lemma demo_elf_tables: "table_frames demo_elf = {1, 2}"
proof -
  have "table_frames demo_elf = table_frames demo_frames"
    by (simp add: table_frames_def dir_def demo_elf_def) (simp add: demo_frames_def frame_of_def)
  then show ?thesis by (simp add: demo_tables)
qed

theorem elf_load_phdr_loads_witness:
  "\<exists>s'. elf_load_phdr 0x3000 0x3034 demo_elf = Ok s' \<and>
     load_bytes 0x3100 4 s' = Ok [0xAA, 0xBB, 0xCC, 0xDD] \<and> load_bytes 0x3104 4 s' = Ok [0, 0, 0, 0]"
proof -
  let ?ds = "[(5, 64, 0), (5, 64, 1), (5, 64, 2), (5, 64, 3)] :: location list"
  let ?zs = "[(5, 65, 0), (5, 65, 1), (5, 65, 2), (5, 65, 3)] :: location list"
  let ?ps = "[(5, 24, 0), (5, 24, 1), (5, 24, 2), (5, 24, 3)] :: location list"
  let ?hs = "[(5, 17, 0), (5, 17, 1), (5, 17, 2), (5, 17, 3), (5, 18, 0), (5, 18, 1), (5, 18, 2), (5, 18, 3)] :: location list"
  note at = demo_elf_loc frame_of_def widx_def
  have "\<exists>s'. elf_load_phdr 0x3000 0x3034 demo_elf = Ok s' \<and>
    load_bytes 0x3100 (unat (4 :: u32)) s' = load_bytes (0x3000 + 0x60) (unat (4 :: u32)) demo_elf \<and>
    load_bytes (0x3100 + 4) (unat (8 :: u32) - unat (4 :: u32)) s' = Ok (replicate (unat (8 :: u32) - unat (4 :: u32)) 0) \<and>
    writes (set (?ds @ ?zs)) demo_elf s'"
  proof (rule elf_load_phdr_loads)
    show "writable demo_elf 0x3100 (?ds @ ?zs)" by (simp add: writable_def at demo_elf_tables)
    show "readable demo_elf (0x3000 + 0x60) ?ps" by (simp add: at)
    show "readable demo_elf (0x3034 + 16) ?hs" by (simp add: at)
  qed (simp_all add: demo_elf_phdr demo_elf_alloc)
  moreover have "load_bytes 0x3060 4 demo_elf = Ok [0xAA, 0xBB, 0xCC, 0xDD]" by (simp add: demo_elf_mem)
  moreover have "replicate 4 (0 :: u8) = [0, 0, 0, 0]" by (simp add: numeral_eq_Suc)
  ultimately show ?thesis by auto
qed

end
