(* ===== verification/Boot.thy ===== *)
theory Boot
  imports Kernel Elf
begin

text \<open>
  The initialization of the kernel (\<open>src/kernel/init.c\<close>), up to the first thread. The structures of
  the boot loader are read from memory, where and as often as the code reads them. The address of
  \<open>init_stack\<close> and the flags of the processor are parameters.
\<close>

abbreviation (input) KERNEL_ADDR_BASE :: u32 where "KERNEL_ADDR_BASE \<equiv> 0xF0000000"
abbreviation (input) KERNEL_ADDR_SIZE :: u32 where "KERNEL_ADDR_SIZE \<equiv> 0x10000000"
abbreviation (input) SYSTEM_ADDR_SIZE :: u32 where "SYSTEM_ADDR_SIZE \<equiv> 0x30000000"

text \<open>Offsets of the members of \<open>struct multiboot\<close>, \<open>struct module\<close> and \<open>struct memory_map\<close>, which has 24 bytes.\<close>

abbreviation (input) off_mods_count :: u32 where "off_mods_count \<equiv> 20"
abbreviation (input) off_mods_addr :: u32 where "off_mods_addr \<equiv> 24"
abbreviation (input) off_mmap_length :: u32 where "off_mmap_length \<equiv> 44"
abbreviation (input) off_mmap_addr :: u32 where "off_mmap_addr \<equiv> 48"
abbreviation (input) off_mod_start :: u32 where "off_mod_start \<equiv> 0"
abbreviation (input) off_base_addr_low :: u32 where "off_base_addr_low \<equiv> 4"
abbreviation (input) off_length_low :: u32 where "off_length_low \<equiv> 12"
abbreviation (input) off_type :: u32 where "off_type \<equiv> 20"
abbreviation (input) sizeof_memory_map :: u32 where "sizeof_memory_map \<equiv> 24"

section \<open>Memory\<close>

text \<open>Both loops count \<open>i\<close> up to a constant: \<open>n\<close> turns remain. The second loop of \<open>init\<close> starts at \<open>SYSTEM_ADDR_SIZE\<close>.\<close>

primrec touch_loop :: "nat \<Rightarrow> u32 \<Rightarrow> 'a frame_state_scheme \<Rightarrow> 'a frame_state_scheme outcome" where
  "touch_loop 0 page s = Ok s"
| "touch_loop (Suc n) page s = and_then (page_touch page s) (touch_loop n (page + 0x400000))"

primrec boot_frames_loop :: "nat \<Rightarrow> u32 \<Rightarrow> 'a frame_state_scheme \<Rightarrow> 'a frame_state_scheme outcome" where
  "boot_frames_loop 0 i s = Ok s"
| "boot_frames_loop (Suc n) i s =
     and_then (page_set i (page_fmt (i - KERNEL_ADDR_BASE) (PF_PRES OR PF_RW)) s) (boot_frames_loop n (i + PAGESZ))"

text \<open>
  The frames of a region. The counter has 32 bits and starts over when the region ends in the last page of
  the address space; the loop then runs until the heap is used up. The first argument bounds the number
  of turns: every turn takes 16 bytes of the heap, which has less than \<open>2^23\<close> times as many.
\<close>

primrec add_region_loop :: "nat \<Rightarrow> ptr \<Rightarrow> u32 \<Rightarrow> u32 \<Rightarrow> 'a heap_state_scheme \<Rightarrow> (u32 \<times> 'a heap_state_scheme) outcome" where
  "add_region_loop 0 ent addr memsize s = Stop Diverge"
| "add_region_loop (Suc n) ent addr memsize s =
     and_then (load32 (ent + off_length_low) s) (\<lambda>length_low.
     if addr < length_low then
       and_then (load32 (ent + off_base_addr_low) s) (\<lambda>base_addr_low.
       and_then (frame_add (base_addr_low + addr) s) (\<lambda>s.
       add_region_loop n ent (addr + PAGESZ) (memsize + PAGESZ) s))
     else Ok (memsize, s))"

definition region_fuel :: nat where
  "region_fuel = 2 ^ 23"

text \<open>The part of a region that overlaps the boot frames is cut off in the memory map itself; the result is whether the region is used.\<close>

definition clip_region :: "ptr \<Rightarrow> 'a machine_scheme \<Rightarrow> (bool \<times> 'a machine_scheme) outcome" where
  "clip_region ent s =
     and_then (load32 (ent + off_base_addr_low) s) (\<lambda>base_addr_low.
     if base_addr_low < KERNEL_BOOT_SIZE then
       and_then (load32 (ent + off_length_low) s) (\<lambda>length_low.
       if length_low < KERNEL_BOOT_SIZE - base_addr_low then Ok (False, s)
       else
         and_then (store32 (ent + off_length_low) (length_low - (KERNEL_BOOT_SIZE - base_addr_low)) s) (\<lambda>s.
         and_then (store32 (ent + off_base_addr_low) KERNEL_BOOT_SIZE s) (\<lambda>s. Ok (True, s))))
     else Ok (True, s))"

definition add_region :: "ptr \<Rightarrow> u32 \<Rightarrow> 'a heap_state_scheme \<Rightarrow> (u32 \<times> 'a heap_state_scheme) outcome" where
  "add_region ent memsize s =
     and_then (load32 (ent + off_type) s) (\<lambda>type.
     if type \<noteq> 1 then Ok (memsize, s)
     else
       and_then (clip_region ent s) (\<lambda>(used, s).
       if \<not> used then Ok (memsize, s)
       else
         and_then (load32 (ent + off_base_addr_low) s) (\<lambda>base_addr_low.
         and_then (load32 (ent + off_length_low) s) (\<lambda>length_low.
         and_then (debug_printf (''found free memory region [%x ... %x]'' @ [newline])
             [VInt base_addr_low, VInt (base_addr_low + length_low - 1)] s) (\<lambda>s.
         add_region_loop region_fuel ent 0 memsize s)))))"

primrec memory_map_loop :: "nat \<Rightarrow> ptr \<Rightarrow> u32 \<Rightarrow> 'a heap_state_scheme \<Rightarrow> (u32 \<times> 'a heap_state_scheme) outcome" where
  "memory_map_loop 0 ent memsize s = Ok (memsize, s)"
| "memory_map_loop (Suc n) ent memsize s =
     and_then (add_region ent memsize s) (\<lambda>(memsize, s). memory_map_loop n (ent + sizeof_memory_map) memsize s)"

definition parse_memory_map :: "ptr \<Rightarrow> 'a heap_state_scheme \<Rightarrow> 'a heap_state_scheme outcome" where
  "parse_memory_map mboot s =
     and_then (load32 (mboot + off_mmap_addr) s) (\<lambda>mmap_addr.
     and_then (load32 (mboot + off_mmap_length) s) (\<lambda>mmap_length.
     and_then (memory_map_loop (unat (mmap_length div sizeof_memory_map)) (mmap_addr + KERNEL_ADDR_BASE) 0 s) (\<lambda>(memsize, s).
     debug_printf (''%d MB of memory available'' @ [newline]) [VInt (drop_bit 20 memsize)] s)))"

section \<open>System image\<close>

definition load_system :: "ptr \<Rightarrow> 'a heap_state_scheme \<Rightarrow> (ptr \<times> 'a heap_state_scheme) outcome" where
  "load_system mboot s =
     and_then (load32 (mboot + off_mods_count) s) (\<lambda>mods_count.
     and_then (if mods_count < 1 then debug_panic ''no system image found'' s else Ok s) (\<lambda>s.
     and_then (load32 (mboot + off_mods_addr) s) (\<lambda>mods_addr.
     and_then (load32 (mods_addr + KERNEL_ADDR_BASE + off_mod_start) s) (\<lambda>mod_start.
     let system_image = mod_start + KERNEL_ADDR_BASE
     in and_then (elf_check_file system_image s) (\<lambda>r.
        and_then (if r \<noteq> 0 then debug_panic ''system is not a valid ELF executable'' s else Ok s) (\<lambda>s.
        and_then (elf_load_file system_image s) (\<lambda>s. Ok (system_image, s))))))))"

section \<open>First thread\<close>

definition bootstrap_thread :: "u32 \<Rightarrow> ptr \<Rightarrow> ptr \<Rightarrow> 'a thread_state_scheme \<Rightarrow> (ptr \<times> 'a thread_state_scheme) outcome" where
  "bootstrap_thread eflags init_stack system_image s =
     and_then (thread_new s) (\<lambda>(init_thread_id, s).
     let init_thread = thread_get init_thread_id s
     in if init_thread = NULL then Stop NullDeref
        else
          (let s = th_upd init_thread (\<lambda>t. t\<lparr>t_useresp := init_stack + 4 * 1023\<rparr>) s;
               s = th_upd init_thread (\<lambda>t. t\<lparr>t_esp := init_thread + off_num\<rparr>) s;
               s = th_upd init_thread (\<lambda>t. t\<lparr>t_ss := 0x21\<rparr>) s;
               s = th_upd init_thread (\<lambda>t. t\<lparr>t_ds := 0x21\<rparr>) s;
               s = th_upd init_thread (\<lambda>t. t\<lparr>t_cs := 0x19\<rparr>) s;
               s = th_upd init_thread (\<lambda>t. t\<lparr>t_eflags := eflags OR 0x1200\<rparr>) s
           in and_then (load32 (system_image + off_e_entry) s) (\<lambda>e_entry.
              Ok (init_thread, th_upd init_thread (\<lambda>t. t\<lparr>t_eip := e_entry\<rparr>) s))))"

text \<open>The handlers in the order in which \<open>init\<close> registers them.\<close>

definition boot_handlers :: "(u8 \<times> handler) list" where
  "boot_handlers =
     [(0x81, H_kcall),
      (0x00, H_fault_generic), (0x01, H_fault_generic), (0x02, H_fault_generic), (0x03, H_fault_generic),
      (0x04, H_fault_generic), (0x05, H_fault_generic), (0x06, H_fault_generic), (0x07, H_fault_generic),
      (0x08, H_fault_double), (0x09, H_fault_generic), (0x0A, H_fault_generic), (0x0B, H_fault_generic),
      (0x0C, H_fault_generic), (0x0D, H_fault_generic), (0x0E, H_fault_page), (0x10, H_fault_generic),
      (0x11, H_fault_generic), (0x12, H_fault_generic), (0x13, H_fault_generic)]"

definition install_handlers :: "'a intr_state_scheme \<Rightarrow> 'a intr_state_scheme" where
  "install_handlers s = fold (\<lambda>(n, h). int_set_handler n h) boot_handlers s"

text \<open>\<open>finit\<close> leaves the same image behind as \<open>fsave\<close>; the control registers are not part of the state.\<close>

definition cpu_init_fpu :: "'a thread_state_scheme \<Rightarrow> 'a thread_state_scheme" where
  "cpu_init_fpu s = s\<lparr>can_use_fpu := True, fpu := fpu_reset s\<rparr>"

text \<open>The last part of \<open>init\<close>, from the first thread on. The result of \<open>timer_set_freq\<close> is ignored.\<close>

definition start_system :: "u32 \<Rightarrow> ptr \<Rightarrow> ptr \<Rightarrow> 'a thread_state_scheme \<Rightarrow> (ptr \<times> 'a thread_state_scheme) outcome" where
  "start_system eflags init_stack system_image s =
     and_then (bootstrap_thread eflags init_stack system_image s) (\<lambda>(init_thread, s).
     and_then (timer_set_freq 64 (install_handlers s)) (\<lambda>(_, s).
     and_then (debug_printf (''passing control to system'' @ [newline]) [] (cpu_init_fpu s)) (\<lambda>s.
     and_then (thread_load init_thread s) (\<lambda>s.
     Ok (init_thread, th_upd init_thread (\<lambda>t. t\<lparr>t_state := TS_RUNNING\<rparr>) s)))))"

definition init_kernel :: "u32 \<Rightarrow> ptr \<Rightarrow> ptr \<Rightarrow> u32 \<Rightarrow> 'a thread_state_scheme \<Rightarrow> (ptr \<times> 'a thread_state_scheme) outcome" where
  "init_kernel eflags init_stack mboot mboot_magic s =
     and_then (debug_printf (''Pinion-x86 booting...'' @ [newline]) [] (debug_init s)) (\<lambda>s.
     and_then (if mboot_magic \<noteq> 0x2BADB002 then debug_panic ''bootloader is not multiboot compliant'' s else Ok s) (\<lambda>s.
     and_then (touch_loop 64 KERNEL_ADDR_BASE s) (\<lambda>s.
     and_then (touch_loop 192 SYSTEM_ADDR_SIZE s) (\<lambda>s.
     and_then (boot_frames_loop 2048 KERNEL_ADDR_BASE s) (\<lambda>s.
     and_then (parse_memory_map mboot s) (\<lambda>s.
     and_then (load_system mboot s) (\<lambda>(system_image, s).
     start_system eflags init_stack system_image s)))))))"

section \<open>What booting leaves alone\<close>

lemma init_idt_loop_keeps [simp]: "intr_state.more (init_idt_loop n i s) = intr_state.more s"
  by (induction n arbitrary: i s) (simp_all add: idt_set_def)

lemma init_idt_keeps [simp]: "intr_state.more (init_idt s) = intr_state.more s"
  by (simp add: init_idt_def init_tss_def idt_set_def Let_def)

lemma int_set_handler_keeps [simp]: "intr_state.more (int_set_handler n h s) = intr_state.more s"
  by (simp add: int_set_handler_def Let_def)

lemma init_idt_loop_tab [simp]: "int_handler_tab (init_idt_loop n i s) = int_handler_tab s"
  by (induction n arbitrary: i s) (simp_all add: idt_set_def)

lemma int_set_handler_tab [simp]: "int_handler_tab (int_set_handler n h s) = (int_handler_tab s)(n \<mapsto> h)"
  by (simp add: int_set_handler_def init_idt_def init_tss_def idt_set_def Let_def)

lemma install_handlers_keeps [simp]: "intr_state.more (install_handlers s) = intr_state.more s"
proof -
  have "intr_state.more (fold (\<lambda>(n, h). int_set_handler n h) hs s) = intr_state.more s" for hs
    by (induction hs arbitrary: s) auto
  then show ?thesis by (simp add: install_handlers_def)
qed

lemma install_handlers_tab:
  "int_handler_tab (install_handlers s) n = (case map_of (rev boot_handlers) n of None \<Rightarrow> int_handler_tab s n | Some h \<Rightarrow> Some h)"
proof -
  have "int_handler_tab (fold (\<lambda>(n, h). int_set_handler n h) hs s) = int_handler_tab s ++ map_of (rev hs)" for hs
    by (induction hs arbitrary: s) (auto simp: map_add_def fun_eq_iff split: option.splits)
  then show ?thesis by (simp add: install_handlers_def map_add_def)
qed

lemma int_set_handler_ports [simp]:
  "in_ports (int_set_handler n h s) = in_ports s" "out_log (int_set_handler n h s) = out_log s"
proof -
  have "in_ports (init_idt_loop m i t) = in_ports t \<and> out_log (init_idt_loop m i t) = out_log t" for m i and t :: "'a intr_state_scheme"
    by (induction m arbitrary: i t) (simp_all add: idt_set_def)
  then show "in_ports (int_set_handler n h s) = in_ports s" "out_log (int_set_handler n h s) = out_log s"
    by (simp_all add: int_set_handler_def init_idt_def init_tss_def idt_set_def Let_def)
qed

lemma install_handlers_ports [simp]: "in_ports (install_handlers s) = in_ports s" "out_log (install_handlers s) = out_log s"
proof -
  have "in_ports (fold (\<lambda>(n, h). int_set_handler n h) hs s) = in_ports s \<and> out_log (fold (\<lambda>(n, h). int_set_handler n h) hs s) = out_log s" for hs
    by (induction hs arbitrary: s) auto
  then show "in_ports (install_handlers s) = in_ports s" "out_log (install_handlers s) = out_log s" by (simp_all add: install_handlers_def)
qed

text \<open>
  What starting the timer writes to the ports: mode 3 of the timer's channel 0 with the divider 18643 (\<open>0x48D3\<close>), which makes 64 Hz of its 1193180 Hz; then the two
  interrupt controllers are set up for the vectors from 32 and 40 on, with all lines open.
\<close>

definition timer_setup :: "(u16 \<times> u8) list" where
  "timer_setup = [(0x43, 0x36), (0x40, 0xD3), (0x40, 0x48),
     (0x20, 0x11), (0xA0, 0x11), (0x21, 0x20), (0xA1, 0x28), (0x21, 0x04), (0xA1, 0x02), (0x21, 0x01), (0xA1, 0x01), (0x21, 0), (0xA1, 0)]"

lemma timer_64:
  obtains s' where "timer_set_freq 64 s = Ok (0, s')" and "intr_state.more s' = intr_state.more s"
    and "int_handler_tab s' = (int_handler_tab s)(32 \<mapsto> H_timer)" and "pit_freq s' = 64"
    and "in_ports s' = in_ports s" and "out_log s' = out_log s @ timer_setup"
proof -
  have "timer_set_freq 64 s = Ok (0, (int_set_handler 32 H_timer (s\<lparr>out_log := out_log s @ timer_setup\<rparr>))\<lparr>pit_freq := 64\<rparr>)"
    by (simp add: timer_set_freq_def irq_init_def outb_def Let_def timer_setup_def)
  then show thesis by (rule that) simp_all
qed

lemma vread8_th_upd [simp]: "vread8 q (th_upd p f s) = vread8 q s"
  by (simp add: vread8_def th_upd_def mmu_walk_def pde_of_def pte_of_def)

lemma load32_th_upd [simp]: "load32 q (th_upd p f s) = load32 q s"
proof -
  have "load_bytes q n (th_upd p f s) = load_bytes q n s" for n
    by (induction n arbitrary: q) simp_all
  then show ?thesis by (simp add: load32_def)
qed

lemma thread_parts_of_intr:
  assumes "intr_state.more s' = intr_state.more s"
  shows "threads s' = threads s" "thread_table s' = thread_table s" "sched_head s' = sched_head s" "sched_tail s' = sched_tail s"
    "ev_front s' = ev_front s" "ev_back s' = ev_back s"
  using assms by (cases s; cases s'; simp)+

lemma thread_parts_of_heap_more:
  assumes "heap_state.more s' = heap_state.more s"
  shows "sched_head s' = sched_head s" "sched_tail s' = sched_tail s" "ev_front s' = ev_front s" "ev_back s' = ev_back s"
    "int_handler_tab s' = int_handler_tab s"
  using assms by (cases s; cases s'; simp)+

section \<open>The first thread\<close>

text \<open>The registers with which the system layer starts.\<close>

definition boot_thread :: "u32 \<Rightarrow> ptr \<Rightarrow> u32 \<Rightarrow> ptr \<Rightarrow> thread" where
  "boot_thread eflags init_stack e_entry p = zero_thread\<lparr>t_id := 0, t_state := TS_RUNNING, t_useresp := init_stack + 4092,
     t_esp := p + 36, t_ss := 0x21, t_ds := 0x21, t_cs := 0x19, t_eflags := eflags OR 0x1200, t_eip := e_entry\<rparr>"

lemma bootstrap_thread_returns:
  assumes "block_at s 6 ls" and "block_at s 7 ks" and "\<And>j. j < THREAD_COUNT \<Longrightarrow> thread_table s j = NULL"
    and "readable s (img + off_e_entry) es" and "length es = 4" and "set es \<inter> (set ls \<union> set ks) = {}"
    and "load32 (img + off_e_entry) s = Ok e_entry"
  obtains p h where "p \<noteq> NULL" and "heap_state.more h = heap_state.more s" and "in_ports h = in_ports s" and "out_log h = out_log s"
    and "bootstrap_thread eflags init_stack img s =
      Ok (p, h\<lparr>threads := (threads s)(p := (boot_thread eflags init_stack e_entry p)\<lparr>t_state := TS_PAUSED\<rparr>),
        thread_table := (thread_table s)(0 := p)\<rparr>)"
proof -
  obtain p s1 where a: "thread_alloc s = Ok (p, s1)" "spares (set ls \<union> set ks) s s1"
    using thread_alloc_returns [OF assms(1,2)] by blast
  have f: "thread_find_free THREAD_COUNT 0 (thread_table s) = Some 0" using assms(3) [of 0] by (simp add: numeral_eq_Suc)
  obtain h where h: "p \<noteq> NULL" "heap_state.more h = heap_state.more s"
    "s1 = h\<lparr>threads := (threads s)(p := zero_thread\<lparr>t_id := 0, t_state := TS_PAUSED\<rparr>), thread_table := (thread_table s)(0 := p)\<rparr>"
    by (rule thread_alloc_heap [OF a(1)]) (use f that in simp)
  have n: "thread_new s = Ok (0, s1)" using a(1) h by (simp add: thread_new_def)
  have l: "load32 (img + off_e_entry) s1 = Ok e_entry"
    using spares_load32 [OF a(2) assms(4,5,6)] assms(7) by simp
  have "thread_get 0 s1 = p" using h(3) by (simp add: thread_get_eq)
  moreover have "zero_thread\<lparr>t_id := 0, t_state := TS_PAUSED, t_useresp := init_stack + 4092, t_esp := p + 36, t_ss := 0x21,
      t_ds := 0x21, t_cs := 0x19, t_eflags := eflags OR 0x1200, t_eip := e_entry\<rparr> =
    (boot_thread eflags init_stack e_entry p)\<lparr>t_state := TS_PAUSED\<rparr>"
    by (simp add: boot_thread_def zero_thread_def)
  moreover have "h\<lparr>thread_table := a, threads := b\<rparr> = h\<lparr>threads := b, thread_table := a\<rparr>" for a b by simp
  ultimately have "bootstrap_thread eflags init_stack img s =
      Ok (p, h\<lparr>threads := (threads s)(p := (boot_thread eflags init_stack e_entry p)\<lparr>t_state := TS_PAUSED\<rparr>),
        thread_table := (thread_table s)(0 := p)\<rparr>)"
    using n h(1) l by (simp add: bootstrap_thread_def Let_def) (simp add: h(3) th_upd_def)
  moreover have "in_ports h = in_ports s" "out_log h = out_log s" using a(2) h(3) by (simp_all add: spares_def)
  ultimately show thesis using that h by blast
qed

text \<open>All that the last part of \<open>init\<close> writes to the ports: the set-up of the timer, and a line on the serial port.\<close>

definition boot_output :: "(u16 \<times> u8) list" where
  "boot_output = timer_setup @ map (\<lambda>c. (0x3F8, of_char c)) (''passing control to system'' @ [newline, char_of (13 :: nat)])"

text \<open>The variables of the kernel as they are when it is loaded.\<close>

definition boot_fresh :: "'a thread_state_scheme \<Rightarrow> bool" where
  "boot_fresh s \<longleftrightarrow> (\<forall>j < THREAD_COUNT. thread_table s j = NULL) \<and> sched_head s = NULL \<and> sched_tail s = NULL \<and>
     (\<forall>e < EV_COUNT. ev_front s e = NULL \<and> ev_back s e = NULL) \<and> (\<forall>q. t_fxdata (threads s q) = NULL) \<and>
     (\<forall>n. int_handler_tab s n = None)"

definition boot_spec :: "ptr \<Rightarrow> sched_spec" where
  "boot_spec p = \<lparr>running = Some p, ready = [], waiting = (\<lambda>_. []), paused = {}\<rparr>"

lemma boot_sim:
  assumes "boot_fresh s" and "p \<noteq> NULL" and "threads s' = (threads s)(p := t)" and "t_id t = 0" and "t_state t = TS_RUNNING"
    and "thread_table s' = (thread_table s)(0 := p)" and "active_thread s' = p"
    and "sched_head s' = sched_head s" "sched_tail s' = sched_tail s" "ev_front s' = ev_front s" "ev_back s' = ev_back s"
  shows "sim s' (boot_spec p)"
proof -
  have "live s' q \<longleftrightarrow> q = p" for q
    using assms by (auto simp: live_def boot_fresh_def)
  moreover have "members (boot_spec p) = {p}" by (auto simp: members_def boot_spec_def)
  ultimately show ?thesis
    using assms by (auto simp: sim_def boot_spec_def boot_fresh_def sched_queue_def ev_queue_def fifo_def)
qed

text \<open>The registrations of \<open>init\<close>, with that of the timer, give exactly the table of the kernel's handlers.\<close>

lemma low_vector: "(n :: u8) < 20 \<Longrightarrow> n \<in> set (map of_nat [0..<20])"
  by (auto simp: word_less_nat_alt intro!: image_eqI [of _ _ "unat n"])

lemma boot_handlers_table: "(map_of (rev boot_handlers))(32 \<mapsto> H_timer) = kernel_handlers"
proof (rule ext)
  fix n :: u8
  show "((map_of (rev boot_handlers))(32 \<mapsto> H_timer)) n = kernel_handlers n"
  proof (cases "n < 20")
    case True
    have "\<forall>n \<in> set (map of_nat [0..<20]). ((map_of (rev boot_handlers))(32 \<mapsto> H_timer)) n = kernel_handlers n" by code_simp
    with low_vector [OF True] show ?thesis by blast
  next
    case False
    then have "n \<noteq> 129 \<Longrightarrow> map_of (rev boot_handlers) n = None" by (auto simp: boot_handlers_def map_of_eq_None_iff)
    with False show ?thesis by (auto simp: boot_handlers_def kernel_handlers_def)
  qed
qed

lemma boot_handlers_ready:
  assumes "\<And>n. int_handler_tab s n = None" and "int_handler_tab s' = (int_handler_tab (install_handlers s))(32 \<mapsto> H_timer)"
  shows "handlers_ready s'"
proof -
  have "int_handler_tab (install_handlers s) = map_of (rev boot_handlers)"
    by (rule ext) (simp add: install_handlers_tab assms(1) split: option.split)
  then show ?thesis by (simp add: handlers_ready_def assms(2) boot_handlers_table)
qed

lemma thread_load_fresh:
  "t_fxdata (threads s p) = NULL \<Longrightarrow> t_pctx (threads s p) = 0 \<Longrightarrow> \<exists>ts. thread_load p s = Ok (s\<lparr>tss := ts, active_thread := p\<rparr>)"
proof -
  assume a: "t_fxdata (threads s p) = NULL" "t_pctx (threads s p) = 0"
  have "thread_load p s = Ok (s\<lparr>tss := (tss s)\<lparr>tss_esp0 := p + (if t_vm86_active (threads s p) \<noteq> 0 then off_vm86_start else off_vm86_es)\<rparr>,
      active_thread := p\<rparr>)"
    using a by (simp add: thread_load_def set_int_stack_def)
  then show ?thesis by blast
qed

lemma control_message:
  assumes "uart_live t" and "out_log t = out_log s @ timer_setup"
  obtains t' where "debug_printf (''passing control to system'' @ [newline]) [] t = Ok t'" and "out_log t' = out_log s @ boot_output"
proof -
  let ?m = "''passing control to system'' @ [newline]"
  have "printf_text ?m [] = Some ?m" by (simp add: newline_def char_of_def)
  then obtain t' where t': "debug_printf ?m [] t = Ok t'" "emits (serial ?m) t t'"
    using debug_printf_returns [of ?m "[]" _ t] assms(1) by auto
  have "serial ?m = ''passing control to system'' @ [newline, char_of (13 :: nat)]" by (simp add: serial_def newline_def char_of_def)
  then have "out_log t' = out_log s @ boot_output" using emits_out_log [OF t'(2)] assms(2) by (simp only: boot_output_def append_assoc)
  with t'(1) show thesis by (rule that)
qed

lemma start_system_boots:
  assumes fresh: "boot_fresh s" and blocks: "block_at s 6 ls" "block_at s 7 ks" and live: "uart_live s"
    and entry: "readable s (img + off_e_entry) es" "length es = 4" "set es \<inter> (set ls \<union> set ks) = {}"
      "load32 (img + off_e_entry) s = Ok e_entry"
  shows "\<exists>p s'. start_system eflags init_stack img s = Ok (p, s') \<and> sim s' (boot_spec p) \<and> handlers_ready s' \<and>
    tick_ready s' \<and> out_log s' = out_log s @ boot_output \<and> threads s' p = boot_thread eflags init_stack e_entry p"
proof -
  have "\<And>j. j < THREAD_COUNT \<Longrightarrow> thread_table s j = NULL" using fresh by (simp add: boot_fresh_def)
  from bootstrap_thread_returns [OF blocks this entry]
  obtain p h where p: "p \<noteq> NULL" and h: "heap_state.more h = heap_state.more s" "in_ports h = in_ports s" "out_log h = out_log s"
    and b: "bootstrap_thread eflags init_stack img s =
      Ok (p, h\<lparr>threads := (threads s)(p := (boot_thread eflags init_stack e_entry p)\<lparr>t_state := TS_PAUSED\<rparr>),
        thread_table := (thread_table s)(0 := p)\<rparr>)" (is "_ = Ok (p, ?s1)") by metis
  obtain s2 where s2: "timer_set_freq 64 (install_handlers ?s1) = Ok (0, s2)"
    "intr_state.more s2 = intr_state.more (install_handlers ?s1)"
    "int_handler_tab s2 = (int_handler_tab (install_handlers ?s1))(32 \<mapsto> H_timer)" "pit_freq s2 = 64" "in_ports s2 = in_ports (install_handlers ?s1)"
    "out_log s2 = out_log (install_handlers ?s1) @ timer_setup"
    by (rule timer_64)
  have "uart_live (cpu_init_fpu s2)" using live s2(5) h(2) by (simp add: uart_live_def cpu_init_fpu_def)
  then obtain s3 where s3: "debug_printf (''passing control to system'' @ [newline]) [] (cpu_init_fpu s2) = Ok s3"
    and o: "out_log s3 = out_log s @ boot_output" by (rule control_message [where s = s]) (use s2(6) h(3) in \<open>simp add: cpu_init_fpu_def\<close>)
  from s3 obtain l f where s3': "s3 = (cpu_init_fpu s2)\<lparr>out_log := l, in_pos := f\<rparr>"
    using debug_printf_ports by (fastforce simp: ports_only_def)
  have m2: "intr_state.more s2 = intr_state.more ?s1" using s2(2) by simp
  have th: "threads s3 = (threads s)(p := (boot_thread eflags init_stack e_entry p)\<lparr>t_state := TS_PAUSED\<rparr>)"
    using thread_parts_of_intr(1) [OF m2] by (simp add: s3' cpu_init_fpu_def)
  obtain ts where ld: "thread_load p s3 = Ok (s3\<lparr>tss := ts, active_thread := p\<rparr>)"
    using thread_load_fresh [of s3 p] th by (auto simp: boot_thread_def zero_thread_def)
  let ?s' = "th_upd p (\<lambda>t. t\<lparr>t_state := TS_RUNNING\<rparr>) (s3\<lparr>tss := ts, active_thread := p\<rparr>)"
  have r: "start_system eflags init_stack img s = Ok (p, ?s')"
    using b s2(1) s3 ld by (simp add: start_system_def)
  have th': "threads ?s' = (threads s)(p := boot_thread eflags init_stack e_entry p)"
    by (simp add: th_upd_def th boot_thread_def zero_thread_def)
  have "sim ?s' (boot_spec p)"
    by (rule boot_sim [OF fresh p th'])
      (use thread_parts_of_intr [OF m2] thread_parts_of_heap_more [OF h(1)] in
        \<open>simp_all add: s3' cpu_init_fpu_def th_upd_def boot_thread_def\<close>)
  moreover have "handlers_ready ?s'"
    by (rule boot_handlers_ready [where s = ?s1])
      (use fresh thread_parts_of_heap_more(5) [OF h(1)] s2(3) in \<open>simp_all add: boot_fresh_def s3' cpu_init_fpu_def th_upd_def\<close>)
  moreover from this have "tick_ready ?s'"
    using fresh s2(4) th' by (auto simp: tick_ready_def handlers_ready_def kernel_handlers_def no_fpu_data_def boot_fresh_def boot_thread_def zero_thread_def)
      (simp add: s3' cpu_init_fpu_def th_upd_def)
  moreover have "out_log ?s' = out_log s @ boot_output" using o by (simp add: th_upd_def)
  ultimately show ?thesis using r th' by auto
qed

section \<open>Regions of memory\<close>

lemma clip_region_cut:
  assumes b: "writable s (ent + off_base_addr_low) bs" "length bs = 4" and n: "writable s (ent + off_length_low) ns" "length ns = 4"
    and disj: "set bs \<inter> set ns = {}" and lb: "load32 (ent + off_base_addr_low) s = Ok base" and ln: "load32 (ent + off_length_low) s = Ok len"
    and lt: "base < KERNEL_BOOT_SIZE" "\<not> len < KERNEL_BOOT_SIZE - base"
  shows "\<exists>s'. clip_region ent s = Ok (True, s') \<and> load32 (ent + off_base_addr_low) s' = Ok KERNEL_BOOT_SIZE \<and>
    load32 (ent + off_length_low) s' = Ok (len - (KERNEL_BOOT_SIZE - base)) \<and> writes (set bs \<union> set ns) s s'"
proof -
  obtain s1 where s1: "store32 (ent + off_length_low) (len - (KERNEL_BOOT_SIZE - base)) s = Ok s1"
    "map (mem_at s1) ns = word_bytes (len - (KERNEL_BOOT_SIZE - base))" "writes (set ns) s s1"
    using store32_writable [OF n] by blast
  have "writable s1 (ent + off_base_addr_low) bs" using writes_writable [OF s1(3)] b(1) by simp
  then obtain s2 where s2: "store32 (ent + off_base_addr_low) KERNEL_BOOT_SIZE s1 = Ok s2"
    "map (mem_at s2) bs = word_bytes KERNEL_BOOT_SIZE" "writes (set bs) s1 s2"
    using store32_writable [OF _ b(2)] by blast
  have w: "writes (set bs \<union> set ns) s s2" using writes_trans [OF s1(3) s2(3)] by (simp add: Un_commute)
  have "map (mem_at s2) ns = map (mem_at s1) ns" using writes_kept [OF s2(3), of ns] disj by auto
  moreover have "readable s2 (ent + off_base_addr_low) bs" "readable s2 (ent + off_length_low) ns"
    using writes_readable [OF w] b(1) n(1) by (simp_all add: writable_def)
  ultimately have "load32 (ent + off_base_addr_low) s2 = Ok KERNEL_BOOT_SIZE"
    "load32 (ent + off_length_low) s2 = Ok (len - (KERNEL_BOOT_SIZE - base))"
    using load32_readable [OF _ b(2), of s2] load32_readable [OF _ n(2), of s2] s1(2) s2(2) by simp_all
  moreover have "clip_region ent s = Ok (True, s2)" using lb ln lt s1(1) s2(1) by (simp add: clip_region_def)
  ultimately show ?thesis using w by blast
qed

lemma clip_region_cases:
  assumes "load32 (ent + off_base_addr_low) s = Ok base" and "load32 (ent + off_length_low) s = Ok len"
  shows "KERNEL_BOOT_SIZE \<le> base \<Longrightarrow> clip_region ent s = Ok (True, s)"
    and "base < KERNEL_BOOT_SIZE \<Longrightarrow> len < KERNEL_BOOT_SIZE - base \<Longrightarrow> clip_region ent s = Ok (False, s)"
  using assms by (auto simp: clip_region_def)

section \<open>Properties\<close>

text \<open>
  C2: The last part of \<open>init\<close>, in a freshly loaded kernel whose heap has the blocks for a thread, apart from a mapped image, and whose serial port answers,
  returns a first thread with number 0 that runs the system image from its entry point with the segments of ring 1, and leaves the kernel in
  a state of the abstract scheduler in which only this thread exists and runs, with exactly the kernel's handlers in the table (the timer at vector 32, kernel calls at 129, page faults at 14, double
  faults at 8, the other exceptions up to 19 but 15), and the timer at 64 Hz, both in the variable and by the divider that is written to its port; besides this the
  interrupt controllers are set up and one line goes to the serial port.
  Through all interrupts that follow, as long as each is orderly in the sense of C1, the kernel moves threads as the abstract scheduler does.
\<close>

theorem boot_starts_system:
  assumes "boot_fresh s" and "block_at s 6 ls" and "block_at s 7 ks" and "uart_live s"
    and "readable s (img + off_e_entry) es" and "length es = 4" and "set es \<inter> (set ls \<union> set ks) = {}"
    and "load32 (img + off_e_entry) s = Ok e_entry"
  shows "\<exists>p s'. start_system eflags init_stack img s = Ok (p, s') \<and> sim s' (boot_spec p) \<and>
    int_handler_tab s' = kernel_handlers \<and> pit_freq s' = 64 \<and> out_log s' = out_log s @ boot_output \<and> tick_ready s' \<and>
    threads s' p = boot_thread eflags init_stack e_entry p \<and>
    (\<forall>t. (orderly_step idle)\<^sup>*\<^sup>* s' t \<longrightarrow> (\<exists>B. spec_step\<^sup>*\<^sup>* (boot_spec p) B \<and> sim t B))"
proof -
  obtain p s' where "start_system eflags init_stack img s = Ok (p, s')" and m: "sim s' (boot_spec p)"
    and h: "handlers_ready s'" and "tick_ready s'" "out_log s' = out_log s @ boot_output" "threads s' p = boot_thread eflags init_stack e_entry p"
    using start_system_boots [OF assms] by blast
  moreover from this have "int_handler_tab s' = kernel_handlers" "pit_freq s' = 64"
    by (simp_all add: handlers_ready_def tick_ready_def)
  ultimately show ?thesis using orderly_run_sim [OF _ h m] by blast
qed

text \<open>The example: a heap with two blocks, and an image at \<open>0x3000\<close>.\<close>

definition demo_boot :: thread_state where
  "demo_boot = demo_room\<lparr>thread_table := (\<lambda>_. NULL), sched_head := NULL, sched_tail := NULL, ev_front := (\<lambda>_. NULL),
     ev_back := (\<lambda>_. NULL), active_thread := NULL, threads := (\<lambda>_. zero_thread), int_handler_tab := Map.empty,
     is_init := False, pit_freq := 0\<rparr>"

lemma demo_block_disjoint: "a + n \<le> b \<Longrightarrow> b + m \<le> 4096 \<Longrightarrow> set (demo_block a n) \<inter> set (demo_block b m) = {}"
  using inj_onD [OF demo_at_inj] by fastforce

lemma demo_boot_memory:
  "block_at demo_boot 6 (demo_block 256 256)" "block_at demo_boot 7 (demo_block 1024 512)"
  "writable demo_boot (0x3000 + of_nat a) (demo_block a n) = writable demo_frames (0x3000 + of_nat a) (demo_block a n)"
  "mem_at demo_boot (demo_at a) = 0"
proof -
  have "loc demo_boot = loc demo_room \<and> table_frames demo_boot = table_frames demo_room"
    by (rule loc_cong) (simp_all add: demo_boot_def)
  then have w: "writable demo_boot p xs = writable demo_room p xs" for p xs using writable_other by blast
  then show "block_at demo_boot 6 (demo_block 256 256)" "block_at demo_boot 7 (demo_block 1024 512)"
    using demo_room_ready by (simp_all add: block_at_def) (simp_all add: demo_boot_def)
  have "loc demo_room = loc demo_frames \<and> table_frames demo_room = table_frames demo_frames"
    by (rule loc_cong) (simp_all add: demo_room_def demo_threads_def demo_frames_def)
  then show "writable demo_boot (0x3000 + of_nat a) (demo_block a n) = writable demo_frames (0x3000 + of_nat a) (demo_block a n)"
    unfolding w using writable_other by blast
  show "mem_at demo_boot (demo_at a) = 0"
    by (simp add: mem_at_def demo_at_def demo_boot_def demo_room_def demo_threads_def demo_frames_def get_lane_def)
qed

lemma demo_boot_word: "a + 4 \<le> 4096 \<Longrightarrow> writable demo_boot (0x3000 + of_nat a) (demo_block a 4) \<and> load32 (0x3000 + of_nat a) demo_boot = Ok 0"
proof -
  assume "a + 4 \<le> 4096"
  then have w: "writable demo_boot (0x3000 + of_nat a) (demo_block a 4)" unfolding demo_boot_memory(3) by (rule demo_writable)
  have "map (mem_at demo_boot) (demo_block a 4) = word_bytes 0"
    by (simp add: demo_boot_memory(4) word_bytes_def get_lane_def numeral_eq_Suc)
  then have "load32 (0x3000 + of_nat a) demo_boot = Ok (bytes_word (word_bytes 0))"
    using load32_readable [of demo_boot "0x3000 + of_nat a" "demo_block a 4"] w by (simp add: writable_def)
  with w show ?thesis by simp
qed

theorem boot_starts_system_witness:
  "\<exists>p s'. start_system 2 0xF0200000 0x3000 demo_boot = Ok (p, s') \<and> sim s' (boot_spec p) \<and> t_cs (threads s' p) = 0x19"
proof -
  have e: "writable demo_boot 0x3018 (demo_block 24 4)" "load32 0x3018 demo_boot = Ok 0"
    using demo_boot_word [of 24] by simp_all
  have "set (demo_block 24 4) \<inter> (set (demo_block 256 256) \<union> set (demo_block 1024 512)) = {}"
    using demo_block_disjoint [of 24 4 256 256] demo_block_disjoint [of 24 4 1024 512] by auto
  moreover have "boot_fresh demo_boot" by (simp add: boot_fresh_def demo_boot_def zero_thread_def)
  moreover have "uart_live demo_boot" by (simp add: uart_live_def demo_boot_def demo_room_def demo_threads_def)
  ultimately show ?thesis
    using boot_starts_system [of demo_boot "demo_block 256 256" "demo_block 1024 512" "0x3000" "demo_block 24 4" 0 2 "0xF0200000" "0x9000"]
      demo_boot_memory(1,2) e by (fastforce simp: writable_def boot_thread_def)
qed

text \<open>
  A boot loader that does not follow the multiboot standard is refused: \<open>init\<close> stops with a panic that says so.
\<close>

lemma boot_rejects_loader:
  assumes "uart_live s" and "mboot_magic \<noteq> 0x2BADB002"
  shows "init_kernel eflags init_stack mboot mboot_magic s = Stop (Panic ''bootloader is not multiboot compliant'')"
proof -
  have "uart_live (debug_init s)" using assms(1) by (simp add: uart_live_def debug_init_def outb_def)
  then obtain s1 where s1: "debug_printf (''Pinion-x86 booting...'' @ [newline]) [] (debug_init s) = Ok s1" "emits (serial (''Pinion-x86 booting...'' @ [newline])) (debug_init s) s1"
    using debug_printf_returns [of "''Pinion-x86 booting...'' @ [newline]" "[]" "''Pinion-x86 booting...'' @ [newline]"]
    by (auto simp: newline_def char_of_def)
  have "uart_live s1" using emits_live [OF s1(2)] \<open>uart_live (debug_init s)\<close> by simp
  then show ?thesis using s1(1) assms(2) by (simp add: init_kernel_def debug_panic_says)
qed

text \<open>
  C30: Of a region of free memory only the part above the boot frames is used: when the entry of the memory map is mapped to data,
  a region that ends below them is left out, and any other one is cut in the map so that it starts
  at or above them and ends where it ended.
\<close>

theorem boot_clips_region:
  assumes "writable s (ent + off_base_addr_low) bs" and "length bs = 4" and "writable s (ent + off_length_low) ns" and "length ns = 4"
    and "set bs \<inter> set ns = {}" and "load32 (ent + off_base_addr_low) s = Ok base" and "load32 (ent + off_length_low) s = Ok len"
  shows "\<exists>used s'. clip_region ent s = Ok (used, s') \<and> used = (KERNEL_BOOT_SIZE \<le> base \<or> KERNEL_BOOT_SIZE - base \<le> len) \<and>
    (used \<longrightarrow> (\<exists>base' len'. load32 (ent + off_base_addr_low) s' = Ok base' \<and> load32 (ent + off_length_low) s' = Ok len' \<and>
      KERNEL_BOOT_SIZE \<le> base' \<and> base' + len' = base + len \<and> len' \<le> len))"
proof -
  consider "KERNEL_BOOT_SIZE \<le> base" | "base < KERNEL_BOOT_SIZE" "len < KERNEL_BOOT_SIZE - base"
    | (cut) "base < KERNEL_BOOT_SIZE" "\<not> len < KERNEL_BOOT_SIZE - base" by force
  then show ?thesis
  proof cases
    case cut
    then have "len - (KERNEL_BOOT_SIZE - base) \<le> len" by (simp add: word_sub_le)
    then show ?thesis using clip_region_cut [OF assms cut] cut by auto
  qed (use clip_region_cases [OF assms(6,7)] assms(6,7) in auto)
qed

theorem boot_clips_region_witness:
  "\<exists>s0 s'. store32 0x300C 0x1000000 demo_boot = Ok s0 \<and> clip_region 0x3000 s0 = Ok (True, s') \<and>
     (\<exists>base' len'. load32 0x3004 s' = Ok base' \<and> load32 0x300C s' = Ok len' \<and> 0x800000 \<le> base' \<and> base' + len' = 0x1000000)"
proof -
  have w: "writable demo_boot 0x3004 (demo_block 4 4)" "load32 0x3004 demo_boot = Ok 0" "writable demo_boot 0x300C (demo_block 12 4)"
    using demo_boot_word [of 4] demo_boot_word [of 12] by simp_all
  have d: "set (demo_block 4 4) \<inter> set (demo_block 12 4) = {}" by (rule demo_block_disjoint) simp_all
  obtain s0 where s0: "store32 0x300C 0x1000000 demo_boot = Ok s0" "map (mem_at s0) (demo_block 12 4) = word_bytes 0x1000000"
    "writes (set (demo_block 12 4)) demo_boot s0"
    using store32_writable [OF w(3)] by auto
  have w0: "writable s0 0x3004 (demo_block 4 4)" "writable s0 0x300C (demo_block 12 4)" using w writes_writable [OF s0(3)] by simp_all
  have k: "map (mem_at s0) (demo_block 4 4) = map (mem_at demo_boot) (demo_block 4 4)" by (rule writes_kept [OF s0(3) d])
  have "load32 0x300C s0 = Ok 0x1000000"
    using load32_readable [of s0 "0x300C" "demo_block 12 4", unfolded s0(2)] w0(2) by (simp add: writable_def)
  moreover have "load32 0x3004 s0 = Ok 0"
    using load32_readable [of s0 "0x3004" "demo_block 4 4", unfolded k] load32_readable [of demo_boot "0x3004" "demo_block 4 4"] w w0(1)
    by (simp add: writable_def)
  ultimately show ?thesis
    using boot_clips_region [of s0 "0x3000" "demo_block 4 4" "demo_block 12 4" 0 "0x1000000"] w0 d s0(1) by auto
qed

end
