(* ===== verification/Info.thy ===== *)
theory Info
  imports Lifecycle
begin

text \<open>
  The information structure of a thread (\<open>struct t_info\<close>), through which the system layer reads and writes the state of another
  thread. The memory of the structure is seen as a list of bytes; stores replace parts of the list and loads read parts of it.
\<close>

section \<open>Images of a region of memory\<close>

definition put_at :: "nat \<Rightarrow> 'a list \<Rightarrow> 'a list \<Rightarrow> 'a list" where
  "put_at k bs M = take k M @ bs @ drop (k + length bs) M"

definition get_at :: "nat \<Rightarrow> nat \<Rightarrow> 'a list \<Rightarrow> 'a list" where
  "get_at k n M = take n (drop k M)"

lemma length_put_at [simp]: "k + length bs \<le> length M \<Longrightarrow> length (put_at k bs M) = length M"
  by (simp add: put_at_def)

lemma get_put_same [simp]: "k + length bs \<le> length M \<Longrightarrow> n = length bs \<Longrightarrow> get_at k n (put_at k bs M) = bs"
  by (simp add: put_at_def get_at_def)

lemma get_put_other [simp]:
  assumes "k + length bs \<le> length M" and "j + n \<le> k \<or> k + length bs \<le> j"
  shows "get_at j n (put_at k bs M) = get_at j n M"
  using assms(2)
proof
  assume "j + n \<le> k"
  then have "get_at j n (put_at k bs M) = take n (drop j (take k M))" using assms(1) by (simp add: put_at_def get_at_def)
  then show ?thesis using \<open>j + n \<le> k\<close> by (simp add: drop_take get_at_def min_absorb1)
next
  assume "k + length bs \<le> j"
  then show ?thesis using assms(1) by (simp add: put_at_def get_at_def)
qed

definition image_at :: "'a machine_scheme \<Rightarrow> u32 \<Rightarrow> location list \<Rightarrow> u8 list \<Rightarrow> bool" where
  "image_at s p ls M \<longleftrightarrow> writable s p ls \<and> map (mem_at s) ls = M"

lemma image_at_split:
  assumes "image_at s p ls M" and "k + n \<le> length M"
  obtains us vs ws where "ls = us @ vs @ ws" and "length us = k" and "length vs = n" and "writable s (p + of_nat k) vs"
    and "set vs \<inter> (set us \<union> set ws) = {}" and "map (mem_at s) vs = get_at k n M"
proof -
  let ?us = "take k ls" and ?vs = "take n (drop k ls)" and ?ws = "drop n (drop k ls)"
  have len: "length M = length ls" using assms(1) by (auto simp: image_at_def)
  have ls: "ls = ?us @ ?vs @ ?ws" by (simp only: append_take_drop_id)
  have w: "writable s p (?us @ ?vs @ ?ws)" using assms(1) ls unfolding image_at_def by simp
  have k: "length ?us = k" "length ?vs = n" using assms(2) len by simp_all
  have "writable s (p + of_nat k) (?vs @ ?ws)" using writable_parts(2) [OF w] k(1) by simp
  then have v: "writable s (p + of_nat k) ?vs" by (rule writable_parts(1))
  have d: "distinct (?us @ ?vs @ ?ws)" using w by (simp only: writable_def)
  then have "set ?vs \<inter> (set ?us \<union> set ?ws) = {}" unfolding distinct_append set_append by blast
  moreover have "map (mem_at s) ?vs = get_at k n M" using assms(1) by (auto simp: image_at_def get_at_def take_map drop_map)
  ultimately show thesis using that [OF ls k v] by simp
qed

text \<open>
  \<open>filled\<close>: since the state \<open>s0\<close> only bytes of the region have changed, and now it has the image \<open>M\<close>. \<open>fills\<close>: an operation returns
  such a state.
\<close>

definition filled :: "u32 \<Rightarrow> location list \<Rightarrow> 'a machine_scheme \<Rightarrow> u8 list \<Rightarrow> 'a machine_scheme \<Rightarrow> bool" where
  "filled p ls s0 M s \<longleftrightarrow> image_at s p ls M \<and> writes (set ls) s0 s"

definition fills :: "u32 \<Rightarrow> location list \<Rightarrow> 'a machine_scheme \<Rightarrow> u8 list \<Rightarrow> 'a machine_scheme outcome \<Rightarrow> bool" where
  "fills p ls s0 M r \<longleftrightarrow> (\<exists>s. r = Ok s \<and> filled p ls s0 M s)"

lemma fills_Ok: "filled p ls s0 M s \<Longrightarrow> fills p ls s0 M (Ok s)"
  by (simp add: fills_def)

lemma fills_then:
  "fills p ls s0 M r \<Longrightarrow> (\<And>s. filled p ls s0 M s \<Longrightarrow> fills p ls s0 M' (g s)) \<Longrightarrow> fills p ls s0 M' (and_then r g)"
  by (auto simp: fills_def)

lemma fills_part:
  assumes "filled p ls s0 M s" and "a = p + of_nat k" and "k + n \<le> length ls"
    and "\<And>vs. writable s a vs \<Longrightarrow> length vs = n \<Longrightarrow> set vs \<subseteq> set ls \<Longrightarrow>
      \<exists>s'. r = Ok s' \<and> map (mem_at s') vs = bs \<and> writes (set vs) s s'"
  shows "fills p ls s0 (put_at k bs M) r"
proof -
  have M: "image_at s p ls M" "k + n \<le> length M" using assms(1,3) by (auto simp: filled_def image_at_def)
  obtain us vs ws where ls: "ls = us @ vs @ ws" "length us = k" "length vs = n" "writable s (p + of_nat k) vs"
    and d: "set vs \<inter> (set us \<union> set ws) = {}"
    using image_at_split [OF M] .
  obtain s' where s': "r = Ok s'" "map (mem_at s') vs = bs" "writes (set vs) s s'"
    using assms(4) [OF _ ls(3)] ls(1,4) assms(2) by auto
  have "map (mem_at s') us = map (mem_at s) us" "map (mem_at s') ws = map (mem_at s) ws"
    using writes_kept [OF s'(3)] d by blast+
  then have "map (mem_at s') ls = put_at k bs M"
    using M(1) s'(2) ls by (auto simp: image_at_def put_at_def)
  moreover have "writes (set ls) s0 s'"
    using writes_mono [OF writes_trans [of "set ls" s0 s, OF _ s'(3)], of "set ls"] assms(1) ls(1) by (auto simp: filled_def)
  ultimately show ?thesis using s'(1) M(1) writes_writable [OF s'(3)] by (auto simp: image_at_def fills_def filled_def)
qed

lemma fills_store32:
  "filled p ls s0 M s \<Longrightarrow> a = p + of_nat k \<Longrightarrow> k + 4 \<le> length ls \<Longrightarrow> fills p ls s0 (put_at k (word_bytes w) M) (store32 a w s)"
  by (erule (2) fills_part) (rule store32_writable)

lemma fills_store8:
  assumes "filled p ls s0 M s" and "a = p + of_nat k" and "k + 1 \<le> length ls"
  shows "fills p ls s0 (put_at k [b] M) (vwrite8 a b s)"
proof (rule fills_part [OF assms])
  fix vs :: "location list"
  assume "writable s a vs" and "length vs = 1"
  then show "\<exists>s'. vwrite8 a b s = Ok s' \<and> map (mem_at s') vs = [b] \<and> writes (set vs) s s'"
    using store_bytes_writable [of s a vs "[b]"] by (auto simp: and_then_eq_Ok)
qed

lemma fills_memcpy:
  assumes "filled p ls s0 M s" and "a = p + of_nat k" and "k + n \<le> length ls"
    and "readable s0 q qs" and "length qs = n" and "set qs \<inter> set ls = {}"
  shows "fills p ls s0 (put_at k (map (mem_at s0) qs) M) (memcpy a q n s)"
proof (rule fills_part [OF assms(1-3)])
  fix vs :: "location list"
  assume vs: "writable s a vs" "length vs = n" "set vs \<subseteq> set ls"
  have w: "writes (set ls) s0 s" using assms(1) by (simp add: filled_def)
  have "readable s q qs" "map (mem_at s) qs = map (mem_at s0) qs"
    using writes_readable [OF w] assms(4) writes_kept [OF w assms(6)] by blast+
  moreover have "set qs \<inter> set vs = {}" using vs(3) assms(6) by blast
  ultimately show "\<exists>s'. memcpy a q n s = Ok s' \<and> map (mem_at s') vs = map (mem_at s0) qs \<and> writes (set vs) s s'"
    using memcpy_writable [OF vs(1), of q qs] vs(2) assms(5) by metis
qed

text \<open>Several stores.\<close>

definition patch :: "(nat \<times> u8 list) list \<Rightarrow> u8 list \<Rightarrow> u8 list" where
  "patch = fold (\<lambda>(k, bs). put_at k bs)"

definition word_patches :: "(nat \<times> u32) list \<Rightarrow> (nat \<times> u8 list) list" where
  "word_patches = map (\<lambda>(k, w). (k, word_bytes w))"

definition apart :: "nat \<times> u8 list \<Rightarrow> nat \<times> u8 list \<Rightarrow> bool" where
  "apart x y \<longleftrightarrow> fst x + length (snd x) \<le> fst y \<or> fst y + length (snd y) \<le> fst x"

definition fits :: "nat \<Rightarrow> nat \<times> u8 list \<Rightarrow> bool" where
  "fits n x \<longleftrightarrow> fst x + length (snd x) \<le> n"

lemma patch_Nil [simp]: "patch [] M = M"
  by (simp add: patch_def)

lemma patch_Cons [simp]: "patch ((k, bs) # ps) M = patch ps (put_at k bs M)"
  by (simp add: patch_def)

lemma patch_append: "patch (ps @ qs) M = patch qs (patch ps M)"
  by (simp add: patch_def)

lemma get_patch_other:
  "list_all (fits (length M)) ps \<Longrightarrow> list_all (apart (k, bs)) ps \<Longrightarrow> get_at k (length bs) (patch ps M) = get_at k (length bs) M"
  by (induction ps arbitrary: M) (auto simp: fits_def apart_def)

lemma get_patch:
  "list_all (fits (length M)) ps \<Longrightarrow> sorted_wrt apart ps \<Longrightarrow> (k, bs) \<in> set ps \<Longrightarrow> get_at k (length bs) (patch ps M) = bs"
proof (induction ps arbitrary: M)
  case (Cons x ps)
  obtain j cs where x: "x = (j, cs)" by force
  have j: "j + length cs \<le> length M" using Cons.prems(1) by (simp add: x fits_def)
  then have fit: "list_all (fits (length (put_at j cs M))) ps" using Cons.prems(1) by simp
  show ?case
  proof (cases "(k, bs) \<in> set ps")
    case True
    then show ?thesis using Cons.IH [OF fit] Cons.prems(2) by (simp add: x)
  next
    case False
    then have "x = (k, bs)" "list_all (apart (k, bs)) ps" using Cons.prems(2,3) by (auto simp: list_all_iff)
    then show ?thesis using get_patch_other [of "put_at k bs M" ps k bs] fit j by (simp add: x)
  qed
qed simp

lemma fills_words:
  assumes "filled p ls s0 M s" and "ws = map (\<lambda>(k, w). (p + of_nat k, w)) kws" and "list_all (\<lambda>(k, w). k + 4 \<le> length ls) kws"
  shows "fills p ls s0 (patch (word_patches kws) M) (store_words ws s)"
  using assms(1,3) unfolding assms(2)
proof (induction kws arbitrary: s M)
  case Nil
  then show ?case by (simp add: fills_Ok word_patches_def)
next
  case (Cons kw kws)
  obtain k w where kw: "kw = (k, w)" by force
  have k: "k + 4 \<le> length ls" "list_all (\<lambda>(k, w). k + 4 \<le> length ls) kws" using Cons.prems(2) kw by simp_all
  show ?case
    using fills_then [OF fills_store32 [OF Cons.prems(1) refl k(1), of w] Cons.IH [OF _ k(2)]] by (simp add: kw word_patches_def)
qed

lemma image_at_load32:
  assumes "image_at s p ls M" and "k + 4 \<le> length M"
  shows "load32 (p + of_nat k) s = Ok (bytes_word (get_at k 4 M))"
proof -
  obtain vs where "length vs = 4" "writable s (p + of_nat k) vs" "map (mem_at s) vs = get_at k 4 M"
    using image_at_split [OF assms] .
  then show ?thesis using load32_readable [of s "p + of_nat k" vs] by (simp add: writable_def)
qed

lemma image_at_load8:
  assumes "image_at s p ls M" and "k + 1 \<le> length M"
  shows "vread8 (p + of_nat k) s = Ok (hd (get_at k 1 M))"
proof -
  obtain vs where vs: "length vs = 1" "writable s (p + of_nat k) vs" "map (mem_at s) vs = get_at k 1 M"
    using image_at_split [OF assms] .
  then obtain l where "vs = [l]" by (auto simp: length_Suc_conv)
  with vs(2) have "vread8 (p + of_nat k) s = Ok (hd (map (mem_at s) vs))" by (simp add: writable_def vread8_loc)
  then show ?thesis unfolding vs(3) .
qed

section \<open>The structure\<close>

text \<open>What \<open>thread_save_info\<close> stores of a thread that is not running, where the thread has the FPU data \<open>fx\<close>.\<close>

definition info_patches :: "thread \<Rightarrow> u8 list \<Rightarrow> (nat \<times> u8 list) list" where
  "info_patches t fx =
     word_patches [(0, t_id t), (4, t_pctx t)] @
     [(8, [ucast (t_state t)]), (10, [ucast (t_event t)]), (9, [t_flags t]), (11, [t_fault t]), (12, word_bytes (t_fault_addr t))] @
     word_patches [(36, t_edi t), (40, t_esi t), (44, t_ebp t), (48, t_useresp t), (52, t_ebx t), (56, t_edx t), (60, t_ecx t),
        (64, t_eax t), (68, t_eip t), (72, t_eflags t)] @ [(76, fx)] @ word_patches [(28, t_usr_eip t), (32, t_usr_esp t)]"

lemma info_patches_apart:
  "length fx = 512 \<Longrightarrow> sorted_wrt apart (info_patches t fx) \<and> list_all (fits 588) (info_patches t fx)"
  by (simp add: info_patches_def word_patches_def apart_def fits_def)

lemma info_part:
  "length M = 588 \<Longrightarrow> length fx = 512 \<Longrightarrow> (k, bs) \<in> set (info_patches t fx) \<Longrightarrow>
   get_at k (length bs) (patch (info_patches t fx) M) = bs"
  using info_patches_apart [of fx t] get_patch [of M "info_patches t fx" k bs] by simp

lemmas fills_word_then = fills_then [OF fills_store32]
  and fills_byte_then = fills_then [OF fills_store8]
  and fills_words_then = fills_then [OF fills_words]
  and fills_memcpy_then = fills_then [OF fills_memcpy]

lemma save_info_fills:
  assumes "image_at s d ls M" and "length ls = 588" and "t = threads s p" and "t_state t \<noteq> TS_RUNNING"
    and "t_fxdata t \<noteq> NULL" and "readable s (t_fxdata t) fs" and "length fs = 512" and "set fs \<inter> set ls = {}"
  shows "fills d ls s (patch (info_patches t (map (mem_at s) fs)) M) (save_info d p s)"
proof -
  have s: "filled d ls s M s" using assms(1) by (simp add: filled_def writes_refl)
  note cond = assms(4,5) [THEN eqTrueI]
  show ?thesis
    unfolding save_info_def Let_def info_patches_def patch_append patch_Cons patch_Nil and_then_assoc assms(3) [symmetric] cond if_True
    apply (rule fills_words_then [OF s, where kws = "[(0, t_id t), (4, t_pctx t)]"], simp, simp add: assms(2))
    apply (erule fills_byte_then [where k = 8], simp, simp add: assms(2))
    apply (erule fills_byte_then [where k = 10], simp, simp add: assms(2))
    apply (erule fills_byte_then [where k = 9], simp, simp add: assms(2))
    apply (erule fills_byte_then [where k = 11], simp, simp add: assms(2))
    apply (erule fills_word_then [where k = 12], simp, simp add: assms(2))
    apply (erule fills_words_then [where kws = "[(36, t_edi t), (40, t_esi t), (44, t_ebp t), (48, t_useresp t),
      (52, t_ebx t), (56, t_edx t), (60, t_ecx t), (64, t_eax t), (68, t_eip t), (72, t_eflags t)]"], simp, simp add: assms(2))
    apply (erule fills_memcpy_then [OF _ _ _ assms(6,7,8), where k = 76], simp, simp add: assms(2))
    apply (erule fills_words [where kws = "[(28, t_usr_eip t), (32, t_usr_esp t)]"], simp, simp add: assms(2))
    done
qed

text \<open>The structure at \<open>d\<close> has what was stored of the thread \<open>t\<close>.\<close>

definition info_at :: "'a machine_scheme \<Rightarrow> u32 \<Rightarrow> location list \<Rightarrow> thread \<Rightarrow> u8 list \<Rightarrow> bool" where
  "info_at s d ls t fx \<longleftrightarrow> length ls = 588 \<and> length fx = 512 \<and>
     (\<exists>M. length M = 588 \<and> image_at s d ls (patch (info_patches t fx) M))"

lemma info_get:
  assumes "info_at s d ls t fx" and "(k, bs) \<in> set (info_patches t fx)"
  obtains N where "image_at s d ls N" and "k + length bs \<le> length N" and "get_at k (length bs) N = bs"
proof -
  obtain M where M: "length M = 588" "image_at s d ls (patch (info_patches t fx) M)" and l: "length ls = 588" "length fx = 512"
    using assms(1) by (auto simp: info_at_def)
  have "length (patch (info_patches t fx) M) = 588" using M(2) l(1) unfolding image_at_def by (metis length_map)
  moreover have "k + length bs \<le> 588" using info_patches_apart [OF l(2), of t] assms(2) by (auto simp: list_all_iff fits_def)
  ultimately show thesis using that [OF M(2)] info_part [OF M(1) l(2) assms(2)] by simp
qed

lemma info_load32: "info_at s d ls t fx \<Longrightarrow> (k, word_bytes w) \<in> set (info_patches t fx) \<Longrightarrow> load32 (d + of_nat k) s = Ok w"
  by (erule (1) info_get) (simp add: image_at_load32)

lemma info_load8: "info_at s d ls t fx \<Longrightarrow> (k, [b]) \<in> set (info_patches t fx) \<Longrightarrow> vread8 (d + of_nat k) s = Ok b"
  by (erule (1) info_get) (simp add: image_at_load8)

lemma info_words:
  assumes "info_at s d ls t fx"
  shows "load32 (d + off_pctx) s = Ok (t_pctx t)" and "load32 (d + off_usr_ip) s = Ok (t_usr_eip t)"
    and "load32 (d + off_usr_sp) s = Ok (t_usr_esp t)" and "load32 (d + off_edi) s = Ok (t_edi t)"
    and "load32 (d + off_esi) s = Ok (t_esi t)" and "load32 (d + off_ebp) s = Ok (t_ebp t)"
    and "load32 (d + off_esp) s = Ok (t_useresp t)" and "load32 (d + off_ebx) s = Ok (t_ebx t)"
    and "load32 (d + off_edx) s = Ok (t_edx t)" and "load32 (d + off_ecx) s = Ok (t_ecx t)"
    and "load32 (d + off_eax) s = Ok (t_eax t)" and "load32 (d + off_eip) s = Ok (t_eip t)"
    and "load32 (d + off_eflags) s = Ok (t_eflags t)"
    and "vread8 (d + off_flags) s = Ok (t_flags t)" and "vread8 (d + off_fault) s = Ok (t_fault t)"
proof -
  have "list_all (\<lambda>(k, w). load32 (d + of_nat k) s = Ok w)
    [(4, t_pctx t), (28, t_usr_eip t), (32, t_usr_esp t), (36, t_edi t), (40, t_esi t), (44, t_ebp t), (48, t_useresp t),
     (52, t_ebx t), (56, t_edx t), (60, t_ecx t), (64, t_eax t), (68, t_eip t), (72, t_eflags t)]"
    by (simp only: list.pred_inject prod.case, intro conjI TrueI; rule info_load32 [OF assms];
        simp add: info_patches_def word_patches_def)
  then show "load32 (d + off_pctx) s = Ok (t_pctx t)" "load32 (d + off_usr_ip) s = Ok (t_usr_eip t)"
    "load32 (d + off_usr_sp) s = Ok (t_usr_esp t)" "load32 (d + off_edi) s = Ok (t_edi t)"
    "load32 (d + off_esi) s = Ok (t_esi t)" "load32 (d + off_ebp) s = Ok (t_ebp t)"
    "load32 (d + off_esp) s = Ok (t_useresp t)" "load32 (d + off_ebx) s = Ok (t_ebx t)"
    "load32 (d + off_edx) s = Ok (t_edx t)" "load32 (d + off_ecx) s = Ok (t_ecx t)"
    "load32 (d + off_eax) s = Ok (t_eax t)" "load32 (d + off_eip) s = Ok (t_eip t)"
    "load32 (d + off_eflags) s = Ok (t_eflags t)" by simp_all
  have "vread8 (d + of_nat 9) s = Ok (t_flags t)" "vread8 (d + of_nat 11) s = Ok (t_fault t)"
    by (rule info_load8 [OF assms], simp add: info_patches_def word_patches_def)+
  then show "vread8 (d + off_flags) s = Ok (t_flags t)" "vread8 (d + off_fault) s = Ok (t_fault t)" by simp_all
qed

lemma info_kept: "info_at s d ls t fx \<Longrightarrow> writes L s s' \<Longrightarrow> L \<inter> set ls = {} \<Longrightarrow> info_at s' d ls t fx"
  using writes_writable [of L s s' d ls] writes_kept [of L s s' ls] unfolding info_at_def image_at_def by (metis Int_commute)

text \<open>The bytes of the FPU data in the structure.\<close>

lemma info_fx:
  assumes "info_at s d ls t fx"
  obtains vs where "readable s (d + off_fxdata) vs" and "length vs = 512" and "map (mem_at s) vs = fx" and "set vs \<subseteq> set ls"
proof -
  have l: "length fx = 512" "(76, fx) \<in> set (info_patches t fx)" using assms by (simp_all add: info_at_def info_patches_def)
  obtain N where N: "image_at s d ls N" "76 + 512 \<le> length N" "get_at 76 512 N = fx"
    using info_get [OF assms l(2)] l(1) by metis
  obtain us vs ws where "ls = us @ vs @ ws" "length vs = 512" "writable s (d + of_nat 76) vs" "map (mem_at s) vs = fx"
    using image_at_split [OF N(1,2)] N(3) by metis
  then show thesis using that [of vs] by (auto simp: writable_def)
qed

lemma writes_threads: "writes L s s' \<Longrightarrow> threads s' = threads s"
  unfolding writes_def by (drule conjunct2, drule conjunct2, drule conjunct2, drule arg_cong [of _ _ threads]) simp

lemma th_upd_same: "f (threads s p) = threads s p \<Longrightarrow> th_upd p f s = s"
  by (simp add: th_upd_def)

lemma set_registers_restores:
  assumes i: "info_at s d ls (threads s p) fx" and "t_fxdata (threads s p) \<noteq> NULL"
    and w: "writable s (t_fxdata (threads s p)) fs" and "length fs = 512" and "set fs \<inter> set ls = {}"
  shows "\<exists>s'. set_registers p d s = Ok s' \<and> map (mem_at s') fs = fx \<and> writes (set fs) s s'"
proof -
  obtain vs where vs: "readable s (d + off_fxdata) vs" "length vs = 512" "map (mem_at s) vs = fx" "set vs \<subseteq> set ls"
    using info_fx [OF i] .
  have "set vs \<inter> set fs = {}" using vs(4) assms(5) by blast
  then obtain s' where s': "memcpy (t_fxdata (threads s p)) (d + off_fxdata) 512 s = Ok s'" "map (mem_at s') fs = fx" "writes (set fs) s s'"
    using memcpy_writable [OF w vs(1)] vs(2,3) assms(4) by auto
  have "set_registers p d s = memcpy (t_fxdata (threads s p)) (d + off_fxdata) 512 s"
    unfolding set_registers_def info_words [OF i] and_then.simps Let_def
    using assms(2) by (simp add: th_upd_same)
  with s' show ?thesis by simp
qed

lemma set_info_restores:
  assumes i: "info_at s d ls (threads s p) fx" and "t_fxdata (threads s p) \<noteq> NULL" and "t_state (threads s p) \<noteq> TS_RUNNING"
    and w: "writable s (t_fxdata (threads s p)) fs" and "length fs = 512" and "set fs \<inter> set ls = {}"
  shows "\<exists>s'. set_info p d s = Ok s' \<and> map (mem_at s') fs = fx \<and> writes (set fs) s s'"
proof -
  obtain s' where s': "set_registers p d s = Ok s'" "map (mem_at s') fs = fx" "writes (set fs) s s'"
    using set_registers_restores [OF i assms(2) w assms(5,6)] by blast
  have t: "threads s' p = threads s p" using writes_threads [OF s'(3)] by simp
  have i': "info_at s' d ls (threads s p) fx" using info_kept [OF i s'(3) assms(6)] .
  have "set_info p d s = Ok s'"
    unfolding set_info_def info_words [OF i] and_then.simps Let_def
    using assms(3) by (simp add: th_upd_same s'(1) info_words [OF i] info_words [OF i'] t)
  with s' show ?thesis by simp
qed

section \<open>Properties\<close>

lemma info_saved:
  assumes "fills d ls s (patch (info_patches t fx) M) r" and "length ls = 588" and "length M = 588" and "length fx = 512"
  obtains s' where "r = Ok s'" and "info_at s' d ls t fx" and "writes (set ls) s s'"
  using assms by (auto simp: fills_def filled_def info_at_def)

lemma kcall_target_eax: "kcall_target img (set_eax img v s) = kcall_target img s"
  by (simp add: kcall_target_def set_eax_def thread_get_def th_upd_def)

lemma th_upd_memory:
  "writable (th_upd q f s) p ls = writable s p ls" "mem_at (th_upd q f s) = mem_at s"
  "writes L (th_upd q f s) s' \<Longrightarrow> (\<forall>l. l \<notin> L \<longrightarrow> mem_at s' l = mem_at s l) \<and> s' = (th_upd q f s)\<lparr>pmem := pmem s'\<rparr>"
proof -
  have "loc (th_upd q f s) = loc s \<and> table_frames (th_upd q f s) = table_frames s"
    by (rule loc_cong) (simp_all add: th_upd_def)
  then show "writable (th_upd q f s) p ls = writable s p ls" using writable_other [of "th_upd q f s" s] by simp
  show m: "mem_at (th_upd q f s) = mem_at s" by (simp add: mem_at_def th_upd_def fun_eq_iff)
  show "(\<forall>l. l \<notin> L \<longrightarrow> mem_at s' l = mem_at s l) \<and> s' = (th_upd q f s)\<lparr>pmem := pmem s'\<rparr>" if "writes L (th_upd q f s) s'"
    using that unfolding writes_def m by blast
qed

lemma info_at_th_upd: "info_at (th_upd q f s) d ls t fx = info_at s d ls t fx"
  by (simp add: info_at_def image_at_def th_upd_memory)

lemma kcall_setstate_restores:
  assumes "kcall_target img s = p" and "p \<noteq> NULL" and "t_state (threads s p) = TS_PAUSED \<or> t_state (threads s p) = TS_PAUSEDW"
    and "t_flags (threads s p) AND TF_DEAD = 0" and "info_at s (t_ecx (threads s img)) ls (threads s p) fx"
    and "t_fxdata (threads s p) \<noteq> NULL" and "writable s (t_fxdata (threads s p)) fs" and "length fs = 512"
    and "set fs \<inter> set ls = {}"
  shows "\<exists>s'. kcall_setstate img s = Ok (set_eax img 0 s') \<and> map (mem_at s') fs = fx \<and> writes (set fs) s s'"
proof -
  have "t_state (threads s p) \<noteq> TS_RUNNING" using assms(3) by auto
  then obtain s' where s': "set_info p (t_ecx (threads s img)) s = Ok s'" "map (mem_at s') fs = fx" "writes (set fs) s s'"
    using set_info_restores [OF assms(5,6) _ assms(7-9)] by blast
  have "set_dead p (t_ecx (threads s img)) s = Ok s" using info_words(14) [OF assms(5)] assms(4) by (simp add: set_dead_def)
  then show ?thesis using assms(1-3) s' by (auto simp: kcall_setstate_def Let_def)
qed

text \<open>
  C13: Reading the state of another thread that is paused with \<open>GETSTATE\<close> and writing it back with \<open>SETSTATE\<close> is the identity, for a thread that has FPU data, as it has after a first \<open>SETSTATE\<close>
  (a thread without would be given some), and that is not marked as dead (it would be reported again). The structure of 588 bytes and the 512 bytes of FPU data are mapped and apart. Then both calls
  succeed, and of the whole state of the kernel only the result of the caller and the bytes of the structure differ; the registers, the paging context,
  the flags and the FPU data of the thread are as before.
\<close>

theorem getstate_setstate:
  assumes "p = kcall_target img s" and "p \<noteq> NULL" and "p \<noteq> img"
    and "t_state (threads s p) = TS_PAUSED \<or> t_state (threads s p) = TS_PAUSEDW" and "t_flags (threads s p) AND TF_DEAD = 0"
    and "writable s (t_ecx (threads s img)) ls" and "length ls = 588"
    and "t_fxdata (threads s p) \<noteq> NULL" and "writable s (t_fxdata (threads s p)) fs" and "length fs = 512"
    and "set fs \<inter> set ls = {}"
  shows "\<exists>s1 s2. kcall_getstate img s = Ok s1 \<and> kcall_setstate img s1 = Ok s2 \<and> s2 = (set_eax img 0 s)\<lparr>pmem := pmem s2\<rparr> \<and>
    (\<forall>l. l \<notin> set ls \<longrightarrow> mem_at s2 l = mem_at s l)"
proof -
  let ?d = "t_ecx (threads s img)" and ?t = "threads s p" and ?fx = "map (mem_at s) fs"
  have run: "t_state ?t \<noteq> TS_RUNNING" using assms(4) by auto
  have "image_at s ?d ls (map (mem_at s) ls)" "readable s (t_fxdata ?t) fs"
    using assms(6,9) by (simp_all add: image_at_def writable_def)
  then obtain s0 where s0: "save_info ?d p s = Ok s0" "info_at s0 ?d ls ?t ?fx" "writes (set ls) s s0"
    using info_saved [OF save_info_fills [OF _ assms(7) refl run assms(8) _ assms(10,11)]] assms(7,10) by (metis length_map)
  define s1 where "s1 = set_eax img 0 s0"
  have t0: "threads s0 = threads s" by (rule writes_threads [OF s0(3)])
  have get: "kcall_getstate img s = Ok s1"
    using assms(1-4) s0(1) by (auto simp: kcall_getstate_def s1_def Let_def)
  obtain m where m: "s0 = s\<lparr>pmem := m\<rparr>" using s0(3) unfolding writes_def by blast
  have here: "threads s1 p = ?t" "t_ecx (threads s1 img) = ?d" "kcall_target img s1 = p"
    using assms(1,3) by (simp_all add: s1_def kcall_target_eax m set_eax_def th_upd_def kcall_target_def thread_get_def)
  have i: "info_at s1 (t_ecx (threads s1 img)) ls (threads s1 p) ?fx"
    unfolding here(1,2) using s0(2) by (simp add: s1_def set_eax_def info_at_th_upd)
  have w: "writable s1 (t_fxdata (threads s1 p)) fs"
    unfolding here(1) using assms(9) writes_writable [OF s0(3)] by (simp add: s1_def set_eax_def th_upd_memory)
  obtain s3 where s3: "kcall_setstate img s1 = Ok (set_eax img 0 s3)" "map (mem_at s3) fs = ?fx" "writes (set fs) s1 s3"
    using kcall_setstate_restores [OF here(3) assms(2) _ _ i _ w assms(10,11)] assms(4,5,8) unfolding here(1) by blast
  obtain n where n: "s3 = s1\<lparr>pmem := n\<rparr>" using s3(3) unfolding writes_def by blast
  have "mem_at s3 l = mem_at s l" if "l \<notin> set ls" for l
  proof (cases "l \<in> set fs")
    case True
    then show ?thesis using s3(2) by simp
  next
    case False
    then show ?thesis
      using writes_at [OF s3(3)] writes_at [OF s0(3) that] by (simp add: s1_def set_eax_def th_upd_memory)
  qed
  then have "\<forall>l. l \<notin> set ls \<longrightarrow> mem_at (set_eax img 0 s3) l = mem_at s l" by (simp add: set_eax_def th_upd_memory)
  moreover have "set_eax img 0 s3 = (set_eax img 0 s)\<lparr>pmem := pmem (set_eax img 0 s3)\<rparr>"
    by (simp add: n s1_def m set_eax_def th_upd_def)
  ultimately show ?thesis using get s3(1) by blast
qed

text \<open>The example: the running thread reads the state of the paused one.\<close>

definition demo_debugger :: thread_state where
  "demo_debugger = th_upd 0x1000 (\<lambda>t. t\<lparr>t_ebx := 3, t_ecx := 0x3400\<rparr>) (th_upd 0x4000 (\<lambda>t. t\<lparr>t_fxdata := 0x3800\<rparr>) demo_threads)"

theorem getstate_setstate_witness:
  "\<exists>s1 s2. kcall_getstate 0x1000 demo_debugger = Ok s1 \<and> kcall_setstate 0x1000 s1 = Ok s2 \<and>
     threads s2 0x4000 = threads demo_debugger 0x4000"
proof -
  have "loc demo_debugger = loc demo_frames \<and> table_frames demo_debugger = table_frames demo_frames"
    by (rule loc_cong) (simp_all add: demo_debugger_def th_upd_def demo_threads_def demo_frames_def)
  then have w: "writable demo_debugger 0x3400 (demo_block 1024 588)" "writable demo_debugger 0x3800 (demo_block 2048 512)"
    using demo_writable [of 1024 588] demo_writable [of 2048 512] writable_other [of demo_debugger demo_frames] by simp_all
  have t: "kcall_target 0x1000 demo_debugger = 0x4000" "t_ecx (threads demo_debugger 0x1000) = 0x3400"
    "threads demo_debugger 0x4000 = zero_thread\<lparr>t_id := 3, t_state := TS_PAUSED, t_fxdata := 0x3800\<rparr>"
    by (simp_all add: demo_debugger_def th_upd_def demo_threads_def kcall_target_def thread_get_def zero_thread_def sint_u32)
  have d: "set (demo_block 2048 512) \<inter> set (demo_block 1024 588) = {}"
    unfolding Int_commute [of "set (demo_block 2048 512)"] by (rule demo_blocks_apart) simp_all
  have "\<exists>s1 s2. kcall_getstate 0x1000 demo_debugger = Ok s1 \<and> kcall_setstate 0x1000 s1 = Ok s2 \<and>
      s2 = (set_eax 0x1000 0 demo_debugger)\<lparr>pmem := pmem s2\<rparr> \<and>
      (\<forall>l. l \<notin> set (demo_block 1024 588) \<longrightarrow> mem_at s2 l = mem_at demo_debugger l)"
    by (rule getstate_setstate [of "0x4000", OF _ _ _ _ _ _ _ _ _ _ d]) (use w t in \<open>simp_all add: zero_thread_def\<close>)
  then obtain s1 s2 where "kcall_getstate 0x1000 demo_debugger = Ok s1" "kcall_setstate 0x1000 s1 = Ok s2"
    and s2: "s2 = (set_eax 0x1000 0 demo_debugger)\<lparr>pmem := pmem s2\<rparr>" by blast
  moreover have "threads s2 0x4000 = threads demo_debugger 0x4000"
    using arg_cong [OF s2, of "\<lambda>s. threads s 0x4000"] by (simp add: set_eax_def th_upd_def)
  ultimately show ?thesis by blast
qed

end
