(* ===== verification/Layout.thy ===== *)
theory Layout
  imports Boot Info
begin

text \<open>
  The structures that the kernel shares with the boot loader, with ELF files and with the system layer. A layout is the
  list of the members of a structure with their sizes in bytes, in the order of the declaration. The
  model addresses members by constants; here these constants are shown to be the offsets
  that follow from the declarations.
\<close>

type_synonym layout = "(string \<times> nat) list"

definition size_of :: "layout \<Rightarrow> nat" where
  "size_of ms = sum_list (map snd ms)"

primrec offset_of :: "layout \<Rightarrow> string \<Rightarrow> nat" where
  "offset_of [] name = 0"
| "offset_of (m # ms) name = (if fst m = name then 0 else snd m + offset_of ms name)"

text \<open>
  \<open>words ns\<close> are members of four bytes each. Without the attribute \<open>packed\<close> a compiler keeps every member at a multiple
  of its size, which leaves no gaps in a structure for which \<open>aligned\<close> holds.
\<close>

definition words :: "string list \<Rightarrow> layout" where
  "words ns = map (\<lambda>n. (n, 4)) ns"

fun aligned_from :: "nat \<Rightarrow> nat list \<Rightarrow> bool" where
  "aligned_from n [] = True"
| "aligned_from n (k # ks) = (n mod k = 0 \<and> aligned_from (n + k) ks)"

section \<open>Declarations\<close>

definition multiboot :: layout where
  "multiboot = words [''flags'', ''mem_lower'', ''mem_upper'', ''boot_device'', ''cmdline'', ''mods_count'', ''mods_addr'', ''num'',
     ''size'', ''addr'', ''shndx'', ''mmap_length'', ''mmap_addr'', ''drives_length'', ''drives_addr'', ''config_table'',
     ''boot_loader_name'', ''apm_table'', ''vbe_control_info'', ''vbe_mode_info'', ''vbe_mode'', ''vbe_interface_seg'',
     ''vbe_interface_off'', ''vbe_interface_len'']"

definition module :: layout where
  "module = words [''mod_start'', ''mod_end'', ''string'', ''reserved'']"

definition memory_map :: layout where
  "memory_map = words [''size'', ''base_addr_low'', ''base_addr_high'', ''length_low'', ''length_high'', ''type'']"

definition elf32_ehdr :: layout where
  "elf32_ehdr = [(''e_ident'', 16), (''e_type'', 2), (''e_machine'', 2), (''e_version'', 4), (''e_entry'', 4), (''e_phoff'', 4),
     (''e_shoff'', 4), (''e_flags'', 4), (''e_ehsize'', 2), (''e_phentsize'', 2), (''e_phnum'', 2), (''e_shentsize'', 2),
     (''e_shnum'', 2), (''e_shstrndx'', 2)]"

definition elf32_phdr :: layout where
  "elf32_phdr = words [''p_type'', ''p_offset'', ''p_vaddr'', ''p_paddr'', ''p_filesz'', ''p_memsz'', ''p_flags'', ''p_align'']"

definition t_regs :: layout where
  "t_regs = words [''edi'', ''esi'', ''ebp'', ''esp'', ''ebx'', ''edx'', ''ecx'', ''eax'', ''eip'', ''eflags''] @ [(''fxdata'', 512)]"

definition t_info :: layout where
  "t_info = [(''id'', 4), (''pctx'', 4), (''state'', 1), (''flags'', 1), (''event'', 1), (''fault'', 1), (''fault_addr'', 4),
     (''fault_reserved'', 4), (''sched_priority'', 1), (''sched_flags'', 1), (''sched_reserved'', 2), (''sched_ticks'', 4),
     (''usr_ip'', 4), (''usr_sp'', 4), (''regs'', size_of t_regs)]"

text \<open>The members of \<open>struct thread\<close>, which is packed; its contents are the record of the same name.\<close>

definition thread_layout :: layout where
  "thread_layout = words [''ds'', ''edi'', ''esi'', ''ebp'', ''esp'', ''ebx'', ''edx'', ''ecx'', ''eax'', ''num'', ''err'', ''eip'', ''cs'',
     ''eflags'', ''useresp'', ''ss'', ''vm86_es'', ''vm86_ds'', ''vm86_fs'', ''vm86_gs'', ''vm86_start'', ''vm86_active'', ''vm86_if'',
     ''vm86_saved_eip'', ''vm86_saved_esp'', ''vm86_saved_eflags'', ''sys_eip'', ''sys_esp'', ''usr_eip'', ''usr_esp'', ''fxdata'',
     ''id'', ''state''] @ [(''flags'', 1), (''tick'', 8), (''next'', 4), (''event'', 4), (''next_evqueue'', 4), (''next_dead'', 4),
     (''fault'', 1), (''fault_addr'', 4), (''next_fault'', 4), (''pctx'', 4)]"

section \<open>Offsets\<close>

lemmas layouts = multiboot_def module_def memory_map_def elf32_ehdr_def elf32_phdr_def t_regs_def t_info_def thread_layout_def
  words_def size_of_def

lemma boot_offsets:
  "off_mods_count = of_nat (offset_of multiboot ''mods_count'')" "off_mods_addr = of_nat (offset_of multiboot ''mods_addr'')"
  "off_mmap_length = of_nat (offset_of multiboot ''mmap_length'')" "off_mmap_addr = of_nat (offset_of multiboot ''mmap_addr'')"
  "off_mod_start = of_nat (offset_of module ''mod_start'')" "off_base_addr_low = of_nat (offset_of memory_map ''base_addr_low'')"
  "off_length_low = of_nat (offset_of memory_map ''length_low'')" "off_type = of_nat (offset_of memory_map ''type'')"
  "sizeof_memory_map = of_nat (size_of memory_map)"
  by (simp_all add: layouts)

lemma elf_offsets:
  "off_e_type = of_nat (offset_of elf32_ehdr ''e_type'')" "off_e_machine = of_nat (offset_of elf32_ehdr ''e_machine'')"
  "off_e_version = of_nat (offset_of elf32_ehdr ''e_version'')" "off_e_entry = of_nat (offset_of elf32_ehdr ''e_entry'')"
  "off_e_phoff = of_nat (offset_of elf32_ehdr ''e_phoff'')" "off_e_phnum = of_nat (offset_of elf32_ehdr ''e_phnum'')"
  "off_p_type = of_nat (offset_of elf32_phdr ''p_type'')" "off_p_offset = of_nat (offset_of elf32_phdr ''p_offset'')"
  "off_p_vaddr = of_nat (offset_of elf32_phdr ''p_vaddr'')" "off_p_filesz = of_nat (offset_of elf32_phdr ''p_filesz'')"
  "off_p_memsz = of_nat (offset_of elf32_phdr ''p_memsz'')" "off_p_flags = of_nat (offset_of elf32_phdr ''p_flags'')"
  "sizeof_phdr = of_nat (size_of elf32_phdr)"
  by (simp_all add: layouts)

text \<open>The structures of ELF are not packed, but have no gaps; the 16 bytes of \<open>e_ident\<close> fit anywhere.\<close>

lemma elf_aligned: "aligned_from 16 (map snd (tl elf32_ehdr))" "aligned_from 0 (map snd elf32_phdr)"
  by (simp_all add: layouts)

lemma info_offsets:
  "off_id = of_nat (offset_of t_info ''id'')" "off_pctx = of_nat (offset_of t_info ''pctx'')"
  "off_state = of_nat (offset_of t_info ''state'')" "off_flags = of_nat (offset_of t_info ''flags'')"
  "off_event = of_nat (offset_of t_info ''event'')" "off_fault = of_nat (offset_of t_info ''fault'')"
  "off_fault_addr = of_nat (offset_of t_info ''fault_addr'')" "off_usr_ip = of_nat (offset_of t_info ''usr_ip'')"
  "off_usr_sp = of_nat (offset_of t_info ''usr_sp'')"
  by (simp_all add: layouts)

lemma register_offsets:
  "off_edi = of_nat (offset_of t_info ''regs'' + offset_of t_regs ''edi'')" "off_esi = of_nat (offset_of t_info ''regs'' + offset_of t_regs ''esi'')"
  "off_ebp = of_nat (offset_of t_info ''regs'' + offset_of t_regs ''ebp'')" "off_esp = of_nat (offset_of t_info ''regs'' + offset_of t_regs ''esp'')"
  "off_ebx = of_nat (offset_of t_info ''regs'' + offset_of t_regs ''ebx'')" "off_edx = of_nat (offset_of t_info ''regs'' + offset_of t_regs ''edx'')"
  "off_ecx = of_nat (offset_of t_info ''regs'' + offset_of t_regs ''ecx'')" "off_eax = of_nat (offset_of t_info ''regs'' + offset_of t_regs ''eax'')"
  "off_eip = of_nat (offset_of t_info ''regs'' + offset_of t_regs ''eip'')" "off_eflags = of_nat (offset_of t_info ''regs'' + offset_of t_regs ''eflags'')"
  "off_fxdata = of_nat (offset_of t_info ''regs'' + offset_of t_regs ''fxdata'')"
  by (simp_all add: layouts)

lemma thread_offsets:
  "off_num = of_nat (offset_of thread_layout ''num'')" "off_vm86_es = of_nat (offset_of thread_layout ''vm86_es'')"
  "off_vm86_start = of_nat (offset_of thread_layout ''vm86_start'')" "sizeof_thread = of_nat (size_of thread_layout)"
  by (simp_all add: layouts)

end
