(* ===== verification/Syscalls.thy ===== *)
theory Syscalls
  imports Kernel
begin

text \<open>
  The kernel calls as the system layer sees them (\<open>src/system/kcalls.c\<close>): wrappers around \<open>kcall\<close>, which
  loads the registers and raises interrupt \<open>0x81\<close>. The wrappers take that function as a parameter, and
  the address of their local structures where they have one; \<open>kernel_call\<close> is the function as the kernel of this
  development provides it.
\<close>

type_synonym 's kcall_fn = "u32 \<Rightarrow> u32 \<Rightarrow> u32 \<Rightarrow> u32 \<Rightarrow> 's \<Rightarrow> (u32 \<times> 's) outcome"

section \<open>Threads\<close>

definition t_spawn :: "'s kcall_fn \<Rightarrow> ptr \<Rightarrow> 's \<Rightarrow> (u32 \<times> 's) outcome" where
  "t_spawn kc state s = kc 0x02 state 0 0 s"

definition t_reap :: "'s kcall_fn \<Rightarrow> u32 \<Rightarrow> ptr \<Rightarrow> 's \<Rightarrow> (u32 \<times> 's) outcome" where
  "t_reap kc thread info s = kc 0x0B thread info 0 s"

definition t_getid :: "'s kcall_fn \<Rightarrow> 's \<Rightarrow> (u32 \<times> 's) outcome" where
  "t_getid kc s = kc 0x03 0 0 0 s"

definition t_yield :: "'s kcall_fn \<Rightarrow> 's \<Rightarrow> (u32 \<times> 's) outcome" where
  "t_yield kc s = kc 0x04 0 0 0 s"

definition t_pause :: "'s kcall_fn \<Rightarrow> u32 \<Rightarrow> 's \<Rightarrow> (u32 \<times> 's) outcome" where
  "t_pause kc thread s = kc 0x05 thread 0 0 s"

definition t_resume :: "'s kcall_fn \<Rightarrow> u32 \<Rightarrow> 's \<Rightarrow> (u32 \<times> 's) outcome" where
  "t_resume kc thread s = kc 0x06 thread 0 0 s"

definition t_getstate :: "'s kcall_fn \<Rightarrow> u32 \<Rightarrow> ptr \<Rightarrow> 's \<Rightarrow> (u32 \<times> 's) outcome" where
  "t_getstate kc thread state s = kc 0x07 thread state 0 s"

definition t_setstate :: "'s kcall_fn \<Rightarrow> u32 \<Rightarrow> ptr \<Rightarrow> 's \<Rightarrow> (u32 \<times> 's) outcome" where
  "t_setstate kc thread state s = kc 0x08 thread state 0 s"

definition t_getdead :: "'s kcall_fn \<Rightarrow> 's \<Rightarrow> (u32 \<times> 's) outcome" where
  "t_getdead kc s = kc 0x0A 0 0 0 s"

definition t_getfault :: "'s kcall_fn \<Rightarrow> 's \<Rightarrow> (u32 \<times> 's) outcome" where
  "t_getfault kc s = kc 0x09 0 0 0 s"

text \<open>The common tail of \<open>__t_exit\<close> and \<open>__t_kill\<close>: mark the thread as dead, with its status in \<open>eax\<close>.\<close>

definition mark_dead ::
  "'a machine_scheme kcall_fn \<Rightarrow> ptr \<Rightarrow> u32 \<Rightarrow> u32 \<Rightarrow> 'a machine_scheme \<Rightarrow> (u32 \<times> 'a machine_scheme) outcome" where
  "mark_dead kc state thread status s =
     and_then (t_getstate kc thread state s) (\<lambda>(err, s).
       if err \<noteq> 0 then Ok (err, s)
       else
         and_then (vread8 (state + off_flags) s) (\<lambda>flags.
         and_then (vwrite8 (state + off_flags) (flags OR TF_DEAD) s) (\<lambda>s.
         and_then (store32 (state + off_eax) status s) (\<lambda>s.
         and_then (t_setstate kc thread state s) (\<lambda>(err, s).
           if err \<noteq> 0 then Ok (err, s) else Ok (0, s))))))"

definition t_exit ::
  "'a machine_scheme kcall_fn \<Rightarrow> ptr \<Rightarrow> u32 \<Rightarrow> 'a machine_scheme \<Rightarrow> (u32 \<times> 'a machine_scheme) outcome" where
  "t_exit kc state status s = mark_dead kc state (- 1) status s"

definition t_kill ::
  "'a machine_scheme kcall_fn \<Rightarrow> ptr \<Rightarrow> u32 \<Rightarrow> u32 \<Rightarrow> 'a machine_scheme \<Rightarrow> (u32 \<times> 'a machine_scheme) outcome" where
  "t_kill kc state thread status s =
     and_then (t_pause kc thread s) (\<lambda>(err, s).
       if err \<noteq> 0 then Ok (err, s) else mark_dead kc state thread status s)"

section \<open>Interrupts\<close>

definition sys_irq_wait :: "'s kcall_fn \<Rightarrow> u32 \<Rightarrow> 's \<Rightarrow> (u32 \<times> 's) outcome" where
  "sys_irq_wait kc irq s = kc 0x0D irq 0 0 s"

definition sys_irq_reset :: "'s kcall_fn \<Rightarrow> u32 \<Rightarrow> 's \<Rightarrow> (u32 \<times> 's) outcome" where
  "sys_irq_reset kc irq s = kc 0x0E irq 0 0 s"

section \<open>Paging\<close>

text \<open>The result of \<open>kcall\<close> is an \<open>int\<close>, which is sign extended where a 64-bit number is returned.\<close>

definition sys_pctx_new :: "'s kcall_fn \<Rightarrow> 's \<Rightarrow> (u32 \<times> 's) outcome" where
  "sys_pctx_new kc s = kc 0x10 0 0 0 s"

definition sys_pctx_free :: "'s kcall_fn \<Rightarrow> u32 \<Rightarrow> 's \<Rightarrow> (u32 \<times> 's) outcome" where
  "sys_pctx_free kc pctx s = kc 0x11 pctx 0 0 s"

definition newframe :: "'s kcall_fn \<Rightarrow> 's \<Rightarrow> (u64 \<times> 's) outcome" where
  "newframe kc s = and_then (kc 0x1C 0 0 0 s) (\<lambda>(r, s). Ok (scast r, s))"

definition freeframe :: "'s kcall_fn \<Rightarrow> u64 \<Rightarrow> 's \<Rightarrow> (u32 \<times> 's) outcome" where
  "freeframe kc frame s = kc 0x1D (ucast (frame AND 0xFFFFFFFF)) (ucast (drop_bit 32 frame)) 0 s"

definition takeframe :: "'s kcall_fn \<Rightarrow> u64 \<Rightarrow> 's \<Rightarrow> (u32 \<times> 's) outcome" where
  "takeframe kc frame s = kc 0x1E (ucast (frame AND 0xFFFFFFFF)) (ucast (drop_bit 32 frame)) 0 s"

definition p_set_frame :: "'s kcall_fn \<Rightarrow> u32 \<Rightarrow> u64 \<Rightarrow> 's \<Rightarrow> (u32 \<times> 's) outcome" where
  "p_set_frame kc page frame s = kc 0x12 page (ucast frame) 0 s"

definition p_set_flags :: "'s kcall_fn \<Rightarrow> u32 \<Rightarrow> u32 \<Rightarrow> 's \<Rightarrow> (u32 \<times> 's) outcome" where
  "p_set_flags kc page flags s = kc 0x13 page flags 0 s"

definition p_get_frame :: "'s kcall_fn \<Rightarrow> u32 \<Rightarrow> 's \<Rightarrow> (u64 \<times> 's) outcome" where
  "p_get_frame kc page s = and_then (kc 0x14 page 0 0 s) (\<lambda>(r, s). Ok (scast r, s))"

definition p_get_flags :: "'s kcall_fn \<Rightarrow> u32 \<Rightarrow> 's \<Rightarrow> (u32 \<times> 's) outcome" where
  "p_get_flags kc page s = kc 0x15 page 0 0 s"

definition p_alloc :: "'s kcall_fn \<Rightarrow> u32 \<Rightarrow> u32 \<Rightarrow> 's \<Rightarrow> (u32 \<times> 's) outcome" where
  "p_alloc kc page flags s =
     and_then (newframe kc s) (\<lambda>(frame, s).
       if frame = 0xFFFFFFFFFFFFFFFF then Ok (1, s)
       else
         and_then (p_set_frame kc page frame s) (\<lambda>(_, s).
         and_then (p_set_flags kc page flags s) (\<lambda>(_, s). Ok (0, s))))"

section \<open>The kernel behind the calls\<close>

text \<open>
  A call of the thread \<open>img\<close> after which it goes on at once, with the result in \<open>eax\<close>; a call after
  which another thread continues is outside of this function.
\<close>

definition kernel_call :: "ptr \<Rightarrow> 'a thread_state_scheme kcall_fn" where
  "kernel_call img n a b c s =
     and_then (int_handler img (int_entry img ((threads s img)\<lparr>t_num := 0x81, t_eax := n, t_ebx := a, t_ecx := b, t_edx := c\<rparr>) s))
       (\<lambda>(k, s). if k = Some img then Ok (t_eax (threads s img), s) else Stop Undefined)"

definition caller :: "ptr \<Rightarrow> 'a thread_state_scheme \<Rightarrow> bool" where
  "caller img s \<longleftrightarrow> active_thread s = img \<and> img \<noteq> NULL \<and> t_flags (threads s img) AND TF_USER = 0 \<and>
     int_handler_tab s 129 = Some H_kcall"

text \<open>The state in which the kernel finds the call.\<close>

definition call_entry :: "ptr \<Rightarrow> u32 \<Rightarrow> u32 \<Rightarrow> u32 \<Rightarrow> u32 \<Rightarrow> 'a thread_state_scheme \<Rightarrow> 'a thread_state_scheme" where
  "call_entry img n a b c s =
     th_upd img (\<lambda>t. t\<lparr>t_ebx := a, t_edx := c, t_ecx := b, t_eax := n, t_num := 0x81\<rparr>) s"

lemma call_entry_int: "int_entry img ((threads s img)\<lparr>t_num := 0x81, t_eax := n, t_ebx := a, t_ecx := b, t_edx := c\<rparr>) s = call_entry img n a b c s"
  by (simp add: int_entry_def call_entry_def th_upd_def)

lemma call_entry_fields [simp]:
  "active_thread (call_entry img n a b c s) = active_thread s" "int_handler_tab (call_entry img n a b c s) = int_handler_tab s"
  "t_eax (threads (call_entry img n a b c s) img) = n" "t_ebx (threads (call_entry img n a b c s) img) = a"
  "t_ecx (threads (call_entry img n a b c s) img) = b" "t_num (threads (call_entry img n a b c s) img) = 0x81"
  "t_flags (threads (call_entry img n a b c s) q) = t_flags (threads s q)"
  by (simp_all add: call_entry_def)

lemma kernel_call_eq:
  assumes "caller img s" and "kcall img (call_entry img n a b c s) = Ok s'" and "active_thread s' = img"
  shows "kernel_call img n a b c s = Ok (t_eax (threads s' img), s')"
proof -
  have "int_handler img (call_entry img n a b c s) = Ok (Some img, s')"
    using assms by (simp add: int_handler_def irq_entry_def caller_def int_exit_def thread_get_active_def)
  then show ?thesis by (simp add: kernel_call_def call_entry_int)
qed

text \<open>The page tables and frames do not depend on the threads.\<close>

lemma vm_th_upd [simp]:
  "vm_rel (th_upd p f s) F R = vm_rel s F R" "entry (th_upd p f s) = entry s" "dir (th_upd p f s) = dir s"
  "has_room (th_upd p f s) page F = has_room s page F" "space_wf (th_upd p f s) = space_wf s"
proof -
  have d: "dir (th_upd p f s) = dir s" by (simp add: fun_eq_iff dir_def th_upd_def)
  then show "entry (th_upd p f s) = entry s" "has_room (th_upd p f s) page F = has_room s page F"
    by (simp_all add: fun_eq_iff entry_def has_room_def)
  have w: "space_wf (th_upd p f s) = space_wf s" unfolding space_wf_def d by (simp add: th_upd_def)
  then show "vm_rel (th_upd p f s) F R = vm_rel s F R"
    unfolding vm_rel_def d by (simp add: th_upd_def frame_rel_def frame_wf_def)
  show "dir (th_upd p f s) = dir s" "space_wf (th_upd p f s) = space_wf s" by (fact d, fact w)
qed

lemma page_get_th_upd [simp]: "space_wf s \<Longrightarrow> page_get q (th_upd p f s) = page_get q s"
  by (simp add: page_get_entry)

lemma caller_after:
  assumes "caller img s" and "pctx_state.more s' = pctx_state.more (call_entry img n a b c s)"
  shows "caller img (set_eax img v s')" and "active_thread s' = img"
  using assms(1) by (simp_all add: caller_def set_eax_def parts_of_more [OF assms(2)])

lemma kernel_newframe:
  assumes "caller img s" and "vm_rel s (a # F) R"
  obtains s' where "kernel_call img 0x1C x y z s = Ok (a * PAGESZ, s')" and "caller img s'"
    and "vm_rel s' F (R(a \<mapsto> 1))" and "entry s' = entry s" and "dir s' = dir s"
proof -
  let ?s = "call_entry img 0x1C x y z s"
  have "vm_rel ?s (a # F) R" using assms(2) by (simp add: call_entry_def)
  then obtain s1 where s1: "frame_new ?s = Ok (a * PAGESZ, s1)" "vm_rel s1 F (R(a \<mapsto> 1))" "entry s1 = entry ?s" "dir s1 = dir ?s"
    using frame_new_vm by metis
  note m = frame_new_keeps [OF s1(1), THEN frame_lower]
  let ?s' = "th_upd img (\<lambda>t. t\<lparr>t_eax := a * PAGESZ, t_ebx := 0\<rparr>) s1"
  have "drop_bit 32 (ucast w :: u64) = 0" for w :: u32 by (rule bit_word_eqI) (auto simp: bit_simps dest: bit_imp_le_length)
  moreover have "ucast (ucast w AND 0xFFFFFFFF :: u64) = w" for w :: u32
  proof -
    have "ucast (ucast w AND mask 32 :: u64) = w" by (rule bit_word_eqI) (auto simp: bit_simps simp del: mask_numeral)
    then show ?thesis by (simp add: mask_eq_exp_minus_1)
  qed
  ultimately have r: "kcall img ?s = Ok ?s'"
    using assms(1) s1(1) by (simp add: kcall_def kcall_newframe_def caller_def Let_def)
  have "active_thread ?s' = img" using caller_after(2) [OF assms(1) m] by simp
  from kernel_call_eq [OF assms(1) r this] have "kernel_call img 0x1C x y z s = Ok (a * PAGESZ, ?s')" by simp
  moreover have "caller img ?s'" using assms(1) by (simp add: caller_def parts_of_more [OF m])
  ultimately show thesis using that s1 by (simp add: call_entry_def)
qed

text \<open>\<open>KCALL_SETFRAME\<close> and \<open>KCALL_SETFLAGS\<close> replace one part of an entry and keep the other.\<close>

lemma kernel_page_set:
  assumes "caller img s" and "vm_rel s F R" and "pdx page \<noteq> 1023" and "has_room s page F"
    and k: "kcall img (call_entry img n page b c s) =
      and_then (page_set page v (call_entry img n page b c s)) (\<lambda>s. Ok (set_eax img 0 s))"
  obtains s' F' R' where "kernel_call img n page b c s = Ok (0, s')" and "caller img s'"
    and "vm_rel s' F' R'" and "has_room s' page F'"
    and "\<And>q. pdx q \<noteq> 1023 \<Longrightarrow> entry s' q = (if frame_of q = frame_of page then v else entry s q)"
proof -
  let ?s = "call_entry img n page b c s"
  have vm: "vm_rel ?s F R" "has_room ?s page F" using assms(2,4) by (simp_all add: call_entry_def)
  show thesis
  proof (rule page_set_vm [OF vm(1) assms(3) vm(2), of v])
    fix s1 F' R'
    assume s1: "page_set page v ?s = Ok s1" "vm_rel s1 F' R'" "has_room s1 page F'"
      "\<And>q. pdx q \<noteq> 1023 \<Longrightarrow> entry s1 q = (if frame_of q = frame_of page then v else entry ?s q)"
    note m = page_set_keeps [OF s1(1), THEN frame_lower]
    have r: "kcall img ?s = Ok (set_eax img 0 s1)" using k s1(1) by simp
    have act: "active_thread (set_eax img 0 s1) = img" using caller_after(2) [OF assms(1) m] by (simp add: set_eax_def)
    show thesis
    proof (rule that)
      show "kernel_call img n page b c s = Ok (0, set_eax img 0 s1)"
        using kernel_call_eq [OF assms(1) r act] by (simp add: set_eax_def)
      show "caller img (set_eax img 0 s1)" by (rule caller_after(1) [OF assms(1) m])
      show "vm_rel (set_eax img 0 s1) F' R'" "has_room (set_eax img 0 s1) page F'"
        using s1(2,3) by (simp_all add: set_eax_def)
      show "entry (set_eax img 0 s1) q = (if frame_of q = frame_of page then v else entry s q)" if "pdx q \<noteq> 1023" for q
        using s1(4) [OF that] by (simp add: set_eax_def call_entry_def)
    qed
  qed
qed

lemma kcall_setframe_eq:
  assumes "caller img s" and "space_wf s"
  shows "kcall img (call_entry img 0x12 page b c s) =
      and_then (page_set page (page_fmt b (entry s page)) (call_entry img 0x12 page b c s)) (\<lambda>s. Ok (set_eax img 0 s))"
proof -
  have "page_get page (call_entry img 0x12 page b c s) = Ok (entry s page)"
    using assms(2) by (simp add: call_entry_def page_get_entry)
  then show ?thesis using assms(1) by (simp add: kcall_def kcall_setframe_def caller_def)
qed

lemma kcall_setflags_eq:
  assumes "caller img s" and "space_wf s"
  shows "kcall img (call_entry img 0x13 page b c s) =
      and_then (page_set page (page_fmt (page_ufmt (entry s page)) b) (call_entry img 0x13 page b c s)) (\<lambda>s. Ok (set_eax img 0 s))"
proof -
  have "page_get page (call_entry img 0x13 page b c s) = Ok (entry s page)"
    using assms(2) by (simp add: call_entry_def page_get_entry)
  then show ?thesis using assms(1) by (simp add: kcall_def kcall_setflags_def caller_def)
qed

section \<open>Properties\<close>

lemma frame_address_not_minus: "(scast (a * PAGESZ :: u32) :: u64) \<noteq> 0xFFFFFFFFFFFFFFFF"
proof
  assume "(scast (a * PAGESZ :: u32) :: u64) = 0xFFFFFFFFFFFFFFFF"
  then have "bit (scast (a * PAGESZ :: u32) :: u64) 0" by simp
  then show False by (simp add: bit_simps) (simp add: bit_0)
qed

lemma ucast_scast_u32 [simp]: "ucast (scast (w :: u32) :: u64) = w"
  by (rule bit_word_eqI) (simp add: bit_simps)

text \<open>
  C11: \<open>p_alloc\<close> of the system layer, run on the kernel of this development: the page is mapped to the first free frame with
  the requested flags, every other page keeps its entry, the page tables and the allocator stay consistent,
  and the caller goes on with the result 0.
\<close>

theorem p_alloc_maps_page:
  assumes "caller img s" and "vm_rel s (a # F) R" and "outside_window page" and "has_room s page F"
  shows "\<exists>s' F' R'. p_alloc (kernel_call img) page flags s = Ok (0, s') \<and> caller img s' \<and> vm_rel s' F' R' \<and>
    page_get page s' = Ok (page_fmt (a * PAGESZ) flags) \<and>
    (\<forall>q. outside_window q \<longrightarrow> frame_of q \<noteq> frame_of page \<longrightarrow> page_get q s' = page_get q s)"
proof -
  have p: "pdx page \<noteq> 1023" using assms(3) by (simp add: outside_window_def)
  obtain s1 where s1: "kernel_call img 0x1C 0 0 0 s = Ok (a * PAGESZ, s1)" "caller img s1"
    "vm_rel s1 F (R(a \<mapsto> 1))" "entry s1 = entry s" "dir s1 = dir s"
    using kernel_newframe [OF assms(1,2)] by metis
  have room1: "has_room s1 page F" using assms(4) s1(5) by (simp add: has_room_def)
  have wf1: "space_wf s1" using s1(3) by (simp add: vm_rel_def)
  let ?v = "page_fmt (a * PAGESZ) (entry s1 page)"
  obtain s2 F2 R2 where s2: "kernel_call img 0x12 page (a * PAGESZ) 0 s1 = Ok (0, s2)" "caller img s2" "vm_rel s2 F2 R2"
    "has_room s2 page F2" "\<And>q. pdx q \<noteq> 1023 \<Longrightarrow> entry s2 q = (if frame_of q = frame_of page then ?v else entry s1 q)"
    by (rule kernel_page_set [OF s1(2,3) p room1 kcall_setframe_eq [OF s1(2) wf1, of page "a * PAGESZ" 0]], rule that) blast
  have wf2: "space_wf s2" using s2(3) by (simp add: vm_rel_def)
  have e2: "entry s2 page = ?v" using s2(5) [OF p] by simp
  obtain s3 F3 R3 where s3: "kernel_call img 0x13 page flags 0 s2 = Ok (0, s3)" "caller img s3" "vm_rel s3 F3 R3"
    "\<And>q. pdx q \<noteq> 1023 \<Longrightarrow> entry s3 q = (if frame_of q = frame_of page then page_fmt (page_ufmt (entry s2 page)) flags else entry s2 q)"
    by (rule kernel_page_set [OF s2(2,3) p s2(4) kcall_setflags_eq [OF s2(2) wf2, of page flags 0]], rule that) blast
  have wf: "space_wf s" "space_wf s3" using assms(2) s3(3) by (simp_all add: vm_rel_def)
  have "p_alloc (kernel_call img) page flags s = Ok (0, s3)"
    by (simp add: p_alloc_def newframe_def p_set_frame_def p_set_flags_def s1(1) s2(1) s3(1) frame_address_not_minus)
  moreover have "page_get page s3 = Ok (page_fmt (a * PAGESZ) flags)"
    using s3(4) [OF p] e2 wf(2) by (simp add: page_get_entry page_fmt_def page_ufmt_def bit.conj_disj_distrib2 and.assoc)
  moreover have "page_get q s3 = page_get q s" if "outside_window q" "frame_of q \<noteq> frame_of page" for q
    using s3(4) [of q] s2(5) [of q] s1(4) that wf by (simp add: page_get_entry outside_window_def)
  ultimately show ?thesis using s3(2,3) by blast
qed

text \<open>The example: the running thread of \<open>demo_threads\<close> asks for a page at \<open>0x400000\<close>, where there is no table yet.\<close>

lemma demo_threads_vm: "vm_rel demo_threads [7, 8] Map.empty"
proof -
  have same: "pmem demo_threads = pmem demo_frames" "cr3 demo_threads = cr3 demo_frames"
    "frame_heap demo_threads = frame_heap demo_frames" "frame_list demo_threads = frame_list demo_frames"
    "frame_hash demo_threads = frame_hash demo_frames" "out_of_memory demo_threads = out_of_memory demo_frames"
    by (simp_all add: demo_threads_def) (simp_all add: demo_frames_def)
  show ?thesis
    using demo_vm unfolding vm_rel_def space_wf_def dir_def frame_rel_def frame_wf_def same .
qed

theorem p_alloc_maps_page_witness:
  "\<exists>s'. p_alloc (kernel_call 0x1000) 0x400000 3 demo_threads = Ok (0, s') \<and> page_get 0x400000 s' = Ok 0x7003"
proof -
  have c: "caller 0x1000 demo_threads" by (simp add: caller_def demo_threads_def zero_thread_def kernel_handlers_def)
  have "outside_window 0x400000" "has_room demo_threads 0x400000 [8]"
    by (simp_all add: outside_window_def pdx_def has_room_def)
  from p_alloc_maps_page [OF c demo_threads_vm this, of 3] show ?thesis by (auto simp: page_fmt_def)
qed

lemma kernel_getframe:
  assumes "caller img s" and "space_wf s" and "page AND 0xFFF = 0"
  shows "\<exists>s'. kernel_call img 0x14 page x y s = Ok (page_ufmt (entry s page), s') \<and> caller img s'"
proof -
  let ?s = "call_entry img 0x14 page x y s"
  have "page AND NOT 0xFFF = page"
  proof -
    have "page = (page AND 0xFFF) OR (page AND NOT 0xFFF)" by (simp add: bit.conj_disj_distrib [symmetric])
    then show ?thesis using assms(3) by simp
  qed
  moreover have "page_get page ?s = Ok (entry s page)" using assms(2) by (simp add: call_entry_def page_get_entry)
  ultimately have r: "kcall img ?s = Ok (set_eax img (page_ufmt (entry s page)) ?s)"
    using assms(1,3) by (simp add: kcall_def kcall_getframe_def caller_def Let_def)
  have "active_thread (set_eax img (page_ufmt (entry s page)) ?s) = img" using assms(1) by (simp add: set_eax_def caller_def)
  from kernel_call_eq [OF assms(1) r this] caller_after(1) [OF assms(1) refl]
  show ?thesis by (auto simp: set_eax_def)
qed

text \<open>
  C29: Round trip through the kernel: the frame that \<open>p_set_frame\<close> gives to a page is the one that \<open>p_get_frame\<close> reports,
  sign extended from 32 to 64 bits. The address is that of a page (a multiple of its size) outside the window on the page tables, and a frame for its table is free when it is needed.
\<close>

theorem p_set_get_frame:
  assumes "caller img s" and "vm_rel s F R" and "outside_window page" and "has_room s page F" and "page AND 0xFFF = 0"
  shows "\<exists>s' s''. p_set_frame (kernel_call img) page frame s = Ok (0, s') \<and>
    p_get_frame (kernel_call img) page s' = Ok (scast (page_ufmt (ucast frame)), s'')"
proof -
  have p: "pdx page \<noteq> 1023" using assms(3) by (simp add: outside_window_def)
  have wf: "space_wf s" using assms(2) by (simp add: vm_rel_def)
  let ?v = "page_fmt (ucast frame) (entry s page)"
  obtain s1 F1 R1 where s1: "kernel_call img 0x12 page (ucast frame) 0 s = Ok (0, s1)" "caller img s1" "vm_rel s1 F1 R1"
    "\<And>q. pdx q \<noteq> 1023 \<Longrightarrow> entry s1 q = (if frame_of q = frame_of page then ?v else entry s q)"
    by (rule kernel_page_set [OF assms(1,2) p assms(4) kcall_setframe_eq [OF assms(1) wf, of page "ucast frame" 0]], rule that) blast
  have wf1: "space_wf s1" using s1(3) by (simp add: vm_rel_def)
  have "entry s1 page = ?v" using s1(4) [OF p] by simp
  then obtain s2 where "kernel_call img 0x14 page 0 0 s1 = Ok (page_ufmt (ucast frame), s2)"
    using kernel_getframe [OF s1(2) wf1 assms(5)] by fastforce
  then show ?thesis using s1(1) by (simp add: p_set_frame_def p_get_frame_def)
qed

theorem p_set_get_frame_witness:
  "\<exists>s' s''. p_set_frame (kernel_call 0x1000) 0x400000 0x9000 demo_threads = Ok (0, s') \<and>
     p_get_frame (kernel_call 0x1000) 0x400000 s' = Ok (0x9000, s'')"
proof -
  have c: "caller 0x1000 demo_threads" by (simp add: caller_def demo_threads_def zero_thread_def kernel_handlers_def)
  have "outside_window 0x400000" "has_room demo_threads 0x400000 [7, 8]" "(0x400000 :: u32) AND 0xFFF = 0"
    by (simp_all add: outside_window_def pdx_def has_room_def)
  from p_set_get_frame [OF c demo_threads_vm this, of "0x9000"] show ?thesis
    by (simp add: page_ufmt_def)
qed

end
