(* ===== verification/Monitor.thy ===== *)
theory Monitor
  imports Dispatch
begin

text \<open>
  The text screen of the system layer (\<open>src/system/monitor.c\<close>). \<open>vidmem i\<close> is the cell \<open>VIDMEM[i]\<close>, a
  character with its attribute; the screen shows the first 2000 cells. Strings are the characters
  up to the terminator, and reading beyond it is \<open>OutOfBounds\<close>. A \<open>char\<close> is signed.
\<close>

abbreviation (input) SCRWIDTH :: nat where "SCRWIDTH \<equiv> 80"
abbreviation (input) SCRHEIGHT :: nat where "SCRHEIGHT \<equiv> 25"
abbreviation (input) BLACK :: u16 where "BLACK \<equiv> 0"
abbreviation (input) BLUE :: u16 where "BLUE \<equiv> 1"
abbreviation (input) GREEN :: u16 where "GREEN \<equiv> 2"
abbreviation (input) CYAN :: u16 where "CYAN \<equiv> 3"
abbreviation (input) RED :: u16 where "RED \<equiv> 4"
abbreviation (input) MAGENTA :: u16 where "MAGENTA \<equiv> 5"
abbreviation (input) WHITE :: u16 where "WHITE \<equiv> 15"

record monitor_state = thread_state +
  vidmem :: "nat \<Rightarrow> u16"
  cursor :: u16
  color :: u16

section \<open>Operations\<close>

definition scroll :: "'a monitor_state_scheme \<Rightarrow> 'a monitor_state_scheme" where
  "scroll s =
     (if unat (cursor s) \<ge> SCRHEIGHT * 80 then
        s\<lparr>vidmem := (\<lambda>i. if i < 24 * SCRWIDTH then vidmem s (i + SCRWIDTH)
                         else if i < SCRHEIGHT * SCRWIDTH then 0x0F20 else vidmem s i),
          cursor := of_nat (SCRWIDTH * 24)\<rparr>
      else s)"

definition move_cursor :: "'a monitor_state_scheme \<Rightarrow> 'a monitor_state_scheme" where
  "move_cursor s =
     outb 0x3D5 (ucast (cursor s)) (outb 0x3D4 15 (outb 0x3D5 (ucast (drop_bit 8 (cursor s))) (outb 0x3D4 14 s)))"

definition clear :: "'a monitor_state_scheme \<Rightarrow> 'a monitor_state_scheme" where
  "clear s = move_cursor (s\<lparr>vidmem := (\<lambda>i. if i < 80 * 25 then 0x0F00 else vidmem s i), cursor := 0\<rparr>)"

definition setcolor :: "u8 \<Rightarrow> 'a monitor_state_scheme \<Rightarrow> 'a monitor_state_scheme" where
  "setcolor col s = s\<lparr>color := push_bit 8 (ucast col)\<rparr>"

definition printc :: "char \<Rightarrow> 'a monitor_state_scheme \<Rightarrow> 'a monitor_state_scheme" where
  "printc c s =
     move_cursor (scroll
       (if c = newline then s\<lparr>cursor := cursor s - (cursor s mod 80) + 80\<rparr>
        else if c = char_of (9 :: nat) then s\<lparr>cursor := cursor s - (cursor s mod 8) + 8\<rparr>
        else if sint (of_char c :: u8) \<ge> 32 then
          s\<lparr>vidmem := (vidmem s)(unat (cursor s) := color s OR ucast (of_char c :: u8)), cursor := cursor s + 1\<rparr>
        else s))"

fun strtoul_loop :: "u64 \<Rightarrow> string \<Rightarrow> u64" where
  "strtoul_loop tmp [] = tmp"
| "strtoul_loop tmp (c # cs) =
     (if 48 \<le> (of_char c :: u8) \<and> (of_char c :: u8) \<le> 57 then strtoul_loop (tmp * 10 + (of_char c - 48)) cs else tmp)"

definition strtoul :: "string \<Rightarrow> u64" where
  "strtoul str = strtoul_loop 0 str"

text \<open>The macro \<open>COLOR\<close>, with the result that \<open>setcolor\<close> takes.\<close>

definition COLOR :: "u16 \<Rightarrow> u16 \<Rightarrow> u8" where
  "COLOR bg fg = ucast (push_bit 4 (bg AND 0xF) OR (fg AND 0xF))"

definition set_fg :: "u16 \<Rightarrow> 'a monitor_state_scheme \<Rightarrow> 'a monitor_state_scheme" where
  "set_fg c s = setcolor (COLOR (drop_bit 12 (color s)) c) s"

definition set_bg :: "u16 \<Rightarrow> 'a monitor_state_scheme \<Rightarrow> 'a monitor_state_scheme" where
  "set_bg c s = setcolor (COLOR c (drop_bit 8 (color s) AND 0x0F)) s"

definition escape_switch :: "u64 \<Rightarrow> 'a monitor_state_scheme \<Rightarrow> 'a monitor_state_scheme" where
  "escape_switch n s =
     (if n = 30 then set_fg BLACK s
      else if n = 31 then set_fg RED s
      else if n = 32 then set_fg GREEN s
      else if n = 33 then s
      else if n = 34 then set_fg BLUE s
      else if n = 35 then set_fg MAGENTA s
      else if n = 36 then set_fg CYAN s
      else if n = 37 then set_fg WHITE s
      else if n = 40 then set_bg BLACK s
      else if n = 41 then set_bg RED s
      else if n = 42 then set_bg GREEN s
      else if n = 43 then s
      else if n = 44 then set_bg BLUE s
      else if n = 45 then set_bg MAGENTA s
      else if n = 46 then set_bg CYAN s
      else if n = 47 then set_bg WHITE s
      else s)"

function escape_loop :: "string \<Rightarrow> 'a monitor_state_scheme \<Rightarrow> 'a monitor_state_scheme outcome" where
  "escape_loop str s =
     (case str of
        [] \<Rightarrow> Stop OutOfBounds
      | c # cs \<Rightarrow>
          if c = CHR ''m'' then Ok s
          else
            (let s = escape_switch (strtoul str) s
             in case dropWhile (\<lambda>c. c \<noteq> CHR ''m'' \<and> c \<noteq> CHR '';'') str of
                  [] \<Rightarrow> Stop OutOfBounds
                | d # ds \<Rightarrow> if d = CHR '';'' then escape_loop ds s else Ok s))"
  by pat_completeness auto
termination
proof (relation "measure (\<lambda>(str, s). length str)")
  fix str :: string and s c cs s' d ds
  assume "dropWhile (\<lambda>c. c \<noteq> CHR ''m'' \<and> c \<noteq> CHR '';'') str = d # ds"
  then have "length (d # ds) \<le> length str" by (metis length_dropWhile_le)
  then show "((ds, s'), str, s) \<in> measure (\<lambda>(str, s). length str)" by simp
qed simp

declare escape_loop.simps [simp del]

definition escape :: "string \<Rightarrow> 'a monitor_state_scheme \<Rightarrow> 'a monitor_state_scheme outcome" where
  "escape str s = (case str of c # cs \<Rightarrow> if c = CHR ''['' then escape_loop cs s else Ok s | [] \<Rightarrow> Ok s)"

function prints :: "string \<Rightarrow> 'a monitor_state_scheme \<Rightarrow> 'a monitor_state_scheme outcome" where
  "prints str s =
     (case str of
        [] \<Rightarrow> Ok s
      | c # cs \<Rightarrow>
          if c = char_of (0x1B :: nat) then
            and_then (escape cs s) (\<lambda>s.
              case dropWhile (\<lambda>c. c \<noteq> CHR ''m'') cs of
                [] \<Rightarrow> Stop OutOfBounds
              | d # ds \<Rightarrow> prints ds s)
          else prints cs (printc c s))"
  by pat_completeness auto
termination
proof (relation "measure (\<lambda>(str, s). length str)")
  fix str :: string and s c cs s' d ds
  assume "str = c # cs" and "dropWhile (\<lambda>c. c \<noteq> CHR ''m'') cs = d # ds"
  moreover from this have "length (d # ds) \<le> length cs" by (metis length_dropWhile_le)
  ultimately show "((ds, s'), str, s) \<in> measure (\<lambda>(str, s). length str)" by simp
qed auto

declare prints.simps [simp del]

section \<open>Numbers\<close>

definition hex_nibble :: "u32 \<Rightarrow> nat \<Rightarrow> nat" where
  "hex_nibble x i = unat (drop_bit (4 * i) x AND 0xF)"

text \<open>The digits \<open>i\<close> down to 0.\<close>

fun print_nibbles :: "u32 \<Rightarrow> nat \<Rightarrow> 'a monitor_state_scheme \<Rightarrow> 'a monitor_state_scheme" where
  "print_nibbles x 0 s = printc (''0123456789ABCDEF'' ! hex_nibble x 0) s"
| "print_nibbles x (Suc i) s = print_nibbles x i (printc (''0123456789ABCDEF'' ! hex_nibble x (Suc i)) s)"

declare print_nibbles.simps [simp del]

text \<open>The highest digit that is not zero: the loop \<open>while (... == 0) i--\<close> from \<open>i\<close> on. At 0 the loop would go on to -1.\<close>

fun first_nibble :: "u32 \<Rightarrow> nat \<Rightarrow> nat option" where
  "first_nibble x 0 = (if hex_nibble x 0 = 0 then None else Some 0)"
| "first_nibble x (Suc i) = (if hex_nibble x (Suc i) = 0 then first_nibble x i else Some (Suc i))"

definition printx :: "u32 \<Rightarrow> 'a monitor_state_scheme \<Rightarrow> 'a monitor_state_scheme outcome" where
  "printx x s =
     (if x = 0 then Ok (printc CHR ''0'' s)
      else case first_nibble x 7 of None \<Rightarrow> Stop Undefined | Some i \<Rightarrow> Ok (print_nibbles x i s))"

definition printp :: "u32 \<Rightarrow> 'a monitor_state_scheme \<Rightarrow> 'a monitor_state_scheme" where
  "printp p s = print_nibbles p 7 s"

text \<open>The loop that fills \<open>buffer\<close>, least significant digit first, and the one that prints it backwards.\<close>

fun printd_loop :: "nat \<Rightarrow> string \<Rightarrow> string outcome" where
  "printd_loop x buffer =
     (if x = 0 then Ok buffer
      else if length buffer \<ge> 10 then Stop OutOfBounds
      else printd_loop (x div 10) (buffer @ [''0123456789'' ! (x mod 10)]))"

declare printd_loop.simps [simp del]

definition print_backwards :: "string \<Rightarrow> 'a monitor_state_scheme \<Rightarrow> 'a monitor_state_scheme" where
  "print_backwards buffer s = fold printc (rev buffer) s"

text \<open>The negation of the smallest \<open>int\<close> overflows.\<close>

definition printd :: "u32 \<Rightarrow> 'a monitor_state_scheme \<Rightarrow> 'a monitor_state_scheme outcome" where
  "printd x s =
     (if sint x = - 2147483648 then Stop Undefined
      else
        (let s = (if sint x < 0 then printc CHR ''-'' s else s);
             x = nat \<bar>sint x\<bar>
         in if x = 0 then Ok (printc CHR ''0'' s)
            else and_then (printd_loop x []) (\<lambda>buffer. Ok (print_backwards buffer s))))"

section \<open>Staying on the screen\<close>

definition on_screen :: "'a monitor_state_scheme \<Rightarrow> bool" where
  "on_screen s \<longleftrightarrow> unat (cursor s) < SCRHEIGHT * SCRWIDTH"

text \<open>
  \<open>draws s s'\<close>: only the screen changed, and if the cursor was on the screen it still is, and no cell
  beyond the screen was written.
\<close>

definition paints :: "'a monitor_state_scheme \<Rightarrow> 'a monitor_state_scheme \<Rightarrow> bool" where
  "paints s s' \<longleftrightarrow> (\<exists>v c k l. s' = s\<lparr>vidmem := v, cursor := c, color := k, out_log := l\<rparr>)"

definition draws :: "'a monitor_state_scheme \<Rightarrow> 'a monitor_state_scheme \<Rightarrow> bool" where
  "draws s s' \<longleftrightarrow> paints s s' \<and>
     (on_screen s \<longrightarrow> on_screen s' \<and> (\<forall>i \<ge> SCRHEIGHT * SCRWIDTH. vidmem s' i = vidmem s i))"

lemma paints_refl: "paints s s"
  unfolding paints_def by (rule exI [of _ "vidmem s"], rule exI [of _ "cursor s"], rule exI [of _ "color s"],
    rule exI [of _ "out_log s"]) simp

lemma paints_trans: "paints s s' \<Longrightarrow> paints s' t \<Longrightarrow> paints s t"
  unfolding paints_def by (elim exE, simp, blast)

lemma paints_more: "paints s s' \<Longrightarrow> monitor_state.more s' = monitor_state.more s"
  by (auto simp: paints_def)

lemma draws_refl: "draws s s"
  by (simp add: draws_def paints_refl)

lemma draws_trans: "draws s s' \<Longrightarrow> draws s' t \<Longrightarrow> draws s t"
  by (simp add: draws_def) (blast intro: paints_trans)

lemma paints_update: "paints s (s\<lparr>vidmem := v, cursor := c, color := k, out_log := l\<rparr>)"
  unfolding paints_def by blast

lemma paints_updates [simp]:
  "paints s (s\<lparr>cursor := c\<rparr>)" "paints s (s\<lparr>color := k\<rparr>)" "paints s (s\<lparr>vidmem := v, cursor := c\<rparr>)" "paints s (s\<lparr>out_log := l\<rparr>)"
  using paints_update [where s = s and v = "vidmem s" and c = c and k = "color s" and l = "out_log s"]
    paints_update [where s = s and v = "vidmem s" and c = "cursor s" and k = k and l = "out_log s"]
    paints_update [where s = s and v = v and c = c and k = "color s" and l = "out_log s"]
    paints_update [where s = s and v = "vidmem s" and c = "cursor s" and k = "color s" and l = l]
  by simp_all

lemma move_cursor_paints: "paints s (move_cursor s)"
  by (simp add: move_cursor_def outb_def)

lemma scroll_paints: "paints s (scroll s)"
  by (simp add: scroll_def paints_refl)

lemma printc_paints: "paints s (printc c s)"
  unfolding printc_def
  by (rule paints_trans [OF paints_trans [OF _ scroll_paints] move_cursor_paints]) (simp add: paints_refl)

lemma move_cursor_fields [simp]:
  "cursor (move_cursor s) = cursor s" "vidmem (move_cursor s) = vidmem s" "color (move_cursor s) = color s"
  by (simp_all add: move_cursor_def outb_def)

lemma scroll_fields [simp]: "color (scroll s) = color s"
  "cursor (scroll s) = (if unat (cursor s) \<ge> 2000 then 1920 else cursor s)"
  by (simp_all add: scroll_def)

lemma scroll_beyond: "i \<ge> 2000 \<Longrightarrow> vidmem (scroll s) i = vidmem s i"
  by (simp add: scroll_def)

lemma printc_draws: "draws s (printc c s)"
proof -
  have "on_screen (move_cursor (scroll t))" for t :: "'a monitor_state_scheme"
    by (auto simp: on_screen_def)
  moreover have "vidmem (printc c s) i = vidmem s i" if "on_screen s" "i \<ge> 2000" for i
    using that by (auto simp: printc_def scroll_beyond on_screen_def)
  ultimately show ?thesis using printc_paints [of s c] by (auto simp: draws_def) (simp add: printc_def)
qed

lemma fold_printc_draws: "draws s (fold printc cs s)"
  by (induction cs arbitrary: s) (auto intro: draws_refl draws_trans printc_draws)

section \<open>Escape sequences\<close>

lemma setcolor_keeps [simp]: "draws s (setcolor col s)"
  by (simp add: draws_def setcolor_def on_screen_def)

definition recolors :: "'a monitor_state_scheme \<Rightarrow> 'a monitor_state_scheme \<Rightarrow> bool" where
  "recolors s s' \<longleftrightarrow> (\<exists>c. s' = s\<lparr>color := c\<rparr>)"

lemma recolors_refl [simp]: "recolors s s"
  unfolding recolors_def by (rule exI [of _ "color s"]) simp

lemma recolors_setcolor [simp]: "recolors s (setcolor col s)"
  by (auto simp: recolors_def setcolor_def)

lemma recolors_trans: "recolors s s' \<Longrightarrow> recolors s' t \<Longrightarrow> recolors s t"
  unfolding recolors_def by (elim exE, simp, blast)

lemma escape_switch_recolors: "recolors s (escape_switch n s)"
  by (simp add: escape_switch_def set_fg_def set_bg_def)

lemma escape_loop_Nil [simp]: "escape_loop [] s = Stop OutOfBounds"
  by (subst escape_loop.simps) simp

lemma escape_loop_step:
  "str \<noteq> [] \<Longrightarrow> escape_loop str s =
     (if hd str = CHR ''m'' then Ok s
      else case dropWhile (\<lambda>c. c \<noteq> CHR ''m'' \<and> c \<noteq> CHR '';'') str of
             [] \<Rightarrow> Stop OutOfBounds
           | d # ds \<Rightarrow> if d = CHR '';'' then escape_loop ds (escape_switch (strtoul str) s)
                         else Ok (escape_switch (strtoul str) s))"
proof (cases str)
  case (Cons c cs)
  show ?thesis unfolding Cons by (subst escape_loop.simps) (simp only: list.case Let_def list.sel)
qed simp

lemma escape_loop_recolors: "escape_loop str s = Ok s' \<Longrightarrow> recolors s s'"
proof (induction "length str" arbitrary: str s rule: less_induct)
  case less
  let ?rest = "dropWhile (\<lambda>c. c \<noteq> CHR ''m'' \<and> c \<noteq> CHR '';'') str" and ?s = "escape_switch (strtoul str) s"
  have l: "length ?rest \<le> length str" by (rule length_dropWhile_le)
  have ne: "str \<noteq> []" using less.prems by auto
  show ?case
  proof (cases "hd str = CHR ''m''")
    case True
    then show ?thesis using less.prems escape_loop_step [OF ne, of s] by simp
  next
    case False
    then obtain d ds where ds: "?rest = d # ds" and r: "(if d = CHR '';'' then escape_loop ds ?s else Ok ?s) = Ok s'"
      using less.prems escape_loop_step [OF ne, of s] by (cases ?rest) auto
    have "recolors ?s s'" if "escape_loop ds ?s = Ok s'" using less.hyps [OF _ that] l ds by simp
    then have "recolors ?s s'" using r by (auto split: if_splits)
    then show ?thesis using recolors_trans [OF escape_switch_recolors] by blast
  qed
qed

lemma escape_recolors: "escape str s = Ok s' \<Longrightarrow> recolors s s'"
  by (auto simp: escape_def dest: escape_loop_recolors split: list.splits if_splits)

lemma recolors_draws: "recolors s s' \<Longrightarrow> draws s s'"
  by (auto simp: recolors_def draws_def on_screen_def)

lemma prints_Nil [simp]: "prints [] s = Ok s"
  by (subst prints.simps) simp

lemma prints_Cons:
  "prints (c # cs) s =
     (if c = char_of (0x1B :: nat) then
        and_then (escape cs s) (\<lambda>s. case dropWhile (\<lambda>c. c \<noteq> CHR ''m'') cs of [] \<Rightarrow> Stop OutOfBounds | d # ds \<Rightarrow> prints ds s)
      else prints cs (printc c s))"
  by (subst prints.simps) (simp only: list.case)

lemma prints_draws: "prints str s = Ok s' \<Longrightarrow> draws s s'"
proof (induction "length str" arbitrary: str s rule: less_induct)
  case less
  show ?case
  proof (cases str)
    case (Cons c cs)
    let ?rest = "dropWhile (\<lambda>c. c \<noteq> CHR ''m'') cs"
    have l: "length ?rest \<le> length cs" by (rule length_dropWhile_le)
    show ?thesis
    proof (cases "c = char_of (0x1B :: nat)")
      case True
      then obtain s1 d ds where s1: "escape cs s = Ok s1" and ds: "?rest = d # ds" and p: "prints ds s1 = Ok s'"
        using less.prems prints_Cons [of c cs s] Cons by (cases ?rest; cases "escape cs s") auto
      have "draws s1 s'" using less.hyps [OF _ p] l Cons ds by simp
      then show ?thesis using draws_trans [OF recolors_draws [OF escape_recolors [OF s1]]] by blast
    next
      case False
      then have p: "prints cs (printc c s) = Ok s'" using less.prems prints_Cons [of c cs s] Cons by simp
      show ?thesis using less.hyps [OF _ p] draws_trans [OF printc_draws] Cons by simp
    qed
  qed (use less.prems in \<open>simp add: draws_refl\<close>)
qed

text \<open>A string without an escape character is printed character by character.\<close>

lemma prints_plain: "char_of (0x1B :: nat) \<notin> set str \<Longrightarrow> prints str s = Ok (fold printc str s)"
  by (induction str arbitrary: s) (auto simp: prints_Cons)

section \<open>Numbers\<close>

lemma hex_nibble_div: "hex_nibble x i = unat x div 16 ^ i mod 16"
proof -
  have "(0xF :: u32) = mask 4" by (simp add: mask_eq_exp_minus_1)
  then have "hex_nibble x i = unat (take_bit 4 (drop_bit (4 * i) x))"
    unfolding hex_nibble_def by (simp only: take_bit_eq_mask)
  then have "hex_nibble x i = unat x div 2 ^ (4 * i) mod 16"
    by (simp only: unsigned_take_bit_eq unat_drop_bit) (simp add: take_bit_eq_mod)
  then show ?thesis by (simp add: power_mult)
qed

lemma itoa_loop_nth:
  "2 \<le> base \<Longrightarrow> itoa_loop n base = map (\<lambda>j. itoa_digit (n div base ^ j mod base)) [0..<length (itoa_loop n base)]"
proof (induction n base rule: itoa_loop.induct)
  case (1 n base)
  show ?case
  proof (cases "n = 0")
    case False
    then have u: "itoa_loop n base = itoa_digit (n mod base) # itoa_loop (n div base) base"
      using 1 by (subst itoa_loop_unfold) auto
    have IH: "itoa_loop (n div base) base =
        map (\<lambda>j. itoa_digit (n div base div base ^ j mod base)) [0..<length (itoa_loop (n div base) base)]"
      using 1 False by auto
    show ?thesis
      unfolding u by (subst IH) (simp add: upt_conv_Cons map_Suc_upt [symmetric] div_mult2_eq del: upt_Suc)
  qed (simp add: itoa_loop_unfold 1)
qed

text \<open>The table of digits of the system layer has the digits of the kernel.\<close>

lemma nibble_digit: "''0123456789ABCDEF'' ! hex_nibble x i = itoa_digit (hex_nibble x i)"
proof -
  have "hex_nibble x i < 16" by (simp add: hex_nibble_div)
  then show ?thesis by (auto simp: less_Suc_eq eval_nat_numeral itoa_digit_def)
qed

lemma print_nibbles_fold:
  "print_nibbles x i s = fold printc (rev (map (\<lambda>j. itoa_digit (hex_nibble x j)) [0..<Suc i])) s"
  by (induction i arbitrary: s) (simp_all add: print_nibbles.simps nibble_digit)

lemma first_nibble_length:
  assumes "x \<noteq> 0" and "length (itoa_loop (unat x) 16) = Suc m" and "m \<le> k"
  shows "first_nibble x k = Some m"
proof -
  have n: "0 < unat x" using assms(1) by (simp add: unat_gt_0)
  have b: "16 ^ m \<le> unat x" "unat x < 16 ^ Suc m" using itoa_loop_length [of 16 "unat x"] n assms(2) by auto
  have "unat x div 16 ^ m < 16" using b(2) by (simp add: div_less_iff_less_mult)
  moreover have "0 < unat x div 16 ^ m" using b(1) by (simp add: div_greater_zero_iff)
  ultimately have top: "hex_nibble x m \<noteq> 0" by (simp add: hex_nibble_div)
  have high: "hex_nibble x j = 0" if "m < j" for j
  proof -
    have "(16 :: nat) ^ Suc m \<le> 16 ^ j" using that by (intro power_increasing) auto
    then have "unat x < 16 ^ j" using b(2) by simp
    then show ?thesis by (simp add: hex_nibble_div)
  qed
  show ?thesis using assms(3)
  proof (induction k)
    case (Suc k)
    then show ?case using top high by (cases "m = Suc k") auto
  qed (use top in simp)
qed

lemma printx_digits: "\<exists>str. itoa x 16 = Ok str \<and> printx x s = Ok (fold printc str s)"
proof (cases "x = 0")
  case True
  then show ?thesis by (simp add: itoa_def printx_def)
next
  case False
  let ?l = "itoa_loop (unat x) 16"
  have n: "0 < unat x" using False by (simp add: unat_gt_0)
  note len = itoa_loop_length [of 16 "unat x", OF _ n]
  obtain m where m: "length ?l = Suc m" using len(1) by (cases ?l) auto
  have "(16 :: nat) ^ m \<le> unat x" using len(2) m by simp
  also have "unat x < 16 ^ 8" using unat_less_u32 [of x] by simp
  finally have "m < 8" by (rule power_less_imp_less_exp [rotated]) simp
  then have "first_nibble x 7 = Some m" using first_nibble_length [OF False m] by simp
  moreover have "itoa x 16 = Ok (rev ?l)" using itoa_digits [of 16 x] False by simp
  moreover have "?l = map (\<lambda>j. itoa_digit (hex_nibble x j)) [0..<Suc m]"
    using itoa_loop_nth [of 16 "unat x"] m by (simp add: hex_nibble_div)
  ultimately show ?thesis using False by (simp add: printx_def print_nibbles_fold)
qed

text \<open>
  C40: The two formatters agree: \<open>printx\<close> of the system layer prints exactly the characters that \<open>__itoa\<close> of the kernel
  produces in base 16, and it does return.
\<close>

theorem printx_itoa: "\<exists>str. itoa x 16 = Ok str \<and> printx x s = Ok (fold printc str s)"
  by (rule printx_digits)

lemma string_value_nibbles:
  "string_value 16 (rev (map (\<lambda>j. itoa_digit (n div 16 ^ j mod 16)) [0..<k])) = n mod 16 ^ k"
proof (induction k arbitrary: n)
  case (Suc k)
  have "rev (map (\<lambda>j. itoa_digit (n div 16 ^ j mod 16)) [0..<Suc k]) =
      rev (map (\<lambda>j. itoa_digit (n div 16 div 16 ^ j mod 16)) [0..<k]) @ [itoa_digit (n mod 16)]"
    by (simp add: upt_conv_Cons map_Suc_upt [symmetric] div_mult2_eq del: upt_Suc)
  then show ?case using Suc [of "n div 16"] by (simp add: mod_mult2_eq)
qed simp

lemma printp_nibbles: "printp p s = fold printc (rev (map (\<lambda>j. itoa_digit (hex_nibble p j)) [0..<8])) s"
proof -
  have "Suc 7 = 8" by simp
  then show ?thesis by (simp only: printp_def print_nibbles_fold)
qed

text \<open>
  \<open>printp\<close> prints a pointer as exactly eight hexadecimal digits with the value of the pointer.
\<close>

lemma printp_digits: "\<exists>str. length str = 8 \<and> string_value 16 str = unat p \<and> printp p s = fold printc str s"
proof -
  let ?str = "rev (map (\<lambda>j. itoa_digit (hex_nibble p j)) [0..<8])"
  have "string_value 16 ?str = unat p"
    using string_value_nibbles [of "unat p" 8] unat_less_u32 [of p] by (simp add: hex_nibble_div)
  then show ?thesis using printp_nibbles by (intro exI [of _ ?str]) simp
qed

lemma printd_digit: "k < 10 \<Longrightarrow> ''0123456789'' ! k = itoa_digit k"
  by (auto simp: less_Suc_eq eval_nat_numeral itoa_digit_def)

lemma printd_loop_digits:
  "length buf + length (itoa_loop n 10) \<le> 10 \<Longrightarrow> printd_loop n buf = Ok (buf @ itoa_loop n 10)"
proof (induction n buf rule: printd_loop.induct)
  case (1 n buf)
  show ?case
  proof (cases "n = 0")
    case True
    then show ?thesis by (simp add: printd_loop.simps itoa_loop_unfold)
  next
    case False
    have u: "itoa_loop n 10 = itoa_digit (n mod 10) # itoa_loop (n div 10) 10" using False by (simp add: itoa_loop_unfold)
    then have l: "\<not> 10 \<le> length buf" using "1.prems" by simp
    have "printd_loop n buf = printd_loop (n div 10) (buf @ [''0123456789'' ! (n mod 10)])"
      using False l by (subst printd_loop.simps) simp
    also have "\<dots> = Ok ((buf @ [''0123456789'' ! (n mod 10)]) @ itoa_loop (n div 10) 10)"
      using "1.prems" u by (intro "1.IH" [OF False l]) simp
    finally show ?thesis using printd_digit [of "n mod 10"] u by simp
  qed
qed

text \<open>The screen of the examples: clear, with the cursor in the upper left corner.\<close>

definition demo_monitor :: monitor_state where
  "demo_monitor = thread_state.extend demo_threads (monitor_state.fields (\<lambda>_. 0x0F00) 0 0x0F00)"

lemma printd_digits:
  assumes "sint x \<noteq> - 2147483648"
  shows "\<exists>str. itoa (of_nat (nat \<bar>sint x\<bar>)) 10 = Ok str \<and>
    printd x s = Ok (fold printc ((if sint x < 0 then ''-'' else []) @ str) s)"
proof -
  define m where "m = nat \<bar>sint x\<bar>"
  have "- 2147483648 \<le> sint x" "sint x < 2147483648" using sint_ge [of x] sint_lt [of x] by simp_all
  then have m: "m < 2147483648" using assms unfolding m_def by linarith
  then have u: "unat (of_nat m :: u32) = m" by (simp add: unat_of_nat take_bit_eq_mod)
  show ?thesis
  proof (cases "m = 0")
    case True
    then show ?thesis by (simp add: itoa_def printd_def m_def)
  next
    case False
    let ?l = "itoa_loop m 10"
    have "of_nat m \<noteq> (0 :: u32)" using u False by (metis unat_0)
    then have i: "itoa (of_nat m) 10 = Ok (rev ?l)" using itoa_digits [of 10 "of_nat m"] u by simp
    have "10 ^ (length ?l - 1) \<le> m" using itoa_loop_length(2) [of 10 m] False by simp
    also have "m < 10 ^ 10" using m by simp
    finally have "length ?l - 1 < 10" by (rule power_less_imp_less_exp [rotated]) simp
    then have "printd_loop m [] = Ok ?l" using printd_loop_digits [of "[]" m] by simp
    then have "printd x s = Ok (fold printc ((if sint x < 0 then ''-'' else []) @ rev ?l) s)"
      using assms False by (simp add: printd_def Let_def print_backwards_def flip: m_def)
    with i show ?thesis unfolding m_def by blast
  qed
qed

end
