(* ===== verification/Log.thy ===== *)
theory Log
  imports Monitor
begin

text \<open>
  The log of the system layer (\<open>src/system/log.c\<close>): a second small \<open>printf\<close>, which prints to the screen.
  The arguments of a format are those of the kernel's \<open>printf\<close>, with the null pointer as a string that
  cannot be read.
\<close>

record log_state = monitor_state +
  log_setup :: bool

abbreviation (input) L_GREY :: u8 where "L_GREY \<equiv> 7"
abbreviation (input) L_BLUE :: u8 where "L_BLUE \<equiv> 9"
abbreviation (input) L_RED :: u8 where "L_RED \<equiv> 12"
abbreviation (input) L_BROWN :: u8 where "L_BROWN \<equiv> 14"
abbreviation (input) BROWN :: u8 where "BROWN \<equiv> 6"
abbreviation (input) LOGLEVEL :: int where "LOGLEVEL \<equiv> 3"

definition init_log :: "'a log_state_scheme \<Rightarrow> 'a log_state_scheme" where
  "init_log s = (clear s)\<lparr>log_setup := True\<rparr>"

text \<open>
  The loop over the format. A directive that is not known is skipped without taking an argument; a
  percent sign at the end makes the loop step over the terminator.
\<close>

fun log_format :: "string \<Rightarrow> va_arg list \<Rightarrow> 'a monitor_state_scheme \<Rightarrow> 'a monitor_state_scheme outcome" where
  "log_format [] ap s = Ok s"
| "log_format (f # fs) ap s =
     (if f = CHR ''%'' then
        (case fs of
           [] \<Rightarrow> Stop OutOfBounds
         | d # rest \<Rightarrow>
             if d = CHR ''%'' then log_format rest ap (printc CHR ''%'' s)
             else if d = CHR ''d'' then
               (case ap of VInt n # ap' \<Rightarrow> and_then (printd n s) (log_format rest ap') | _ \<Rightarrow> Stop Undefined)
             else if d = CHR ''x'' then
               (case ap of VInt n # ap' \<Rightarrow> and_then (printx n s) (log_format rest ap') | _ \<Rightarrow> Stop Undefined)
             else if d = CHR ''p'' then
               (case ap of VInt n # ap' \<Rightarrow> log_format rest ap' (printp n s) | _ \<Rightarrow> Stop Undefined)
             else if d = CHR ''s'' then
               (case ap of
                  VStr (Some str) # ap' \<Rightarrow> and_then (prints str s) (log_format rest ap')
                | VStr None # ap' \<Rightarrow> Stop NullDeref
                | _ \<Rightarrow> Stop Undefined)
             else if d = CHR ''c'' then
               (case ap of VInt n # ap' \<Rightarrow> log_format rest ap' (printc (char_of (unat n)) s) | _ \<Rightarrow> Stop Undefined)
             else log_format rest ap s)
      else log_format fs ap (printc f s))"

definition lograw :: "string \<Rightarrow> va_arg list \<Rightarrow> 'a log_state_scheme \<Rightarrow> 'a log_state_scheme outcome" where
  "lograw fmt ap s =
     (if \<not> log_setup s then Ok s
      else and_then (log_format fmt ap (setcolor L_BROWN s)) (\<lambda>s. Ok (printc newline s)))"

text \<open>\<open>__log\<close>: 0 is \<open>ERROR\<close>, 1 \<open>INIT\<close>, 2 \<open>DEBUG\<close> and 3 \<open>VERBOSE\<close>.\<close>

definition log_color :: "int \<Rightarrow> u8" where
  "log_color level =
     (if level = 0 then L_RED else if level = 1 then L_BROWN else if level = 2 then L_BLUE
      else if level = 3 then L_GREY else BROWN)"

definition log :: "int \<Rightarrow> string \<Rightarrow> u32 \<Rightarrow> string \<Rightarrow> va_arg list \<Rightarrow> 'a log_state_scheme \<Rightarrow> 'a log_state_scheme outcome" where
  "log level func line fmt ap s =
     (if \<not> log_setup s then Ok s
      else if level > LOGLEVEL then Ok s
      else
        and_then
          (if level \<noteq> 1 then
             and_then (prints func (setcolor L_GREY s)) (\<lambda>s.
             and_then (prints '' '' s) (\<lambda>s.
             and_then (printd line s) (\<lambda>s.
             prints ('':'' @ [char_of (9 :: nat)]) s)))
           else Ok s) (\<lambda>s.
        and_then (log_format fmt ap (setcolor (log_color level) s)) (\<lambda>s.
        and_then (prints [newline] s) (\<lambda>s.
        Ok (setcolor L_GREY s)))))"

section \<open>What is printed\<close>

text \<open>The text of a format; \<open>None\<close> where the loop has no defined behaviour.\<close>

fun log_text :: "string \<Rightarrow> va_arg list \<Rightarrow> string option" where
  "log_text [] ap = Some []"
| "log_text (f # fs) ap =
     (if f = CHR ''%'' then
        (case fs of
           [] \<Rightarrow> None
         | d # rest \<Rightarrow>
             if d = CHR ''%'' then map_option ((#) CHR ''%'') (log_text rest ap)
             else if d = CHR ''d'' then
               (case ap of
                  VInt n # ap' \<Rightarrow>
                    if sint n = - 2147483648 then None
                    else (case itoa (of_nat (nat \<bar>sint n\<bar>)) 10 of
                            Ok str \<Rightarrow> map_option ((@) ((if sint n < 0 then ''-'' else []) @ str)) (log_text rest ap')
                          | Stop h \<Rightarrow> None)
                | _ \<Rightarrow> None)
             else if d = CHR ''x'' then
               (case ap of
                  VInt n # ap' \<Rightarrow> (case itoa n 16 of Ok str \<Rightarrow> map_option ((@) str) (log_text rest ap') | Stop h \<Rightarrow> None)
                | _ \<Rightarrow> None)
             else if d = CHR ''p'' then
               (case ap of
                  VInt n # ap' \<Rightarrow> map_option ((@) (rev (map (\<lambda>j. itoa_digit (hex_nibble n j)) [0..<8]))) (log_text rest ap')
                | _ \<Rightarrow> None)
             else if d = CHR ''s'' then
               (case ap of
                  VStr (Some str) # ap' \<Rightarrow>
                    if char_of (0x1B :: nat) \<in> set str then None else map_option ((@) str) (log_text rest ap')
                | _ \<Rightarrow> None)
             else if d = CHR ''c'' then
               (case ap of VInt n # ap' \<Rightarrow> map_option ((#) (char_of (unat n))) (log_text rest ap') | _ \<Rightarrow> None)
             else log_text rest ap)
      else map_option ((#) f) (log_text fs ap))"

lemma printd_text:
  "sint n \<noteq> - 2147483648 \<Longrightarrow> itoa (of_nat (nat \<bar>sint n\<bar>)) 10 = Ok str \<Longrightarrow>
   printd n s = Ok (fold printc ((if sint n < 0 then ''-'' else []) @ str) s)"
  using printd_digits [of n s] by auto

lemma printx_text: "itoa n 16 = Ok str \<Longrightarrow> printx n s = Ok (fold printc str s)"
  using printx_digits [of n s] by auto

lemma log_directive:
  assumes "log_text (CHR ''%'' # d # rest) ap = Some out"
    and "\<And>ap (s :: 'a monitor_state_scheme) out. log_text rest ap = Some out \<Longrightarrow> log_format rest ap s = Ok (fold printc out s)"
  shows "log_format (CHR ''%'' # d # rest) ap (s :: 'a monitor_state_scheme) = Ok (fold printc out s)"
  using assms(1)
  by (auto simp: assms(2) printd_text printx_text printp_nibbles prints_plain
      split: if_splits list.splits va_arg.splits option.splits outcome.splits)

lemma log_format_text:
  "log_text fmt ap = Some out \<Longrightarrow> log_format fmt ap (s :: 'a monitor_state_scheme) = Ok (fold printc out s)"
proof (induction "length fmt" arbitrary: fmt ap s out rule: less_induct)
  case less
  show ?case
  proof (cases fmt)
    case (Cons f fs)
    show ?thesis
    proof (cases "f = CHR ''%''")
      case False
      then obtain out' where "log_text fs ap = Some out'" "out = f # out'" using less.prems Cons by auto
      then show ?thesis using less.hyps [of fs ap out' "printc f s"] False Cons by simp
    next
      case True
      then obtain d rest where fs: "fs = d # rest" using less.prems Cons by (cases fs) auto
      have p: "log_text (CHR ''%'' # d # rest) ap = Some out" using less.prems Cons fs True by (simp only:)
      show ?thesis unfolding Cons fs True
        by (rule log_directive [OF p]) (use less.hyps [of rest] Cons fs in simp)
    qed
  qed (use less.prems in simp)
qed

section \<open>Staying on the screen\<close>

lemma printd_draws: "printd n s = Ok s' \<Longrightarrow> draws s s'"
proof (cases "sint n = - 2147483648")
  case False
  then obtain cs where "printd n s = Ok (fold printc cs s)" using printd_digits [of n s] by blast
  then show "printd n s = Ok s' \<Longrightarrow> draws s s'" using fold_printc_draws by auto
qed (simp add: printd_def)

lemma printx_draws: "printx n s = Ok s' \<Longrightarrow> draws s s'"
  using printx_digits [of n s] fold_printc_draws by auto

lemma printp_draws: "draws s (printp n s)"
  unfolding printp_nibbles by (rule fold_printc_draws)

lemmas draws_then = printd_draws [THEN draws_trans] printx_draws [THEN draws_trans] prints_draws [THEN draws_trans]
  printp_draws [THEN draws_trans] printc_draws [THEN draws_trans]

lemma log_format_draws: "log_format fmt ap s = Ok s' \<Longrightarrow> draws s s'"
proof (induction fmt ap s rule: log_format.induct)
  case (2 f fs ap s)
  show ?case
  proof (cases "f = CHR ''%''")
    case False
    then show ?thesis using 2 draws_trans [OF printc_draws] by simp
  next
    case True
    then obtain d rest where fs: "fs = d # rest" using "2.prems" by (cases fs) auto
    show ?thesis
      using "2.prems" "2.IH"(1-7) [OF True fs] unfolding True fs
      by (auto simp: and_then_eq_Ok split: if_splits list.splits va_arg.splits option.splits intro: draws_then)
  qed
qed (simp add: draws_refl)

lemma log_draws: "log level func line fmt ap s = Ok s' \<Longrightarrow> draws s s'"
proof -
  assume r: "log level func line fmt ap s = Ok s'"
  show ?thesis
  proof (cases "log_setup s \<and> level \<le> LOGLEVEL")
    case False
    then show ?thesis using r by (auto simp: log_def draws_refl split: if_splits)
  next
    case True
    then obtain s1 s2 s3 where s1: "(if level \<noteq> 1 then
             and_then (prints func (setcolor L_GREY s)) (\<lambda>s. and_then (prints '' '' s) (\<lambda>s.
             and_then (printd line s) (\<lambda>s. prints ('':'' @ [char_of (9 :: nat)]) s))) else Ok s) = Ok s1"
      and s2: "log_format fmt ap (setcolor (log_color level) s1) = Ok s2" and s3: "prints [newline] s2 = Ok s3"
      and s': "s' = setcolor L_GREY s3"
      using r by (auto simp: log_def and_then_eq_Ok)
    have "draws s s1"
    proof (cases "level = 1")
      case False
      then obtain a b c where a: "prints func (setcolor L_GREY s) = Ok a" and b: "prints '' '' a = Ok b"
        and c: "printd line b = Ok c" and d: "prints ('':'' @ [char_of (9 :: nat)]) c = Ok s1"
        using s1 by (auto simp: and_then_eq_Ok)
      show ?thesis
        by (rule draws_trans [OF setcolor_keeps draws_trans [OF prints_draws [OF a] draws_trans [OF prints_draws [OF b]
          draws_trans [OF printd_draws [OF c] prints_draws [OF d]]]]])
    qed (use s1 in \<open>simp add: draws_refl\<close>)
    from draws_trans [OF this setcolor_keeps] have "draws s (setcolor (log_color level) s1)" .
    from draws_trans [OF this draws_trans [OF log_format_draws [OF s2] draws_trans [OF prints_draws [OF s3] setcolor_keeps]]]
    show ?thesis unfolding s' .
  qed
qed

section \<open>A message\<close>

lemma log_message:
  assumes "log_text fmt ap = Some out" and "char_of (0x1B :: nat) \<notin> set func" and "sint line \<ge> 0"
    and "itoa line 10 = Ok num"
  shows "log level func line fmt ap s =
    Ok (if \<not> log_setup s \<or> level > LOGLEVEL then s
        else setcolor L_GREY (fold printc (out @ [newline]) (setcolor (log_color level)
          (if level = 1 then s else fold printc (func @ '' '' @ num @ '':'' @ [char_of (9 :: nat)]) (setcolor L_GREY s)))))"
proof -
  have esc: "char_of (0x1B :: nat) \<notin> set ('':'' @ [char_of (9 :: nat)])" "char_of (0x1B :: nat) \<notin> set '' ''"
    "char_of (0x1B :: nat) \<notin> set [newline]" by (simp_all add: newline_def char_of_def)
  have "of_nat (nat \<bar>sint line\<bar>) = line" using assms(3) by (simp add: of_nat_nat)
  then have d: "printd line t = Ok (fold printc num t)" for t :: "'a log_state_scheme"
    using printd_text [of line num t] assms(3,4) by simp
  show ?thesis
    by (simp add: log_def d log_format_text [OF assms(1)] prints_plain [OF assms(2)] prints_plain [OF esc(1)]
        prints_plain [OF esc(2)] prints_plain [OF esc(3)] del: set_append append.simps)
qed

section \<open>Properties\<close>

text \<open>The example: the clear screen of \<open>demo_monitor\<close>, with the log set up.\<close>

definition demo_log :: log_state where
  "demo_log = monitor_state.extend demo_monitor (log_state.fields True)"

lemma demo_log_fields: "log_setup demo_log" "cursor demo_log = 0" "on_screen demo_log"
  by (simp_all add: demo_log_def demo_monitor_def monitor_state.defs log_state.defs thread_state.defs on_screen_def)

text \<open>
  C33: Whatever is logged, also with escape sequences and at the end of the screen, the cursor stays within the 25 lines
  of 80 characters and no memory beyond the screen is written.
\<close>

theorem log_stays_on_screen:
  assumes "on_screen s" and "log level func line fmt ap s = Ok s'"
  shows "on_screen s' \<and> (\<forall>i \<ge> SCRHEIGHT * SCRWIDTH. vidmem s' i = vidmem s i)"
  using log_draws [OF assms(2)] assms(1) by (simp add: draws_def)

lemma demo_message:
  "log_text ''EIP: %x'' [VInt 0x1F] = Some ''EIP: 1F''" "itoa 53 10 = Ok ''53''"
  by (simp_all add: itoa_digits itoa_loop.simps itoa_digit_def)

theorem log_stays_on_screen_witness:
  "\<exists>s'. log 0 ''debugger'' 53 ''EIP: %x'' [VInt 0x1F] demo_log = Ok s' \<and> on_screen s' \<and> vidmem s' 2000 = vidmem demo_log 2000"
proof -
  obtain s' where s': "log 0 ''debugger'' 53 ''EIP: %x'' [VInt 0x1F] demo_log = Ok s'"
    using log_message [OF demo_message(1) _ _ demo_message(2), of "''debugger''" 0 demo_log]
    by (auto simp: char_of_def sint_u32)
  with log_stays_on_screen [OF demo_log_fields(3) s'] show ?thesis by simp
qed

text \<open>
  C34: A call of \<open>__log\<close> whose arguments fit the format (and are within what the formatters take: no smallest integer for \<open>%d\<close>), with a line number that is not negative and without
  escape characters in the name of the function and in string arguments, prints, in order and nothing else, the name of the function, the line and the formatted text: the name
  and the line in light grey, the text in light red for \<open>ERROR\<close> (0), light brown for \<open>INIT\<close> (1), light blue for \<open>DEBUG\<close> (2), light grey for \<open>VERBOSE\<close> (3) and brown
  below, and leaves the colour at light grey; for the level \<open>INIT\<close> it prints the text alone. A message above the log level (3), or before the log is set up, prints nothing.
\<close>

theorem log_prints_message:
  assumes "log_text fmt ap = Some out" and "char_of (0x1B :: nat) \<notin> set func" and "sint line \<ge> 0"
    and "itoa line 10 = Ok num"
  shows "log level func line fmt ap s =
    Ok (if \<not> log_setup s \<or> level > 3 then s
        else (fold printc (out @ [newline])
          ((if level = 1 then s else fold printc (func @ '' '' @ num @ '':'' @ [char_of (9 :: nat)]) (s\<lparr>color := 0x0700\<rparr>))
            \<lparr>color := if level = 0 then 0x0C00 else if level = 1 then 0x0E00 else if level = 2 then 0x0900
              else if level = 3 then 0x0700 else 0x0600\<rparr>))\<lparr>color := 0x0700\<rparr>)"
  using log_message [OF assms, of level s]
  by (simp add: setcolor_def log_color_def del: set_append append.simps fold_append)

theorem log_prints_message_witness:
  "log 0 ''debugger'' 53 ''EIP: %x'' [VInt 0x1F] demo_log =
     Ok ((fold printc (''EIP: 1F'' @ [newline])
       ((fold printc (''debugger 53:'' @ [char_of (9 :: nat)]) (demo_log\<lparr>color := 0x0700\<rparr>))\<lparr>color := 0x0C00\<rparr>))\<lparr>color := 0x0700\<rparr>)"
proof -
  have "char_of (0x1B :: nat) \<notin> set ''debugger''" by (simp add: char_of_def)
  then show ?thesis
    using log_prints_message [OF demo_message(1) _ _ demo_message(2), of "''debugger''" 0 demo_log] demo_log_fields(1)
    by (simp add: sint_u32)
qed

end
