(* ===== verification/System.thy ===== *)
theory System
  imports Syscalls Log
begin

text \<open>
  The threads of the system layer (\<open>src/system/init.c\<close>): the debugger, which reports faults and kills
  the threads that caused them, the reaper of dead threads, the keyboard driver, and \<open>init\<close>, which
  starts them. A thread is an endless loop, of which the definitions are one turn. The kernel calls are
  a parameter, as are the addresses of local structures.
\<close>

section \<open>The keyboard\<close>

record system_state = log_state +
  shift :: bool
  caps :: bool
  numlk :: bool
  var_debugger :: u32
  var_reaper :: u32

abbreviation (input) ALT :: u32 where "ALT \<equiv> 0x00800000"
abbreviation (input) CTRL :: u32 where "CTRL \<equiv> 0x00800001"
abbreviation (input) SHFT :: u32 where "SHFT \<equiv> 0x00800002"
abbreviation (input) SYSR :: u32 where "SYSR \<equiv> 0x00800003"
abbreviation (input) WIN :: u32 where "WIN \<equiv> 0x00800004"
abbreviation (input) CAPS :: u32 where "CAPS \<equiv> 0x00800005"
abbreviation (input) INS :: u32 where "INS \<equiv> 0x00800006"
abbreviation (input) UP :: u32 where "UP \<equiv> 0x00800008"
abbreviation (input) DOWN :: u32 where "DOWN \<equiv> 0x00800009"
abbreviation (input) LEFT :: u32 where "LEFT \<equiv> 0x0080000A"
abbreviation (input) RGHT :: u32 where "RGHT \<equiv> 0x0080000B"
abbreviation (input) PGUP :: u32 where "PGUP \<equiv> 0x0080000C"
abbreviation (input) PGDN :: u32 where "PGDN \<equiv> 0x0080000D"
abbreviation (input) HOME :: u32 where "HOME \<equiv> 0x0080000E"
abbreviation (input) END :: u32 where "END \<equiv> 0x0080000F"
abbreviation (input) ESC :: u32 where "ESC \<equiv> 0x00800010"
abbreviation (input) NUML :: u32 where "NUML \<equiv> 0x0080001D"
abbreviation (input) SCRL :: u32 where "SCRL \<equiv> 0x0080001E"
abbreviation (input) DEL :: u32 where "DEL \<equiv> 0x0080001F"

text \<open>The function keys F1 to F12, and the keys whose code is their character.\<close>

definition F :: "nat \<Rightarrow> u32" where
  "F n = 0x00800010 + of_nat n"

definition keys :: "string \<Rightarrow> u32 list" where
  "keys cs = map of_char cs"

text \<open>The rows of \<open>keymap\<close>; the elements that a row does not list are 0.\<close>

definition keymap_0 :: "u32 list" where
  "keymap_0 =
     [0, ESC] @ keys ''1234567890-='' @ [8] @
     [9] @ keys ''qwertyuiop[]'' @ [10] @
     [CTRL] @ keys ''asdfghjkl;'' @ [0x27] @ keys ''`'' @ [SHFT] @
     [0x5C] @ keys ''zxcvbnm,./'' @ [SHFT] @ keys ''*'' @
     [ALT] @ keys '' '' @ [CAPS, F 1, F 2, F 3, F 4, F 5, F 6, F 7, F 8, F 9, F 10,
      NUML, SCRL, HOME, UP, PGUP] @ keys ''-'' @ [LEFT, 5, RGHT] @ keys ''+'' @ [END, DOWN, PGDN, INS, DEL,
      SYSR, 0, WIN, F 11, F 12, 0, 0, WIN, WIN]"

definition keymap_1 :: "u32 list" where
  "keymap_1 =
     [0, ESC] @ keys ''1234567890-='' @ [8] @
     [9] @ keys ''qwertyuiop[]'' @ [10] @
     [CTRL] @ keys ''asdfghjkl;'' @ [0x27] @ keys ''`'' @ [SHFT] @
     [0x5C] @ keys ''zxcvbnm,./'' @ [SHFT] @ keys ''*'' @
     [ALT] @ keys '' '' @ [CAPS, F 1, F 2, F 3, F 4, F 5, F 6, F 7, F 8, F 9, F 10,
      NUML, SCRL, 7, 8, 9] @ keys ''-'' @ [4, 5, 6] @ keys ''+'' @ [1, 2, 3, 0] @ keys ''.'' @
     [SYSR, 0, WIN, F 11, F 12, 0, 0, WIN, WIN]"

definition keymap_2 :: "u32 list" where
  "keymap_2 =
     [0, ESC] @ keys ''!@#$%^&*()_+'' @ [8] @
     [9] @ keys ''QWERTYUIOP{}'' @ [10] @
     [CTRL] @ keys ''ASDFGHJKL:'' @ [0x22] @ keys ''~'' @ [SHFT] @
     keys ''|ZXCVBNM<>?'' @ [SHFT] @ keys ''*'' @
     [ALT] @ keys '' '' @ [CAPS, F 1, F 2, F 3, F 4, F 5, F 6, F 7, F 8, F 9, F 10,
      NUML, SCRL, HOME, UP, PGUP] @ keys ''-'' @ [LEFT, 5, RGHT] @ keys ''+'' @ [END, DOWN, PGDN, INS, DEL,
      SYSR, 0, WIN, F 11, F 12, 0, 0, WIN, WIN]"

definition keymap_3 :: "u32 list" where
  "keymap_3 =
     [0, ESC] @ keys ''!@#$%^&*()_+'' @ [8] @
     [9] @ keys ''QWERTYUIOP{}'' @ [10] @
     [CTRL] @ keys ''ASDFGHJKL:'' @ [0x22] @ keys ''~'' @ [SHFT] @
     keys ''|ZXCVBNM<>?'' @ [SHFT] @ keys ''*'' @
     [ALT] @ keys '' '' @ [CAPS, F 1, F 2, F 3, F 4, F 5, F 6, F 7, F 8, F 9, F 10,
      NUML, SCRL, 7, 8, 9] @ keys ''-'' @ [4, 5, 6] @ keys ''+'' @ [1, 2, 3, 0] @ keys ''.'' @
     [SYSR, 0, WIN, F 11, F 12, 0, 0, WIN, WIN]"

definition keymap :: "nat \<Rightarrow> nat \<Rightarrow> u32" where
  "keymap row i =
     (let codes = [keymap_0, keymap_1, keymap_2, keymap_3] ! row in if i < length codes then codes ! i else 0)"

definition keyboard_code :: "u8 \<Rightarrow> 'a system_state_scheme \<Rightarrow> u32" where
  "keyboard_code scan s =
     keymap ((if shift s \<noteq> caps s then 2 else 0) + (if numlk s then 1 else 0)) (unat (scan AND 0x7F))"

text \<open>One scan code: the rest of the loop body after \<open>scan\<close> has been read.\<close>

definition keyboard_scan :: "u8 \<Rightarrow> 'a system_state_scheme \<Rightarrow> 'a system_state_scheme outcome" where
  "keyboard_scan scan s =
     (if scan = 0xE0 then Ok s
      else
        (let code = keyboard_code scan s
         in if scan AND 0x80 \<noteq> 0 then
              (if code = SHFT then Ok (s\<lparr>shift := False\<rparr>)
               else if code = NUML then Ok (s\<lparr>numlk := False\<rparr>)
               else log 3 ''keyboard'' 180 (''key release'' @ [char_of (9 :: nat)] @ ''%c'') [VInt code] s)
            else
              (if code = SHFT then Ok (s\<lparr>shift := True\<rparr>)
               else if code = CAPS then Ok (s\<lparr>caps := (caps s \<noteq> True)\<rparr>)
               else if code = NUML then Ok (s\<lparr>numlk := True\<rparr>)
               else log 3 ''keyboard'' 189 (''key press'' @ [char_of (9 :: nat)] @ ''%c'') [VInt code] s)))"

definition keyboard_turn :: "'a system_state_scheme kcall_fn \<Rightarrow> 'a system_state_scheme \<Rightarrow> 'a system_state_scheme outcome" where
  "keyboard_turn kc s =
     and_then (sys_irq_wait kc 1 s) (\<lambda>(_, s).
       let (scan, s) = inb 0x60 s
       in and_then (sys_irq_reset kc 1 s) (\<lambda>(_, s). keyboard_scan (scan AND 0xFF) s))"

section \<open>Debugger and reaper\<close>

text \<open>What the threads print first; \<open>func0\<close> and \<open>func1\<close> do nothing else (\<open>func1\<close> then loops for ever).\<close>

definition thread_start ::
  "'a log_state_scheme kcall_fn \<Rightarrow> int \<Rightarrow> string \<Rightarrow> u32 \<Rightarrow> string \<Rightarrow> 'a log_state_scheme \<Rightarrow> 'a log_state_scheme outcome" where
  "thread_start kc level func line fmt s =
     and_then (t_getid kc s) (\<lambda>(id, s). log level func line fmt [VInt id] s)"

definition func0 :: "'a log_state_scheme kcall_fn \<Rightarrow> 'a log_state_scheme \<Rightarrow> 'a log_state_scheme outcome" where
  "func0 kc s = thread_start kc 3 ''func0'' 31 ''func0 on thread %d'' s"

definition func1_start :: "'a log_state_scheme kcall_fn \<Rightarrow> 'a log_state_scheme \<Rightarrow> 'a log_state_scheme outcome" where
  "func1_start kc s = thread_start kc 3 ''func1'' 35 ''func1 on thread %d'' s"

definition debugger_start :: "'a log_state_scheme kcall_fn \<Rightarrow> 'a log_state_scheme \<Rightarrow> 'a log_state_scheme outcome" where
  "debugger_start kc s = thread_start kc 1 ''debugger'' 43 ''debugger starting on thread %d'' s"

definition reaper_start :: "'a log_state_scheme kcall_fn \<Rightarrow> 'a log_state_scheme \<Rightarrow> 'a log_state_scheme outcome" where
  "reaper_start kc s = thread_start kc 1 ''reaper'' 71 ''reaper starting on thread %d'' s"

definition reaper_turn :: "'s kcall_fn \<Rightarrow> 's \<Rightarrow> 's outcome" where
  "reaper_turn kc s =
     and_then (t_getdead kc s) (\<lambda>(thread, s).
       and_then (t_reap kc thread NULL s) (\<lambda>(_, s). Ok s))"

text \<open>The words of the stack from \<open>esp + 4 i\<close> down to \<open>esp\<close>; \<open>info\<close> is the address of the structure.\<close>

fun stack_trace :: "ptr \<Rightarrow> nat \<Rightarrow> 'a log_state_scheme \<Rightarrow> 'a log_state_scheme outcome" where
  "stack_trace info n s =
     and_then (load32 (info + off_esp) s) (\<lambda>esp.
     and_then (load32 (esp + 4 * of_nat n) s) (\<lambda>val.
     and_then (log 0 ''debugger'' 63 ''[ESP+%b]: %p (%d)'' [VInt (4 * of_nat n), VInt val, VInt val] s) (\<lambda>s.
     case n of 0 \<Rightarrow> Ok s | Suc m \<Rightarrow> stack_trace info m s)))"

declare stack_trace.simps [simp del]

text \<open>A line of two registers, which are read from the structure.\<close>

definition log_pair ::
  "u32 \<Rightarrow> string \<Rightarrow> ptr \<Rightarrow> ptr \<Rightarrow> 'a log_state_scheme \<Rightarrow> 'a log_state_scheme outcome" where
  "log_pair line fmt p q s =
     and_then (load32 p s) (\<lambda>v. and_then (load32 q s) (\<lambda>w. log 0 ''debugger'' line fmt [VInt v, VInt w] s))"

definition debugger_turn ::
  "'a log_state_scheme kcall_fn \<Rightarrow> ptr \<Rightarrow> ptr \<Rightarrow> 'a log_state_scheme \<Rightarrow> 'a log_state_scheme outcome" where
  "debugger_turn kc info state s =
     and_then (t_getfault kc s) (\<lambda>(thread, s).
     and_then (t_getstate kc thread info s) (\<lambda>(_, s).
     and_then (load32 (info + off_fault_addr) s) (\<lambda>fault_addr.
     and_then (log 0 ''debugger'' 52 ''page fault from %d (%s) at %p''
         [VInt thread, VStr (Some ''nameless''), VInt fault_addr] s) (\<lambda>s.
     and_then (load32 (info + off_eip) s) (\<lambda>eip.
     and_then (log 0 ''debugger'' 53 ''EIP: %p'' [VInt eip] s) (\<lambda>s.
     and_then (log_pair 54 (''ESP: %p'' @ [char_of (9 :: nat)] @ ''EBP: %p'') (info + off_esp) (info + off_ebp) s) (\<lambda>s.
     and_then (log_pair 55 (''EAX: %p'' @ [char_of (9 :: nat)] @ ''EBX: %p'') (info + off_eax) (info + off_ebx) s) (\<lambda>s.
     and_then (log_pair 56 (''ECX: %p'' @ [char_of (9 :: nat)] @ ''EDX: %p'') (info + off_ecx) (info + off_edx) s) (\<lambda>s.
     and_then (log_pair 57 (''EDI: %p'' @ [char_of (9 :: nat)] @ ''ESI: %p'') (info + off_edi) (info + off_esi) s) (\<lambda>s.
     and_then (log 0 ''debugger'' 58 [] [] s) (\<lambda>s.
     and_then (log 0 ''debugger'' 60 ''stack trace:'' [] s) (\<lambda>s.
     and_then (stack_trace info 6 s) (\<lambda>s.
     and_then (t_kill kc state thread 1 s) (\<lambda>(_, s). Ok s))))))))))))))"

section \<open>Startup\<close>

text \<open>
  \<open>init\<close>: \<open>stack\<close> is the address of the array of 65536 words, the other addresses are those of the
  functions. The store to address 42 at the end faults on purpose.
\<close>

definition spawn_at :: "'a machine_scheme kcall_fn \<Rightarrow> ptr \<Rightarrow> u32 \<Rightarrow> u32 \<Rightarrow> 'a machine_scheme \<Rightarrow> (u32 \<times> 'a machine_scheme) outcome" where
  "spawn_at kc state eip esp s =
     and_then (store32 (state + off_eip) eip s) (\<lambda>s.
     and_then (store32 (state + off_esp) esp s) (\<lambda>s. t_spawn kc state s))"

definition init_system ::
  "'a system_state_scheme kcall_fn \<Rightarrow> ptr \<Rightarrow> u32 \<Rightarrow> u32 \<Rightarrow> u32 \<Rightarrow> u32 \<Rightarrow> 'a system_state_scheme \<Rightarrow> 'a system_state_scheme outcome" where
  "init_system kc state stack debugger reaper keyboard s =
     (let s = init_log s
      in and_then (log 1 ''init'' 200 ''starting up'' [] s) (\<lambda>s.
         and_then (spawn_at kc state debugger (stack + 4 * 255) s) (\<lambda>(r, s).
         let s = s\<lparr>var_debugger := r\<rparr>
         in and_then (spawn_at kc state reaper (stack + 4 * 511) s) (\<lambda>(r, s).
            let s = s\<lparr>var_reaper := r\<rparr>
            in and_then (spawn_at kc state keyboard (stack + 4 * 65535) s) (\<lambda>(_, s). store32 42 24 s)))))"

section \<open>Modifier keys\<close>

text \<open>The places of a code in a row, counted from \<open>n\<close> on.\<close>

fun places :: "u32 \<Rightarrow> nat \<Rightarrow> u32 list \<Rightarrow> nat list" where
  "places v n [] = []"
| "places v n (x # xs) = (if x = v then n # places v (n + 1) xs else places v (n + 1) xs)"

lemma places_iff: "i \<in> set (places v n xs) \<longleftrightarrow> n \<le> i \<and> i < n + length xs \<and> xs ! (i - n) = v"
proof (induction xs arbitrary: n i)
  case (Cons x xs)
  have "n \<notin> set (places v (n + 1) xs)" unfolding Cons.IH by simp
  then show ?case by (cases "i = n") (auto simp: Cons nth_Cons' Suc_diff_le)
qed simp

lemma keymap_places:
  assumes "row < 4"
  shows "places SHFT 0 ([keymap_0, keymap_1, keymap_2, keymap_3] ! row) = [42, 54]"
    and "places CAPS 0 ([keymap_0, keymap_1, keymap_2, keymap_3] ! row) = [58]"
    and "places NUML 0 ([keymap_0, keymap_1, keymap_2, keymap_3] ! row) = [69]"
proof -
  have r: "row = 0 \<or> row = 1 \<or> row = 2 \<or> row = 3" using assms by auto
  show "places SHFT 0 ([keymap_0, keymap_1, keymap_2, keymap_3] ! row) = [42, 54]"
    using r by (auto simp: keymap_0_def keymap_1_def keymap_2_def keymap_3_def keys_def F_def)
  show "places CAPS 0 ([keymap_0, keymap_1, keymap_2, keymap_3] ! row) = [58]"
    using r by (auto simp: keymap_0_def keymap_1_def keymap_2_def keymap_3_def keys_def F_def)
  show "places NUML 0 ([keymap_0, keymap_1, keymap_2, keymap_3] ! row) = [69]"
    using r by (auto simp: keymap_0_def keymap_1_def keymap_2_def keymap_3_def keys_def F_def)
qed

lemma keymap_eq_iff:
  assumes "row < 4" and "v \<noteq> 0"
  shows "keymap row i = v \<longleftrightarrow> i \<in> set (places v 0 ([keymap_0, keymap_1, keymap_2, keymap_3] ! row))"
  using assms(2) by (auto simp: keymap_def places_iff Let_def)

lemma keymap_modifiers:
  assumes "row < 4"
  shows "keymap row i = SHFT \<longleftrightarrow> i = 42 \<or> i = 54" "keymap row i = CAPS \<longleftrightarrow> i = 58" "keymap row i = NUML \<longleftrightarrow> i = 69"
  by (simp_all add: keymap_eq_iff [OF assms] keymap_places [OF assms])

text \<open>The three variables after a scan code, without the tables.\<close>

fun modifiers :: "u8 \<Rightarrow> bool \<times> bool \<times> bool \<Rightarrow> bool \<times> bool \<times> bool" where
  "modifiers scan (sh, cp, nl) =
     (let down = (scan AND 0x80 = 0); k = unat (scan AND 0x7F)
      in if scan = 0xE0 then (sh, cp, nl)
         else if k = 42 \<or> k = 54 then (down, cp, nl)
         else if k = 58 \<and> down then (sh, \<not> cp, nl)
         else if k = 69 then (sh, cp, down)
         else (sh, cp, nl))"

lemma log_modifiers:
  "log level func line fmt ap (s :: 'a system_state_scheme) = Ok s' \<Longrightarrow> (shift s', caps s', numlk s') = (shift s, caps s, numlk s)"
proof -
  assume "log level func line fmt ap (s :: 'a system_state_scheme) = Ok s'"
  from log_draws [OF this] have "paints s s'" by (simp add: draws_def)
  then show ?thesis unfolding paints_def by (elim exE) simp
qed

lemma keyboard_scan_modifiers:
  assumes "keyboard_scan scan s = Ok s'"
  shows "(shift s', caps s', numlk s') = modifiers scan (shift s, caps s, numlk s)"
proof -
  let ?row = "(if shift s \<noteq> caps s then 2 else 0) + (if numlk s then 1 else (0 :: nat))"
  let ?k = "unat (scan AND 0x7F)"
  have "?row < 4" by simp
  note km = keymap_modifiers [OF this, of ?k, folded keyboard_code_def]
  show ?thesis
    using assms unfolding keyboard_scan_def Let_def km
    by (auto simp: Let_def split: if_splits dest: log_modifiers)
qed

fun keyboard_scans :: "u8 list \<Rightarrow> 'a system_state_scheme \<Rightarrow> 'a system_state_scheme outcome" where
  "keyboard_scans [] s = Ok s"
| "keyboard_scans (c # cs) s = and_then (keyboard_scan c s) (keyboard_scans cs)"

text \<open>
  The keys that are held, from the scan codes alone: a code names a key with its low seven bits, and the top bit is set when the
  key is released; the prefix \<open>0xE0\<close> stands for no key. Left and right shift are keys 42 and 54, caps lock is 58, number lock 69.
\<close>

definition press :: "u8 \<Rightarrow> nat \<Rightarrow> bool" where
  "press c k \<longleftrightarrow> c AND 0x80 = 0 \<and> unat (c AND 0x7F) = k"

definition release :: "u8 \<Rightarrow> nat \<Rightarrow> bool" where
  "release c k \<longleftrightarrow> c \<noteq> 0xE0 \<and> c AND 0x80 \<noteq> 0 \<and> unat (c AND 0x7F) = k"

definition held :: "u8 \<Rightarrow> nat set \<Rightarrow> nat set" where
  "held c K = {k. press c k \<or> k \<in> K \<and> \<not> release c k}"

abbreviation shift_keys :: "nat set" where
  "shift_keys \<equiv> {42, 54}"

text \<open>No shift key is released while the other one is held.\<close>

primrec shifts_apart :: "u8 list \<Rightarrow> nat set \<Rightarrow> bool" where
  "shifts_apart [] K \<longleftrightarrow> True"
| "shifts_apart (c # cs) K \<longleftrightarrow>
     ((\<exists>k \<in> shift_keys. release c k) \<longrightarrow> held c K \<inter> shift_keys = {}) \<and> shifts_apart cs (held c K)"

lemma shift_held: "K \<inter> shift_keys \<noteq> {} \<longleftrightarrow> 42 \<in> K \<or> 54 \<in> K"
  by blast

text \<open>A scan code presses a key, releases one, or is the prefix.\<close>

lemma scan_cases:
  obtains (prefix) "c = 0xE0" "\<And>k. \<not> press c k" "\<And>k. \<not> release c k"
    | (press) k where "c \<noteq> 0xE0" "c AND 0x80 = 0" "unat (c AND 0x7F) = k" "\<And>j. press c j \<longleftrightarrow> j = k" "\<And>j. \<not> release c j"
    | (release) k where "c \<noteq> 0xE0" "c AND 0x80 \<noteq> 0" "unat (c AND 0x7F) = k" "\<And>j. \<not> press c j" "\<And>j. release c j \<longleftrightarrow> j = k"
proof (cases "c = 0xE0")
  case True
  then show ?thesis using prefix by (simp add: press_def release_def)
next
  case False
  then show ?thesis using press release by (cases "c AND 0x80 = 0") (auto simp: press_def release_def)
qed

lemma modifiers_held:
  assumes "modifiers c (sh, cp, nl) = (sh', cp', nl')"
  shows "((42 \<in> held c K \<or> 54 \<in> held c K) \<longrightarrow> \<not> release c 42 \<and> \<not> release c 54) \<Longrightarrow> sh \<longleftrightarrow> 42 \<in> K \<or> 54 \<in> K \<Longrightarrow>
      sh' \<longleftrightarrow> 42 \<in> held c K \<or> 54 \<in> held c K"
    and "nl \<longleftrightarrow> 69 \<in> K \<Longrightarrow> nl' \<longleftrightarrow> 69 \<in> held c K"
    and "cp' \<longleftrightarrow> cp \<noteq> press c 58"
  by (cases c rule: scan_cases; use assms in \<open>auto simp: held_def Let_def split: if_splits\<close>)+

lemmas keyboard_scan_held = modifiers_held [OF keyboard_scan_modifiers [symmetric]]

text \<open>The line that a key prints, and that a scan code always gets to the end.\<close>

lemma line_numbers: "itoa 180 10 = Ok ''180''" "itoa 189 10 = Ok ''189''"
  by (simp_all add: itoa_digits itoa_loop.simps itoa_digit_def)

lemma key_text:
  "log_text (''key release'' @ [char_of (9 :: nat)] @ ''%c'') [VInt code] =
     Some (''key release'' @ [char_of (9 :: nat), char_of (unat code)])"
  "log_text (''key press'' @ [char_of (9 :: nat)] @ ''%c'') [VInt code] =
     Some (''key press'' @ [char_of (9 :: nat), char_of (unat code)])"
  by (simp_all add: char_of_def)

lemma keyboard_func: "char_of (0x1B :: nat) \<notin> set ''keyboard''"
  by (simp add: char_of_def)

lemmas key_release_message = log_message [OF key_text(1) keyboard_func _ line_numbers(1)]
lemmas key_press_message = log_message [OF key_text(2) keyboard_func _ line_numbers(2)]

lemma keyboard_scan_ok: "\<exists>s'. keyboard_scan scan s = Ok s'"
  using key_release_message [where level = 3 and code = "keyboard_code scan s" and s = s] key_press_message [where level = 3 and code = "keyboard_code scan s" and s = s]
  by (auto simp: keyboard_scan_def Let_def sint_u32)

section \<open>Letters\<close>

lemma unat_of_char [simp]: "unat (of_char c :: u32) = of_char c"
proof -
  have "(of_char c :: nat) < 2 ^ 32" by (rule less_trans [OF nat_of_char_less_256]) simp
  then have "unat (of_nat (of_char c) :: u32) = of_char c" by (simp add: unat_of_nat)
  then show ?thesis by (simp only: of_nat_of_char)
qed

lemma of_char_small: "256 \<le> unat v \<Longrightarrow> (of_char c :: u32) \<noteq> v"
  using nat_of_char_less_256 [of c] by (metis not_le unat_of_char)

text \<open>The letter of a key, and the same letter in upper case.\<close>

definition letter_rows :: "(nat \<times> string) list" where
  "letter_rows = [(16, ''qwertyuiop''), (30, ''asdfghjkl''), (44, ''zxcvbnm'')]"

definition letter :: "nat \<Rightarrow> char option" where
  "letter k = map_option (\<lambda>(a, cs). cs ! (k - a)) (find (\<lambda>(a, cs). a \<le> k \<and> k < a + length cs) letter_rows)"

definition upper :: "char \<Rightarrow> char" where
  "upper c = char_of (of_char c - 32 :: nat)"

definition row_at :: "u32 list \<Rightarrow> nat \<Rightarrow> u32 list \<Rightarrow> bool" where
  "row_at row k xs \<longleftrightarrow> take (length xs) (drop k row) = xs"

lemma row_at_nth: "row_at row k xs \<Longrightarrow> k \<le> i \<Longrightarrow> i < k + length xs \<Longrightarrow> i < length row \<and> row ! i = xs ! (i - k)"
proof -
  assume r: "row_at row k xs" and i: "k \<le> i" "i < k + length xs"
  have "length (take (length xs) (drop k row)) = length xs" using r by (simp add: row_at_def)
  then have l: "length xs \<le> length row - k" by simp
  have "xs ! (i - k) = take (length xs) (drop k row) ! (i - k)" using r by (simp add: row_at_def)
  then show ?thesis using i l by simp
qed

lemma keymap_rows:
  "row_at keymap_0 16 (keys ''qwertyuiop'')" "row_at keymap_0 30 (keys ''asdfghjkl'')" "row_at keymap_0 44 (keys ''zxcvbnm'')"
  "row_at keymap_1 16 (keys ''qwertyuiop'')" "row_at keymap_1 30 (keys ''asdfghjkl'')" "row_at keymap_1 44 (keys ''zxcvbnm'')"
  "row_at keymap_2 16 (keys ''QWERTYUIOP'')" "row_at keymap_2 30 (keys ''ASDFGHJKL'')" "row_at keymap_2 44 (keys ''ZXCVBNM'')"
  "row_at keymap_3 16 (keys ''QWERTYUIOP'')" "row_at keymap_3 30 (keys ''ASDFGHJKL'')" "row_at keymap_3 44 (keys ''ZXCVBNM'')"
  by (simp_all add: row_at_def keymap_0_def keymap_1_def keymap_2_def keymap_3_def keys_def)

lemma upper_rows:
  "keys ''QWERTYUIOP'' = keys (map upper ''qwertyuiop'')" "keys ''ASDFGHJKL'' = keys (map upper ''asdfghjkl'')"
  "keys ''ZXCVBNM'' = keys (map upper ''zxcvbnm'')"
  by (simp_all add: upper_def char_of_def bit_0)

lemma keymap_letter:
  assumes "letter k = Some c" and "row < 4"
  shows "keymap row k = of_char (if row < 2 then c else upper c)"
proof -
  have at: "row_at ([keymap_0, keymap_1, keymap_2, keymap_3] ! row) a (keys (map (if row < 2 then id else upper) cs))"
    if "(a, cs) \<in> set letter_rows" for a cs
  proof -
    have "row = 0 \<or> row = 1 \<or> row = 2 \<or> row = 3" using assms(2) by auto
    then show ?thesis using that keymap_rows [unfolded upper_rows] unfolding letter_rows_def by (elim disjE) (auto simp del: list.map)
  qed
  obtain a cs where a: "(a, cs) \<in> set letter_rows"
    and k: "a \<le> k" "k < a + length cs" and c: "c = cs ! (k - a)"
    using assms(1) by (auto simp: letter_def find_Some_iff) (metis nth_mem)
  from row_at_nth [OF at [OF a] k(1)] k show ?thesis by (simp add: keymap_def c keys_def)
qed

section \<open>The stack trace\<close>

text \<open>
  \<open>%b\<close> is no directive of the log, so that it takes no argument: the line of the stack trace shows the offset where the
  value should be.
\<close>

lemma trace_line:
  assumes "sint val \<ge> 0" and "itoa val 10 = Ok num"
  shows "log_text ''[ESP+%b]: %p (%d)'' [VInt off, VInt val, VInt val] =
    Some (''[ESP+]: '' @ rev (map (\<lambda>j. itoa_digit (hex_nibble off j)) [0..<8]) @ '' ('' @ num @ '')'')"
proof -
  have "of_nat (nat \<bar>sint val\<bar>) = val" using assms(1) by (simp add: of_nat_nat)
  then show ?thesis using assms by (simp del: upt_rec_numeral)
qed

section \<open>Properties\<close>

text \<open>
  C31: The keyboard driver handles every sequence of scan codes to the end and keeps track of the modifiers, whatever table is selected meanwhile: if no shift key is released while the other one is held,
  then shift is on just when a shift key is held; the number lock is on just when its key is held; and caps lock changes with every press of its key.
  (When one of two held shift keys is released, the driver turns shift off.)
\<close>

theorem keyboard_tracks_modifiers:
  assumes "shift s \<longleftrightarrow> K \<inter> shift_keys \<noteq> {}" and "numlk s \<longleftrightarrow> 69 \<in> K" and "shifts_apart scans K"
  shows "\<exists>s'. keyboard_scans scans s = Ok s' \<and> (shift s' \<longleftrightarrow> fold held scans K \<inter> shift_keys \<noteq> {}) \<and>
    (numlk s' \<longleftrightarrow> 69 \<in> fold held scans K) \<and> (caps s' \<longleftrightarrow> caps s \<noteq> odd (length (filter (\<lambda>c. press c 58) scans)))"
  using assms
proof (induction scans arbitrary: s K)
  case (Cons c scans)
  obtain s1 where s1: "keyboard_scan c s = Ok s1" using keyboard_scan_ok by blast
  have "shift s1 \<longleftrightarrow> held c K \<inter> shift_keys \<noteq> {}" unfolding shift_held
    by (rule keyboard_scan_held(1) [OF s1]) (use Cons.prems(1,3) in auto)
  moreover have "numlk s1 \<longleftrightarrow> 69 \<in> held c K" by (rule keyboard_scan_held(2) [OF s1 Cons.prems(2)])
  moreover have "shifts_apart scans (held c K)" using Cons.prems(3) by simp
  ultimately show ?case using Cons.IH [of s1 "held c K"] s1 keyboard_scan_held(3) [OF s1] by auto
qed simp

theorem keyboard_tracks_modifiers_witness:
  "\<exists>s'. keyboard_scans [0x36, 0x3A, 0xB6, 0x2A] (log_state.extend demo_log (system_state.fields False False False 0 0)) = Ok s' \<and>
     shift s' \<and> caps s' \<and> \<not> numlk s'"
proof -
  let ?s = "log_state.extend demo_log (system_state.fields False False False 0 0)"
  let ?cs = "[0x36, 0x3A, 0xB6, 0x2A] :: u8 list"
  have s: "\<not> shift ?s" "\<not> caps ?s" "\<not> numlk ?s" by (simp_all add: log_state.defs system_state.defs)
  have "shifts_apart ?cs {}" "fold held ?cs {} = {58, 42}" by (auto simp: held_def press_def release_def)
  moreover have "length (filter (\<lambda>c. press c 58) ?cs) = 1" by (simp add: press_def)
  ultimately show ?thesis using keyboard_tracks_modifiers [of ?s "{}" ?cs] s by auto
qed

text \<open>
  C32: Pressing the key of a letter prints that letter, in upper case just when exactly one of shift and caps lock is on.
\<close>

theorem keyboard_prints_letter:
  assumes "log_setup s" and "scan AND 0x80 = 0" and "letter (unat (scan AND 0x7F)) = Some c"
  shows "keyboard_scan scan s =
    Ok (setcolor L_GREY
      (fold printc (''key press'' @ [char_of (9 :: nat), if shift s = caps s then c else upper c, newline]) (setcolor L_GREY
        (fold printc (''keyboard 189:'' @ [char_of (9 :: nat)]) (setcolor L_GREY s)))))"
proof -
  let ?c = "if shift s = caps s then c else upper c"
  have code: "keyboard_code scan s = of_char ?c"
    unfolding keyboard_code_def by (subst keymap_letter [OF assms(3)]) auto
  have other: "keyboard_code scan s \<noteq> SHFT" "keyboard_code scan s \<noteq> CAPS" "keyboard_code scan s \<noteq> NUML"
    unfolding code by (rule of_char_small; simp)+
  have "char_of (unat (of_char ?c :: u32)) = ?c" by (simp only: unat_of_char char_of_char)
  moreover have "scan \<noteq> 0xE0" using assms(2) by auto
  ultimately show ?thesis
    using key_press_message [where level = 3 and code = "of_char ?c" and s = s] assms(1,2) other
    by (simp add: keyboard_scan_def code sint_u32 log_color_def)
qed

theorem keyboard_prints_letter_witness:
  "keyboard_scan 0x1E (log_state.extend demo_log (system_state.fields True False False 0 0)) = 
    Ok (setcolor L_GREY
      (fold printc (''key press'' @ [char_of (9 :: nat), CHR ''A'', newline]) (setcolor L_GREY
        (fold printc (''keyboard 189:'' @ [char_of (9 :: nat)]) (setcolor L_GREY 
           (log_state.extend demo_log (system_state.fields True False False 0 0)))))))"
proof -
  have "letter (unat ((0x1E :: u8) AND 0x7F)) = Some CHR ''a''" by (simp add: letter_def letter_rows_def)
  moreover have "upper CHR ''a'' = CHR ''A''" by (simp add: upper_def char_of_def bit_0)
  ultimately show ?thesis
    using keyboard_prints_letter [of "log_state.extend demo_log (system_state.fields True False False 0 0)" "0x1E" "CHR ''a''"]
    by (simp add: demo_log_def monitor_state.defs log_state.defs system_state.defs)
qed

end
