(* ===== verification/Spec2Isabelle.thy ===== *)
theory Spec2Isabelle
  imports Layout System
begin

text \<open>
  A verification of Pinion, a microkernel for the x86 (\<open>src/kernel\<close>), and of the system layer that runs on it
  (\<open>src/system\<close>). All C functions of both parts are modelled; file names below are relative to \<open>src/\<close>
  of the repository.

  The program. The boot loader enters the kernel in \<open>boot.s\<close>, which turns on paging and calls \<open>init\<close>. It
  collects the free frames of the memory map, loads the system image with the ELF loader and starts
  it as the first thread, in ring 1. From then on the kernel runs only in interrupts: the entry code of \<open>int.s\<close>
  stores the registers in the structure of the active thread and calls \<open>int_handler\<close>, which runs the
  handler of the interrupt (the timer, a fault, a kernel call, or, for a device, the release of the thread
  that waits for it) and then chooses the thread to go on with. Kernel calls allocate frames, edit page tables and
  move threads between running, queued, waiting and paused. The system layer makes kernel calls through
  wrappers; its threads report faults, bury dead threads, and drive the screen and the keyboard.

  The state. It is one record that grows from layer to layer, in the order of the calls: \<open>machine\<close> (physical
  memory, CR2, CR3, ports), \<open>frame_state\<close>, \<open>heap_state\<close>, \<open>pctx_state\<close>, \<open>intr_state\<close>, \<open>thread_state\<close>, and for the
  system layer \<open>monitor_state\<close>, \<open>log_state\<close> and \<open>system_state\<close>; its fields are the static variables of the C files
  under their names. An operation is polymorphic in the layers above its own, and \<open>Keeps\<close> collects
  that it leaves them alone. Structures of the kernel that have links (\<open>struct frame\<close>, \<open>struct thread\<close>) are records in
  stores indexed by their address, so that aliasing is as in C. Everything else (page tables, the free blocks of
  the heap, FPU data, the images and structures of the boot loader, the arguments of kernel calls) lies in
  physical memory and is reached through the page tables, as in the program. Integers are words of their width.

  Errors. An operation that may fail to come back has the type \<open>outcome\<close> of \<open>Prelude\<close>: \<open>Ok\<close> with the result, or \<open>Stop\<close>
  with the reason: a panic, a null pointer, a fault on an unmapped page, an index out of bounds, an
  undefined operation of C, or a loop that does not end. Error codes that the C code returns are values.

  Theories of the kernel.
    \<^item> \<open>Prelude\<close>: words, outcomes, addresses, chains of linked records.
    \<^item> \<open>Machine\<close>: memory, translation, ports (\<open>cpu.s\<close>, \<open>cpu.h\<close>, \<open>ports.h\<close>).
    \<^item> \<open>Debug\<close>: \<open>debug.c\<close>. \<open>__itoa\<close> against positional notation; the text that \<open>debug_printf\<close> sends.
    \<^item> \<open>Frame\<close>: \<open>frame.c\<close>. The locale \<open>frame_allocator\<close> relates the free list and the hash table to an abstract
      allocator, a list of free frames and a map of counts; it is interpreted on the operations of the
      program, which gives the refinements and the round trips. Before the list has frames, they come from the emergency
      pool, from the top of the boot area down.
    \<^item> \<open>Page\<close>, \<open>Bytes\<close>, \<open>Mem\<close>: \<open>page.c\<close>, \<open>mem.c\<close>, \<open>memcpy.c\<close>, \<open>memclr.c\<close> and the macros of \<open>space.h\<close>. The locale
      \<open>page_map\<close> is the contract of a map from pages to entries; its interpretation proves it for \<open>page_get\<close> and
      \<open>page_set\<close>, which edit the tables through the recursive window. \<open>Bytes\<close> sees memory as bytes and proves the
      copying loops; \<open>Mem\<close> proves the allocation of a range.
    \<^item> \<open>Heap\<close>: \<open>heap.c\<close>. Choice of the bucket, slabs, free and alloc as inverses.
    \<^item> \<open>Pctx\<close>: \<open>pctx.c\<close>. A new context shares the pages of the kernel and nothing else. \<open>Intr\<close>: \<open>interrupt.c\<close> without its dispatcher. \<open>Fault\<close>: \<open>fault.c\<close>.
    \<^item> \<open>Queue\<close>: the contract of the queues of threads, as the locales \<open>thread_queue\<close> and \<open>rotating_queue\<close>: threads
      leave in the order in which they came, and threads that enter again take turns.
    \<^item> \<open>Thread\<close>, \<open>Sched\<close>, \<open>Event\<close>, \<open>Dead\<close>: \<open>thread.c\<close> and \<open>fpu.s\<close>. Table of threads, creation, switch with the FPU; the
      queue of the scheduler, the queues of events, of dead threads and reapers, of faulting threads and
      debuggers. The queue contracts are interpreted on the scheduler, on the virtual timers, on dead
      threads, on reapers and on debuggers; dead threads are reported in the order of their deaths, to the reapers in
      the order in which these asked. (The queue of faulting threads does not satisfy it, see below.)
    \<^item> \<open>Kcall\<close>: \<open>kcall.c\<close>, a definition for each case. \<open>Dispatch\<close>: \<open>timer_handler\<close> and \<open>int_handler\<close>.
    \<^item> \<open>SchedSpec\<close>, \<open>Refine\<close>, \<open>Lifecycle\<close>, \<open>Vectors\<close>, \<open>Kernel\<close>: an abstract scheduler (one running thread, a line of ready threads, a line
      for each event, a set of paused threads), the proof that the operations of the kernel make its
      moves, and runs of the kernel as a step relation. \<open>Lifecycle\<close> has the moves that change the set of threads
      (\<open>SPAWN\<close>, \<open>REAP\<close> and the death of a thread through \<open>SETSTATE\<close>) and what a new thread starts with; \<open>Vectors\<close> shows that
      no interrupt changes the table of handlers. Results, for orderly interrupts (see below): refinement, one
      running thread, well-formed thread records, no thread lost, fairness of preemption, system calls and their returns.
    \<^item> \<open>Info\<close>: the structure through which threads read and write each other, as bytes of memory; \<open>GETSTATE\<close> and
      \<open>SETSTATE\<close> are inverses.
    \<^item> \<open>Elf\<close>: \<open>elf.c\<close>. \<open>Boot\<close>: \<open>init.c\<close>; the state that it leaves is one from which the runs of \<open>Kernel\<close> start.
    \<^item> \<open>Layout\<close>: the structures of the headers; the offsets that the model uses follow from the declarations.

  Theories of the system layer.
    \<^item> \<open>Syscalls\<close>: \<open>kcalls.c\<close> and \<open>kcall.s\<close>, over a parameter for the kernel call and, with \<open>kernel_call\<close>, over the
      kernel of this development; what \<open>p_alloc\<close>, \<open>p_set_frame\<close> and \<open>p_get_frame\<close> do to the page tables.
    \<^item> \<open>Monitor\<close>, \<open>Log\<close>: \<open>monitor.c\<close> and \<open>log.c\<close>. The number formatters agree with the one of the kernel; the cursor
      stays on the screen; what a message prints.
    \<^item> \<open>System\<close>: \<open>init.c\<close>. The keyboard tracks its modifiers, against the set of keys that are held, and prints the letters.

  Departures from the intent of the code. The model keeps what the code does. Where this is not what a comment, a
  name or the neighbouring code says, the last part of \<open>Kernel\<close> has theorems about it: resuming a thread
  that was paused while it waited loses the caller, the test for kernel mode in \<open>fault_generic\<close> is
  inverted, IRQ 8 is not acknowledged at its controller, \<open>fault_pull\<close> and \<open>event_remv\<close> follow the link of the
  scheduler. \<open>Elf\<close> and \<open>System\<close> have one more each (\<open>elf_pflags_rw\<close>, \<open>trace_line\<close>).

  What the theorems on runs exclude. A step of \<open>Kernel\<close> is any interrupt, with any vector and any registers, from which the kernel
  returns. The results on steps and runs hold for orderly ones, and the code breaks them otherwise; \<open>orderly\<close> excludes four situations. \<open>PAUSE\<close> of a thread
  that waits for an event damages the event queues. A thread that waits in the queue of reapers or debuggers stays there
  when it is resumed or reaped (\<open>resume_keeps_reaper\<close>), so \<open>SETSTATE\<close> asks that the first reaper, and an exception that the first debugger, is still a paused
  thread. \<open>SPAWN\<close> asks that the block which the heap hands out is not in use by a thread. The other hypotheses of these results are that the handlers are the ones
  that \<open>init\<close> registers, which \<open>Boot\<close> proves and \<open>Vectors\<close> shows to last, and that the idle loop is interrupted only by the timer and the devices.
  In \<open>Syscalls\<close> a kernel call after which another thread goes on is no result of \<open>kernel_call\<close> (\<open>Stop Undefined\<close>), so calls that block are outside the theorems on wrappers.

  Loops and bounds. Loops over a counter are structural or have a termination proof. A loop that may run
  for ever is a partial function into \<open>option\<close>, and \<open>None\<close> becomes \<open>Stop Diverge\<close>: waiting for the serial port, which ends
  if the transmitter becomes empty again and again, and the searches of linked lists, which end for
  well-formed lists; both are proved, and the claims say that the operations return. \<open>mem_alloc\<close> does not end for a range that
  reaches the last page, since its counter wraps around; this is a branch of the model. Only the loop over the frames of a memory region
  at boot has fuel (\<open>region_fuel\<close>, \<open>2^23\<close> turns): a turn takes 16 bytes of heap, and the kernel's heap
  cannot hold as many.

  Parameters. What lies outside the sources is a parameter: the values that devices deliver at ports
  (\<open>in_ports\<close>), the address of the end of the kernel image (\<open>kernel_end\<close>) and of the first stack, the addresses of
  the stubs of interrupts, the flags of the processor at boot, and in the system layer the kernel call and the
  addresses of local structures.

  Not modelled. Of the assembly only what the C code can observe is modelled: the registers that \<open>int.s\<close> stores, the FPU
  state, ports and control registers. \<open>boot.s\<close>, the exit path of \<open>int.s\<close>, \<open>cpu_halt\<close> and \<open>cpu_idle\<close> (an endless wait for
  the next interrupt, where the model takes the next step) are not. Translations are never stale, so a missing
  flush of the TLB cannot be seen. The kernel runs with interrupts off on one processor, hence its handlers are
  atomic steps; the threads of the system layer are modelled one at a time, without interleaving. The
  headers of fixed-width integers (\<open>include/stdint-gcc.h\<close>, \<open>stdint.h\<close>) only name the types of words.
\<close>

end
